(* ===== verification/Net_Prelude.thy ===== *)
theory Net_Prelude
  imports Main "HOL-Library.Word"
begin

text \<open>
  The shared vocabulary of the development: machine integers, the byte memory behind a
  packet buffer, the byte-order functions of \<^verbatim>\<open>arpa/inet.h\<close>, and the outcome type of
  operations that may leave the defined behaviour of C.

  \<^item> \<open>u8\<close>, \<open>u16\<close>, \<open>u32\<close> are the C types \<^verbatim>\<open>uint8_t\<close>, \<^verbatim>\<open>uint16_t\<close>, \<^verbatim>\<open>uint32_t\<close>; their arithmetic
    wraps around.
  \<^item> \<open>mem\<close> is the memory of one heap block, indexed by the distance from its first byte.
    A multi-byte field of a packed struct is read and written byte by byte, least significant
    byte first: the stack is built for a little-endian Linux host.
  \<^item> \<open>htons\<close>, \<open>htonl\<close>, \<open>ntohs\<close>, \<open>ntohl\<close> reverse the bytes, as they do on such a host.
  \<^item> \<open>outcome\<close> is either a value or the \<open>fault\<close> at which the C program stops being defined
    (or never continues).
\<close>

section \<open>Machine integers and byte memory\<close>

unbundle bit_operations_syntax

type_synonym u8 = "8 word"
type_synonym u16 = "16 word"
type_synonym u32 = "32 word"
type_synonym mem = "nat \<Rightarrow> u8"

named_theorems byte_simps \<open>reading back what was stored in byte memory\<close>
named_theorems frame_simps \<open>state components an operation leaves alone\<close>

definition byte0 :: "'a::len word \<Rightarrow> u8" where
  "byte0 w = word_of_nat (unat w mod 256)"

definition byte1 :: "'a::len word \<Rightarrow> u8" where
  "byte1 w = word_of_nat (unat w div 256 mod 256)"

definition byte2 :: "'a::len word \<Rightarrow> u8" where
  "byte2 w = word_of_nat (unat w div 65536 mod 256)"

definition byte3 :: "'a::len word \<Rightarrow> u8" where
  "byte3 w = word_of_nat (unat w div 16777216 mod 256)"

definition le16 :: "u8 \<Rightarrow> u8 \<Rightarrow> u16" where
  "le16 a b = word_of_nat (unat a + 256 * unat b)"

definition le32 :: "u8 \<Rightarrow> u8 \<Rightarrow> u8 \<Rightarrow> u8 \<Rightarrow> u32" where
  "le32 a b c d = word_of_nat (unat a + 256 * unat b + 65536 * unat c + 16777216 * unat d)"

definition get16 :: "mem \<Rightarrow> nat \<Rightarrow> u16" where
  "get16 m i = le16 (m i) (m (i + 1))"

definition get32 :: "mem \<Rightarrow> nat \<Rightarrow> u32" where
  "get32 m i = le32 (m i) (m (i + 1)) (m (i + 2)) (m (i + 3))"

definition put16 :: "mem \<Rightarrow> nat \<Rightarrow> u16 \<Rightarrow> mem" where
  "put16 m i v = m(i := byte0 v, i + 1 := byte1 v)"

definition put32 :: "mem \<Rightarrow> nat \<Rightarrow> u32 \<Rightarrow> mem" where
  "put32 m i v = m(i := byte0 v, i + 1 := byte1 v, i + 2 := byte2 v, i + 3 := byte3 v)"

text \<open>\<^verbatim>\<open>memcpy\<close> of a byte list to offset \<open>i\<close>, and the bytes of a block between two offsets.\<close>

definition put_bytes :: "mem \<Rightarrow> nat \<Rightarrow> u8 list \<Rightarrow> mem" where
  "put_bytes m i xs = (\<lambda>j. if i \<le> j \<and> j < i + length xs then xs ! (j - i) else m j)"

definition get_bytes :: "mem \<Rightarrow> nat \<Rightarrow> nat \<Rightarrow> u8 list" where
  "get_bytes m i n = map m [i..<i + n]"

section \<open>Byte order\<close>

definition bswap16 :: "u16 \<Rightarrow> u16" where
  "bswap16 w = le16 (byte1 w) (byte0 w)"

definition bswap32 :: "u32 \<Rightarrow> u32" where
  "bswap32 w = le32 (byte3 w) (byte2 w) (byte1 w) (byte0 w)"

abbreviation htons :: "u16 \<Rightarrow> u16" where "htons \<equiv> bswap16"
abbreviation ntohs :: "u16 \<Rightarrow> u16" where "ntohs \<equiv> bswap16"
abbreviation htonl :: "u32 \<Rightarrow> u32" where "htonl \<equiv> bswap32"
abbreviation ntohl :: "u32 \<Rightarrow> u32" where "ntohl \<equiv> bswap32"

section \<open>Outcomes\<close>

text \<open>
  \<open>OutOfBounds\<close> and \<open>UseAfterFree\<close> are accesses outside a live heap block, \<open>NullPointer\<close> is a
  dereferenced null pointer, \<open>Uninitialised\<close> is the use of a local variable that was never assigned,
  \<open>SelfDeadlock\<close> is a thread that waits for a mutex which no
  running thread will release, \<open>Exit n\<close> is a call of \<^verbatim>\<open>exit(n)\<close>.
\<close>

datatype fault = OutOfBounds | NullPointer | UseAfterFree | Uninitialised | SelfDeadlock | Exit int

type_synonym 'a outcome = "fault + 'a"

definition bindo :: "'a outcome \<Rightarrow> ('a \<Rightarrow> 'b outcome) \<Rightarrow> 'b outcome" where
  "bindo r f = (case r of Inl e \<Rightarrow> Inl e | Inr x \<Rightarrow> f x)"

section \<open>Lemmas on bytes and words\<close>

lemma unat_u8_less [simp]: "unat (a :: u8) < 256"
  using unsigned_less [of a] by simp

lemma unat_u8_le [simp]: "unat (a :: u8) \<le> 255" "\<not> 255 < unat (a :: u8)"
  using unat_u8_less [of a] by linarith+

lemma unat_u16_less [simp]: "unat (a :: u16) < 65536"
  using unsigned_less [of a] by simp

lemma unat_u32_less [simp]: "unat (a :: u32) < 4294967296"
  using unsigned_less [of a] by simp

lemma unat_le16 [simp]: "unat (le16 a b) = unat a + 256 * unat b"
proof -
  have "unat a + 256 * unat b < 65536"
    using unat_u8_less [of a] unat_u8_less [of b] by linarith
  then show ?thesis by (simp add: le16_def unat_of_nat del: of_nat_add of_nat_mult)
qed

lemma unat_le32 [simp]:
  "unat (le32 a b c d) = unat a + 256 * unat b + 65536 * unat c + 16777216 * unat d"
proof -
  have "unat a + 256 * unat b + 65536 * unat c + 16777216 * unat d < 4294967296"
    using unat_u8_less [of a] unat_u8_less [of b] unat_u8_less [of c] unat_u8_less [of d]
    by linarith
  then show ?thesis by (simp add: le32_def unat_of_nat del: of_nat_add of_nat_mult)
qed

lemma unat_byte [simp]:
  "unat (byte0 w) = unat w mod 256"
  "unat (byte1 w) = unat w div 256 mod 256"
  "unat (byte2 w) = unat w div 65536 mod 256"
  "unat (byte3 w) = unat w div 16777216 mod 256"
  by (simp_all add: byte0_def byte1_def byte2_def byte3_def unat_of_nat)

lemma nat_bytes2: "n < 65536 \<Longrightarrow> n mod 256 + 256 * (n div 256 mod 256) = (n :: nat)"
  by (simp add: less_mult_imp_div_less)

lemma nat_bytes4:
  assumes "n < (4294967296 :: nat)"
  shows "n mod 256 + 256 * (n div 256 mod 256) + 65536 * (n div 65536 mod 256)
    + 16777216 * (n div 16777216 mod 256) = n"
proof -
  have d2: "n div 65536 = n div 256 div 256" and d3: "n div 16777216 = n div 65536 div 256"
    by (simp_all flip: div_mult2_eq)
  have "n div 16777216 mod 256 = n div 16777216"
    using assms by (simp add: less_mult_imp_div_less)
  moreover have "n div 65536 = n div 65536 mod 256 + 256 * (n div 16777216)"
    unfolding d3 by simp
  moreover have "n div 256 = n div 256 mod 256 + 256 * (n div 65536)"
    unfolding d2 by simp
  moreover have "n = n mod 256 + 256 * (n div 256)" by simp
  ultimately show ?thesis by linarith
qed

lemma le16_inverse [byte_simps]: "le16 (byte0 w) (byte1 w) = w"
  by (simp add: word_unat_eq_iff nat_bytes2)

lemma le32_inverse [byte_simps]: "le32 (byte0 w) (byte1 w) (byte2 w) (byte3 w) = w"
  by (simp add: word_unat_eq_iff nat_bytes4)

lemma byte_le16 [byte_simps]:
  "byte0 (le16 a b) = a"
  "byte1 (le16 a b) = b"
  by (simp_all add: word_unat_eq_iff)

lemma div_byte: "a < 256 \<Longrightarrow> (a + 256 * k) div 256 = (k :: nat)"
  by simp

lemma mod_byte: "a < 256 \<Longrightarrow> (a + 256 * k) mod 256 = (a :: nat)"
  by simp

lemma byte_le32 [byte_simps]:
  "byte0 (le32 a b c d) = a"
  "byte1 (le32 a b c d) = b"
  "byte2 (le32 a b c d) = c"
  "byte3 (le32 a b c d) = d"
proof -
  let ?n = "unat a + 256 * unat b + 65536 * unat c + 16777216 * unat d"
  have e1: "?n = unat a + 256 * (unat b + 256 * (unat c + 256 * unat d))" by simp
  have d1: "?n div 256 = unat b + 256 * (unat c + 256 * unat d)"
    unfolding e1 by (rule div_byte) simp
  have d2: "?n div 65536 = unat c + 256 * unat d"
    using d1 div_mult2_eq [of ?n 256 256] div_byte [of "unat b" "unat c + 256 * unat d"]
    by (simp add: algebra_simps)
  have d3: "?n div 16777216 = unat d"
    using d2 div_mult2_eq [of ?n 65536 256] div_byte [of "unat c" "unat d"]
    by (simp add: algebra_simps)
  have m: "?n mod 256 = unat a" unfolding e1 by (rule mod_byte) simp
  show "byte0 (le32 a b c d) = a" using m by (simp add: word_unat_eq_iff)
  show "byte1 (le32 a b c d) = b"
    using d1 mod_byte [of "unat b" "unat c + 256 * unat d"] by (simp add: word_unat_eq_iff)
  show "byte2 (le32 a b c d) = c"
    using d2 mod_byte [of "unat c" "unat d"] by (simp add: word_unat_eq_iff)
  show "byte3 (le32 a b c d) = d" using d3 by (simp add: word_unat_eq_iff)
qed

lemma bswap_involution [simp]:
  "bswap16 (bswap16 v) = v"
  "bswap32 (bswap32 w) = w"
  by (simp_all add: bswap16_def bswap32_def byte_simps)

lemma bswap32_eq_iff [simp]: "bswap32 a = bswap32 b \<longleftrightarrow> a = b"
  by (metis bswap_involution(2))

lemma bswap16_eq_iff [simp]: "bswap16 a = bswap16 b \<longleftrightarrow> a = b"
  by (metis bswap_involution(1))

lemma bswap16_0: "bswap16 0 = 0"
  by (simp add: bswap16_def le16_def byte0_def byte1_def)

lemma get_put_same [simp]:
  "get16 (put16 m i v) i = v"
  "get32 (put32 m i w) i = w"
  by (simp_all add: get16_def put16_def get32_def put32_def byte_simps)

lemma put16_apply: "put16 m i v j = (if j = i then byte0 v else if j = i + 1 then byte1 v else m j)"
  by (simp add: put16_def)

lemma put32_apply:
  "put32 m i v j = (if j = i then byte0 v else if j = i + 1 then byte1 v
     else if j = i + 2 then byte2 v else if j = i + 3 then byte3 v else m j)"
  by (simp add: put32_def)

text \<open>Fields that do not overlap do not see each other's stores.\<close>

lemma get_put_other [byte_simps]:
  "i + 1 < j \<or> j + 1 < i \<Longrightarrow> get16 (put16 m j v) i = get16 m i"
  "i + 1 < j \<or> j + 3 < i \<Longrightarrow> get16 (put32 m j w) i = get16 m i"
  "i + 3 < j \<or> j + 1 < i \<Longrightarrow> get32 (put16 m j v) i = get32 m i"
  "i + 3 < j \<or> j + 3 < i \<Longrightarrow> get32 (put32 m j w) i = get32 m i"
  "j < i \<or> i + 1 < j \<Longrightarrow> get16 (m(j := x)) i = get16 m i"
  "j < i \<or> i + 3 < j \<Longrightarrow> get32 (m(j := x)) i = get32 m i"
  by (auto simp: get16_def get32_def put16_def put32_def)

lemma put_apply_other [byte_simps]:
  "i < j \<or> j + 1 < i \<Longrightarrow> put16 m j v i = m i"
  "i < j \<or> j + 3 < i \<Longrightarrow> put32 m j w i = m i"
  by (auto simp: put16_def put32_def)

lemma get_put_bytes_below [byte_simps]:
  "i + 2 \<le> j \<Longrightarrow> get16 (put_bytes m j xs) i = get16 m i"
  "i + 4 \<le> j \<Longrightarrow> get32 (put_bytes m j xs) i = get32 m i"
  "i < j \<Longrightarrow> put_bytes m j xs i = m i"
  by (simp_all add: put_bytes_def get16_def get32_def)

lemma length_get_bytes [simp]: "length (get_bytes m i n) = n"
  by (simp add: get_bytes_def)

lemma nth_get_bytes [simp]: "k < n \<Longrightarrow> get_bytes m i n ! k = m (i + k)"
  by (simp add: get_bytes_def)

lemma get_put_bytes_same [simp]: "get_bytes (put_bytes m i xs) i (length xs) = xs"
  by (rule nth_equalityI) (simp_all add: put_bytes_def)

lemma get_put_bytes_other [byte_simps]:
  "i + n \<le> j \<or> j + length xs \<le> i \<Longrightarrow> get_bytes (put_bytes m j xs) i n = get_bytes m i n"
  by (rule nth_equalityI) (auto simp: put_bytes_def)

lemma get_bytes_cong:
  "(\<And>k. k < n \<Longrightarrow> m (i + k) = m' (j + k)) \<Longrightarrow> get_bytes m i n = get_bytes m' j n"
  by (rule nth_equalityI) simp_all

lemma get_bytes_split: "get_bytes m i (a + b) = get_bytes m i a @ get_bytes m (i + a) b"
  by (rule nth_equalityI) (auto simp: nth_append)

lemma get_bytes_0 [simp]: "get_bytes m i 0 = []"
  by (simp add: get_bytes_def)

section \<open>Lemmas on outcomes\<close>

lemma bindo_simps [simp]:
  "bindo (Inl e) f = Inl e"
  "bindo (Inr x) f = f x"
  by (simp_all add: bindo_def)

lemma bindo_Inr_iff: "bindo r f = Inr y \<longleftrightarrow> (\<exists>x. r = Inr x \<and> f x = Inr y)"
  by (cases r) auto

lemma bindo_InrE [elim!]:
  assumes "bindo r f = Inr y"
  obtains x where "r = Inr x" and "f x = Inr y"
  using assms by (cases r) auto

lemma bindo_assoc: "bindo (bindo r f) g = bindo r (\<lambda>x. bindo (f x) g)"
  by (cases r) auto

text \<open>A sequence of operations, one after the other, up to the first fault.\<close>

primrec runo :: "('o \<Rightarrow> 's \<Rightarrow> 's outcome) \<Rightarrow> 'o list \<Rightarrow> 's \<Rightarrow> 's outcome" where
  "runo step [] s = Inr s"
| "runo step (x # xs) s = bindo (step x s) (runo step xs)"

end
