(* ===== verification/Checksum.thy ===== *)
theory Checksum
  imports Net_Prelude
begin

text \<open>
  The checksum routines of \<^verbatim>\<open>src/utilities.c\<close>: \<open>sum_every_16bits\<close>, \<open>do_csum\<close> and \<open>do_tcp_csum\<close>,
  with the C loops as recursive functions on 32-bit words. The reference is the Internet
  checksum of RFC 1071, written over natural numbers: \<open>be_sum\<close> adds the 16-bit big-endian words
  of a block, \<open>oc_reduce\<close> reduces a number to one's complement 16 bits, \<open>rfc1071\<close> complements it.

  The locale \<open>verifying_sum\<close> is the contract the protocol layers use: a checksum field that is
  filled with the complement of the sum over the block makes the sum over the block verify, and
  a block verifies exactly when its word sum is a non-zero multiple of 65535.
\<close>

section \<open>The routines\<close>

text \<open>The loop of \<open>sum_every_16bits\<close>: \<open>ptr\<close>, \<open>count\<close> and \<open>acc\<close> (the C \<^verbatim>\<open>sum\<close>) are its variables.\<close>

function sum_loop :: "mem \<Rightarrow> nat \<Rightarrow> int \<Rightarrow> u32 \<Rightarrow> u32" where
  "sum_loop m ptr count acc =
     (if count > 1 then sum_loop m (ptr + 2) (count - 2) (acc + ucast (get16 m ptr))
      else if count > 0 then acc + ucast (m ptr)
      else acc)"
  by pat_completeness auto
termination
  by (relation "measure (\<lambda>(m, ptr, count, acc). nat count)") auto

declare sum_loop.simps [simp del]

definition sum_every_16bits :: "mem \<Rightarrow> nat \<Rightarrow> int \<Rightarrow> u32" where
  "sum_every_16bits m addr count = sum_loop m addr count 0"

text \<open>\<^verbatim>\<open>while (sum>>16) sum = (sum & 0xffff) + (sum >> 16);\<close>\<close>

function csum_fold :: "u32 \<Rightarrow> u32" where
  "csum_fold acc =
     (if drop_bit 16 acc \<noteq> 0 then csum_fold ((acc AND 0xffff) + drop_bit 16 acc) else acc)"
  by pat_completeness auto

lemma unat_drop_bit_16: "unat (drop_bit 16 (s :: u32)) = unat s div 65536"
  by (simp add: drop_bit_eq_div unat_div_distrib)

lemma unat_and_ffff: "unat (s AND (0xffff :: u32)) = unat s mod 65536"
proof -
  have "s AND 0xffff = take_bit 16 s"
    by (simp add: take_bit_eq_mask mask_eq_exp_minus_1)
  then show ?thesis by (simp add: take_bit_eq_mod unat_mod_distrib)
qed

lemma unat_fold_step:
  "unat ((s AND 0xffff) + drop_bit 16 (s :: u32)) = unat s mod 65536 + unat s div 65536"
proof -
  have "unat s div 65536 < 65536"
    using unat_u32_less [of s] by (simp add: less_mult_imp_div_less)
  then have "unat s mod 65536 + unat s div 65536 < 4294967296"
    using mod_less_divisor [of 65536 "unat s"] by linarith
  then show ?thesis
    by (simp add: unat_word_ariths unat_and_ffff unat_drop_bit_16)
qed

termination csum_fold
proof (relation "measure unat")
  show "wf (measure unat)" by simp
next
  fix s :: u32
  assume "drop_bit 16 s \<noteq> 0"
  then have "unat s div 65536 \<noteq> 0"
    by (metis unat_drop_bit_16 unat_eq_zero)
  moreover have "unat s = unat s mod 65536 + 65536 * (unat s div 65536)" by simp
  ultimately have "unat s mod 65536 + unat s div 65536 < unat s" by linarith
  then show "((s AND 65535) + drop_bit 16 s, s) \<in> measure unat"
    by (simp add: unat_fold_step)
qed

declare csum_fold.simps [simp del]

definition do_csum :: "mem \<Rightarrow> nat \<Rightarrow> int \<Rightarrow> u32 \<Rightarrow> u16" where
  "do_csum m addr count start_sum =
     (let acc = start_sum + sum_every_16bits m addr count
      in ucast (NOT (csum_fold acc)))"

definition do_tcp_csum :: "mem \<Rightarrow> nat \<Rightarrow> int \<Rightarrow> u16 \<Rightarrow> u32 \<Rightarrow> u32 \<Rightarrow> u16" where
  "do_tcp_csum m data len protocol saddr daddr =
     (let acc = 0 + saddr;
          acc = acc + daddr;
          acc = acc + ucast (htons protocol);
          acc = acc + ucast (htons (word_of_int len))
      in do_csum m data len acc)"

section \<open>The reference\<close>

definition be_sum :: "mem \<Rightarrow> nat \<Rightarrow> nat \<Rightarrow> nat" where
  "be_sum m p n = (\<Sum>i<n. if even i then 256 * unat (m (p + i)) else unat (m (p + i)))"

definition le_sum :: "mem \<Rightarrow> nat \<Rightarrow> nat \<Rightarrow> nat" where
  "le_sum m p n = (\<Sum>i<n. if even i then unat (m (p + i)) else 256 * unat (m (p + i)))"

definition oc_reduce :: "nat \<Rightarrow> nat" where
  "oc_reduce n = (if n = 0 then 0 else if n mod 65535 = 0 then 65535 else n mod 65535)"

definition rfc1071 :: "mem \<Rightarrow> nat \<Rightarrow> nat \<Rightarrow> u16" where
  "rfc1071 m p n = word_of_nat (65535 - oc_reduce (be_sum m p n))"

section \<open>The loops compute the reference\<close>

lemma unat_ucast_u16 [simp]: "unat (ucast (w :: u16) :: u32) = unat w"
  by (simp add: unsigned_ucast_eq take_bit_nat_eq_self_iff less_trans [OF unat_u16_less])

lemma unat_ucast_u8 [simp]: "unat (ucast (w :: u8) :: u32) = unat w"
  by (simp add: unsigned_ucast_eq take_bit_nat_eq_self_iff less_trans [OF unat_u8_less])

lemma le_sum_0 [simp]: "le_sum m p 0 = 0"
  by (simp add: le_sum_def)

lemma le_sum_1 [simp]: "le_sum m p (Suc 0) = unat (m p)"
  by (simp add: le_sum_def)

lemma le_sum_step: "le_sum m p (Suc (Suc n)) = unat (get16 m p) + le_sum m (p + 2) n"
proof -
  have e: "p + 2 + i = Suc (Suc (p + i))" for i by simp
  show ?thesis
    unfolding le_sum_def get16_def by (simp add: e sum.lessThan_Suc_shift cong: if_cong del: sum.lessThan_Suc)
qed

lemma word_of_nat_unat_u16: "(word_of_nat (unat (w :: u16)) :: u32) = ucast w"
  by (simp add: word_unat_eq_iff unat_of_nat)

lemma word_of_nat_unat_u8: "(word_of_nat (unat (w :: u8)) :: u32) = ucast w"
  by (simp add: word_unat_eq_iff unat_of_nat)

lemma sum_loop_le_sum:
  "0 \<le> count \<Longrightarrow> sum_loop m p count acc = acc + word_of_nat (le_sum m p (nat count))"
proof (induction m p count acc rule: sum_loop.induct)
  case (1 m p count acc)
  consider "count > 1" | "count = 1" | "count = 0" using "1.prems" by linarith
  then show ?case
  proof cases
    case 1
    then have n: "nat count = Suc (Suc (nat (count - 2)))" by simp
    from 1 have "sum_loop m (p + 2) (count - 2) (acc + ucast (get16 m p))
        = acc + ucast (get16 m p) + word_of_nat (le_sum m (p + 2) (nat (count - 2)))"
      by (intro "1.IH") auto
    with 1 show ?thesis
      by (simp add: sum_loop.simps [of m p count acc] n le_sum_step word_of_nat_unat_u16)
  next
    case 2
    then show ?thesis by (simp add: sum_loop.simps [of m p 1 acc] word_of_nat_unat_u8)
  next
    case 3
    then show ?thesis by (simp add: sum_loop.simps [of m p 0 acc])
  qed
qed

lemma oc_reduce_le: "oc_reduce n \<le> 65535"
  by (auto simp: oc_reduce_def intro: less_imp_le)

lemma oc_reduce_small: "n < 65536 \<Longrightarrow> oc_reduce n = n"
  by (cases "n = 65535") (auto simp: oc_reduce_def)

lemma oc_reduce_cong: "a mod 65535 = b mod 65535 \<Longrightarrow> (a = 0 \<longleftrightarrow> b = 0) \<Longrightarrow> oc_reduce a = oc_reduce b"
  by (simp add: oc_reduce_def)

lemma oc_reduce_mod: "oc_reduce n mod 65535 = n mod 65535"
  by (simp add: oc_reduce_def)

lemma fold_step_mod: "(s mod 65536 + s div 65536) mod 65535 = s mod (65535 :: nat)"
proof -
  have "s = (s mod 65536 + s div 65536) + 65535 * (s div 65536)"
    using mod_mult_div_eq [of s 65536] by linarith
  then show ?thesis by (metis mod_mult_self2)
qed

text \<open>The folding loop is one's complement reduction to 16 bits.\<close>

lemma unat_csum_fold: "unat (csum_fold s) = oc_reduce (unat s)"
proof (induction s rule: csum_fold.induct)
  case (1 s)
  show ?case
  proof (cases "drop_bit 16 s = 0")
    case True
    then have "unat s div 65536 = 0" by (metis unat_drop_bit_16 unat_0)
    then have "unat s < 65536" by (simp add: div_eq_0_iff)
    with True show ?thesis by (simp add: csum_fold.simps [of s] oc_reduce_small)
  next
    case False
    then have nz: "unat s div 65536 \<noteq> 0" by (metis unat_drop_bit_16 unat_eq_zero)
    have "unat (csum_fold s) = oc_reduce (unat s mod 65536 + unat s div 65536)"
      using "1.IH" [OF False] False by (simp add: csum_fold.simps [of s] unat_fold_step)
    also have "\<dots> = oc_reduce (unat s)"
    proof (rule oc_reduce_cong)
      show "(unat s mod 65536 + unat s div 65536) mod 65535 = unat s mod 65535"
        by (rule fold_step_mod)
      show "unat s mod 65536 + unat s div 65536 = 0 \<longleftrightarrow> unat s = 0" using nz by auto
    qed
    finally show ?thesis .
  qed
qed

lemma unat_not_low:
  assumes "unat (x :: u32) < 65536"
  shows "unat (ucast (NOT x) :: u16) = 65535 - unat x"
proof -
  have "(ucast (NOT x) :: u16) = NOT (ucast x)"
    by (rule bit_word_eqI) (simp add: bit_simps)
  also have "\<dots> = - 1 - ucast x" by (simp add: not_eq_complement)
  also have "unat \<dots> = 65535 - unat (ucast x :: u16)"
    by (subst unat_sub) (simp_all add: unsigned_minus_1_eq_mask mask_eq_exp_minus_1)
  also have "unat (ucast x :: u16) = unat x"
    using assms by (simp add: unsigned_ucast_eq take_bit_nat_eq_self_iff)
  finally show ?thesis .
qed

lemma unat_do_csum:
  assumes "0 \<le> count" and "unat start + le_sum m p (nat count) < 4294967296"
  shows "unat (do_csum m p count start) = 65535 - oc_reduce (unat start + le_sum m p (nat count))"
proof -
  have "unat (start + sum_every_16bits m p count) = unat start + le_sum m p (nat count)"
    using assms by (simp add: sum_every_16bits_def sum_loop_le_sum unat_word_ariths unat_of_nat)
  moreover have "oc_reduce (unat start + le_sum m p (nat count)) < 65536"
    using oc_reduce_le [of "unat start + le_sum m p (nat count)"] by linarith
  ultimately show ?thesis
    by (simp add: do_csum_def Let_def unat_not_low unat_csum_fold)
qed

section \<open>Word sums and field updates\<close>

lemma le_sum_cong: "(\<And>i. i < n \<Longrightarrow> m (p + i) = m' (q + i)) \<Longrightarrow> le_sum m p n = le_sum m' q n"
  unfolding le_sum_def by (rule sum.cong) auto

lemma le_sum_split: "even a \<Longrightarrow> le_sum m p (a + b) = le_sum m p a + le_sum m (p + a) b"
  unfolding le_sum_def by (induction b) (simp_all add: add.assoc)

lemma le_sum_bound: "le_sum m p n \<le> 65280 * n"
proof -
  have "unat (m (p + i)) \<le> 255" for i
    using unat_u8_less [of "m (p + i)"] by linarith
  then have "(if even i then unat (m (p + i)) else 256 * unat (m (p + i))) \<le> 65280" for i
    by (cases "even i") (auto intro: le_trans [of _ 255])
  then have "le_sum m p n \<le> (\<Sum>i<n. 65280)"
    unfolding le_sum_def by (intro sum_mono) auto
  then show ?thesis by simp
qed

lemma le_sum_put16:
  assumes "even k" and "k + 2 \<le> n"
  shows "le_sum (put16 m (p + k) v) p n + unat (get16 m (p + k)) = le_sum m p n + unat v"
proof -
  obtain r where n: "n = k + Suc (Suc r)"
    using assms(2) by (metis add.commute add_2_eq_Suc' le_Suc_ex add.assoc)
  have pre: "le_sum (put16 m (p + k) v) p k = le_sum m p k"
    by (rule le_sum_cong) (simp add: put16_apply)
  have post: "le_sum (put16 m (p + k) v) (p + k + 2) r = le_sum m (p + k + 2) r"
    by (rule le_sum_cong) (simp add: put16_apply)
  show ?thesis
    unfolding n le_sum_split [OF assms(1)] le_sum_step pre post by simp
qed

lemma be_le_sum_mod: "be_sum m p n mod 65535 = 256 * le_sum m p n mod 65535"
proof (induction n)
  case 0
  then show ?case by (simp add: be_sum_def le_sum_def)
next
  case (Suc n)
  let ?b = "unat (m (p + n))"
  have ic: "(?b + 0) mod 65535 = (256 * (256 * ?b)) mod 65535"
    using mod_mult_self2 [of ?b 65535 ?b] by simp
  have "be_sum m p (Suc n) mod 65535 =
      (be_sum m p n mod 65535 + (if even n then 256 * ?b else ?b) mod 65535) mod 65535"
    by (simp add: be_sum_def mod_add_eq)
  also have "\<dots> = (256 * le_sum m p n mod 65535
      + (256 * (if even n then ?b else 256 * ?b)) mod 65535) mod 65535"
    using ic Suc.IH by simp
  also have "\<dots> = 256 * le_sum m p (Suc n) mod 65535"
    unfolding mod_add_eq by (simp add: le_sum_def distrib_left)
  finally show ?case .
qed

lemma be_le_sum_0: "be_sum m p n = 0 \<longleftrightarrow> le_sum m p n = 0"
  by (auto simp: be_sum_def le_sum_def split: if_splits)

lemma unat_bswap16: "unat (bswap16 x) = unat x div 256 + 256 * (unat x mod 256)"
  by (simp add: bswap16_def less_mult_imp_div_less)

lemma multiple_between:
  assumes "(a :: nat) mod 65535 = 0" and "0 < a" and "a < 131070"
  shows "a = 65535"
proof -
  obtain k where k: "a = 65535 * k" using assms(1) by (auto simp: mod_eq_0_iff_dvd)
  then have "k = 1" using assms(2,3) by (cases k) auto
  then show ?thesis using k by simp
qed

lemma bswap16_65535: "bswap16 65535 = 65535"
  by (simp add: word_unat_eq_iff unat_bswap16)

lemma unat_bswap16_reduce:
  assumes "unat x = 65535 - oc_reduce n" and "256 * n mod 65535 = k mod 65535"
    and "n = 0 \<longleftrightarrow> k = 0"
  shows "unat (bswap16 x) = 65535 - oc_reduce k"
proof -
  let ?r = "oc_reduce n" and ?y = "unat (bswap16 x)"
  have y: "?y = unat x div 256 + 256 * (unat x mod 256)" by (rule unat_bswap16)
  have x: "unat x = 256 * (unat x div 256) + unat x mod 256" by simp
  have le: "?y \<le> 65535" using unat_u16_less [of "bswap16 x"] by linarith
  have "(?y + 256 * ?r) mod 65535 = 0"
  proof -
    have "256 * unat x = ?y + 65535 * (unat x div 256)" using x y by linarith
    then have "?y + 256 * ?r + 65535 * (unat x div 256) = 256 * (unat x + ?r)" by simp
    also have "unat x + ?r = 65535" using assms(1) oc_reduce_le [of n] by simp
    finally show ?thesis by (metis mod_mult_self2 mod_mult_self2_is_0)
  qed
  then have c: "(?y + k) mod 65535 = 0"
    using assms(2) oc_reduce_mod [of n] by (metis mod_add_right_eq mod_mult_right_eq)
  have z: "?y = 65535" if "n = 0"
    using that assms(1) y by (simp add: oc_reduce_def)
  have nz: "?y \<noteq> 65535" if "n \<noteq> 0"
  proof
    assume "?y = 65535"
    then have "bswap16 x = 65535" by (simp add: word_unat_eq_iff)
    then have "x = 65535" by (metis bswap_involution(1) bswap16_65535)
    then show False using assms(1) that by (simp add: oc_reduce_def split: if_splits)
  qed
  show ?thesis
  proof (cases "k = 0")
    case True
    then show ?thesis using z assms(3) by (simp add: oc_reduce_def)
  next
    case False
    then have "?y < 65535" using nz assms(3) le by linarith
    moreover have "(?y + oc_reduce k) mod 65535 = 0"
      using c oc_reduce_mod [of k] by (metis mod_add_right_eq)
    moreover have "0 < oc_reduce k" "oc_reduce k \<le> 65535" using False by (auto simp: oc_reduce_def)
    ultimately have "?y + oc_reduce k = 65535" by (intro multiple_between) linarith+
    then show ?thesis by simp
  qed
qed

section \<open>The contract of a checksum that is stored in the block it covers\<close>

locale verifying_sum =
  fixes csum :: "mem \<Rightarrow> nat \<Rightarrow> int \<Rightarrow> u32 \<Rightarrow> u16"
    and wsum :: "mem \<Rightarrow> nat \<Rightarrow> nat \<Rightarrow> nat"
  assumes csum_complements:
      "unat start + wsum m p n < 4294967296 \<Longrightarrow>
        unat (csum m p (int n) start) = 65535 - oc_reduce (unat start + wsum m p n)"
    and wsum_field:
      "even k \<Longrightarrow> k + 2 \<le> n \<Longrightarrow>
        wsum (put16 m (p + k) v) p n + unat (get16 m (p + k)) = wsum m p n + unat v"
begin

lemma verifies_iff:
  assumes "unat start + wsum m p n < 4294967296"
  shows "csum m p (int n) start = 0 \<longleftrightarrow>
    0 < unat start + wsum m p n \<and> (unat start + wsum m p n) mod 65535 = 0"
proof -
  have "csum m p (int n) start = 0 \<longleftrightarrow> oc_reduce (unat start + wsum m p n) = 65535"
    using csum_complements [OF assms] oc_reduce_le [of "unat start + wsum m p n"]
    by (auto simp: word_unat_eq_iff)
  then show ?thesis by (auto simp: oc_reduce_def)
qed

lemma filled_verifies:
  assumes "even k" and "k + 2 \<le> n" and "get16 m (p + k) = 0"
    and "unat start + wsum m p n + 65535 < 4294967296"
  shows "csum (put16 m (p + k) (csum m p (int n) start)) p (int n) start = 0"
proof -
  let ?S = "unat start + wsum m p n" and ?c = "csum m p (int n) start"
  have c: "unat ?c = 65535 - oc_reduce ?S" using assms(4) by (intro csum_complements) simp
  have w: "wsum (put16 m (p + k) ?c) p n = wsum m p n + unat ?c"
    using wsum_field [OF assms(1,2), of m p ?c] assms(3) by simp
  have "(?S + (65535 - oc_reduce ?S)) mod 65535 = 0"
  proof -
    have "(?S + (65535 - oc_reduce ?S)) mod 65535
        = (oc_reduce ?S + (65535 - oc_reduce ?S)) mod 65535"
      by (rule mod_add_cong) (simp_all add: oc_reduce_mod)
    also have "\<dots> = 0" using oc_reduce_le [of ?S] by simp
    finally show ?thesis .
  qed
  moreover have "0 < ?S + (65535 - oc_reduce ?S)" by (auto simp: oc_reduce_def)
  ultimately show ?thesis
    using assms(4) c w by (subst verifies_iff) (auto simp: add.assoc)
qed

text \<open>A block that verifies no longer does once a 16-bit word of it has changed, unless the word
  changed between the two representations of zero.\<close>

lemma corruption_detected:
  assumes "even k" and "k + 2 \<le> n" and "csum m p (int n) start = 0"
    and "unat start + wsum m p n + 65535 < 4294967296"
    and "unat v mod 65535 \<noteq> unat (get16 m (p + k)) mod 65535"
  shows "csum (put16 m (p + k) v) p (int n) start \<noteq> 0"
proof
  let ?S = "unat start + wsum m p n" and ?T = "unat start + wsum (put16 m (p + k) v) p n"
  have w: "?T + unat (get16 m (p + k)) = ?S + unat v"
    using wsum_field [OF assms(1,2), of m p v] by linarith
  then have "?T < 4294967296" using assms(4) unat_u16_less [of v] by linarith
  moreover assume "csum (put16 m (p + k) v) p (int n) start = 0"
  ultimately have t: "?T mod 65535 = 0" by (simp add: verifies_iff)
  have "?S < 4294967296" using assms(4) by simp
  then have s: "?S mod 65535 = 0" using assms(3) by (simp add: verifies_iff)
  have "unat v mod 65535 = (?S + unat v) mod 65535" using s by (metis add_0 mod_add_left_eq)
  also have "\<dots> = unat (get16 m (p + k)) mod 65535"
    using t unfolding w [symmetric] by (metis add_0 mod_add_left_eq)
  finally show False using assms(5) by simp
qed

end

interpretation ip_sum: verifying_sum do_csum le_sum
  by unfold_locales (simp_all add: unat_do_csum le_sum_put16)

section \<open>Properties\<close>

lemma le_sum_fits: "n \<le> 65535 \<Longrightarrow> le_sum m p n + 65535 < 4294967296"
  using le_sum_bound [of m p n] by linarith

lemma csum_is_rfc1071:
  assumes "n \<le> 65535"
  shows "ntohs (do_csum m p (int n) 0) = rfc1071 m p n"
proof -
  have "unat (do_csum m p (int n) 0) = 65535 - oc_reduce (le_sum m p n)"
    using le_sum_fits [OF assms, of m p] unat_do_csum [of "int n" 0 m p] by simp
  then have "unat (bswap16 (do_csum m p (int n) 0)) = 65535 - oc_reduce (be_sum m p n)"
    using be_le_sum_mod [of m p n] be_le_sum_0 [of m p n] by (intro unat_bswap16_reduce) auto
  also have "\<dots> = unat (rfc1071 m p n)"
    by (simp add: rfc1071_def unat_of_nat)
  finally show ?thesis by (simp add: word_unat_eq_iff)
qed

text \<open>C19. On every block of at most 65535 bytes \<open>do_csum\<close> computes the Internet checksum of RFC 1071: the
  two bytes it puts into memory, read in network order, are the complement of the one's complement
  sum of the block's big-endian 16-bit words.\<close>

theorem do_csum_rfc1071:
  assumes "n \<le> 65535"
  shows "ntohs (do_csum m p (int n) 0) = rfc1071 m p n"
  by (rule csum_is_rfc1071 [OF assms])

theorem do_csum_rfc1071_witness:
  "ntohs (do_csum (\<lambda>i. if i = 0 then 0x45 else if i = 3 then 0x54 else 0) 0 4 0) = 0xBAAB"
proof -
  have "be_sum (\<lambda>i. if i = 0 then 0x45 else if i = 3 then 0x54 else 0) 0 4 = 0x4554"
    by (simp add: be_sum_def lessThan_nat_numeral lessThan_Suc)
  then show ?thesis
    using do_csum_rfc1071 [of 4 "\<lambda>i. if i = 0 then 0x45 else if i = 3 then 0x54 else 0" 0]
    by (simp add: rfc1071_def oc_reduce_def)
qed


definition sample_block :: mem where
  "sample_block i = (if i = 0 then 0x12 else if i = 1 then 0x34 else 0)"


end
