(* ===== verification/Linklist.thy ===== *)
theory Linklist
  imports Net_Prelude
begin

text \<open>
  The intrusive doubly linked ring of \<^verbatim>\<open>src/linklist.h\<close>, on which every table of the stack is kept
  (ARP cache, routes, timers, unacknowledged TCP messages, sockets, buffer queues).

  A \<open>list_mem\<close> holds the two pointer fields of every \<open>struct list_head\<close>; a node is its address.
  \<open>ring h head xs\<close> says that \<open>head\<close> anchors a well-formed ring whose nodes are \<open>xs\<close> in order: the
  invariant and, at once, the abstraction to HOL lists that the other theories use. The iteration
  macros are modelled as the loops they expand to; a loop over a broken ring need not end, so they
  return \<open>None\<close> when they do not.
\<close>

section \<open>Nodes and operations\<close>

type_synonym node = nat

record list_mem =
  nxt :: "node \<Rightarrow> node"
  prv :: "node \<Rightarrow> node"

definition list_init :: "node \<Rightarrow> list_mem \<Rightarrow> list_mem" where
  "list_init head h =
     (let h = h\<lparr>nxt := (nxt h)(head := head)\<rparr> in h\<lparr>prv := (prv h)(head := nxt h head)\<rparr>)"

definition list_add :: "node \<Rightarrow> node \<Rightarrow> list_mem \<Rightarrow> list_mem" where
  "list_add new head h =
     (let h = h\<lparr>prv := (prv h)(nxt h head := new)\<rparr>;
          h = h\<lparr>nxt := (nxt h)(new := nxt h head)\<rparr>;
          h = h\<lparr>prv := (prv h)(new := head)\<rparr>
      in h\<lparr>nxt := (nxt h)(head := new)\<rparr>)"

definition list_add_tail :: "node \<Rightarrow> node \<Rightarrow> list_mem \<Rightarrow> list_mem" where
  "list_add_tail new head h =
     (let h = h\<lparr>nxt := (nxt h)(prv h head := new)\<rparr>;
          h = h\<lparr>prv := (prv h)(new := prv h head)\<rparr>;
          h = h\<lparr>nxt := (nxt h)(new := head)\<rparr>
      in h\<lparr>prv := (prv h)(head := new)\<rparr>)"

definition list_del :: "node \<Rightarrow> list_mem \<Rightarrow> list_mem" where
  "list_del elem h =
     (let p = prv h elem; n = nxt h elem;
          h = h\<lparr>nxt := (nxt h)(p := n)\<rparr>
      in h\<lparr>prv := (prv h)(n := p)\<rparr>)"

definition list_empty :: "node \<Rightarrow> list_mem \<Rightarrow> bool" where
  "list_empty head h \<longleftrightarrow> nxt h head = head"

definition list_first_entry :: "node \<Rightarrow> list_mem \<Rightarrow> node" where
  "list_first_entry head h = nxt h head"

text \<open>\<^verbatim>\<open>list_for_each(pos, head)\<close> with a body that only reads: the nodes it visits, in order.\<close>

partial_function (option) list_for_each_from :: "list_mem \<Rightarrow> node \<Rightarrow> node \<Rightarrow> node list option" where
  "list_for_each_from h head pos =
     (if pos = head then Some []
      else Option.bind (list_for_each_from h head (nxt h pos)) (\<lambda>r. Some (pos # r)))"

definition list_for_each :: "list_mem \<Rightarrow> node \<Rightarrow> node list option" where
  "list_for_each h head = list_for_each_from h head (nxt h head)"

text \<open>
  \<^verbatim>\<open>list_for_each\<close> with a body that unlinks the current node when \<open>P\<close> holds of it. The macro reads
  \<^verbatim>\<open>pos->next\<close> after the body, from the node that was just unlinked.
\<close>

partial_function (option) each_del_from :: "(node \<Rightarrow> bool) \<Rightarrow> node \<Rightarrow> node \<Rightarrow> list_mem \<Rightarrow> list_mem option" where
  "each_del_from P head pos h =
     (if pos = head then Some h
      else (let h = (if P pos then list_del pos h else h)
            in each_del_from P head (nxt h pos) h))"

definition list_for_each_del :: "(node \<Rightarrow> bool) \<Rightarrow> node \<Rightarrow> list_mem \<Rightarrow> list_mem option" where
  "list_for_each_del P head h = each_del_from P head (nxt h head) h"

text \<open>\<^verbatim>\<open>list_for_each_safe(pos, p, head)\<close> with the same body: the next node is read before it.\<close>

partial_function (option) each_safe_from ::
  "(node \<Rightarrow> bool) \<Rightarrow> node \<Rightarrow> node \<Rightarrow> node \<Rightarrow> list_mem \<Rightarrow> list_mem option" where
  "each_safe_from P head pos p h =
     (if pos = head then Some h
      else (let h = (if P pos then list_del pos h else h)
            in each_safe_from P head p (nxt h p) h))"

definition list_for_each_safe_del :: "(node \<Rightarrow> bool) \<Rightarrow> node \<Rightarrow> list_mem \<Rightarrow> list_mem option" where
  "list_for_each_safe_del P head h = each_safe_from P head (nxt h head) (nxt h (nxt h head)) h"

section \<open>Rings\<close>

text \<open>\<open>chain h a xs b\<close>: following \<^verbatim>\<open>next\<close> from \<open>a\<close> visits \<open>xs\<close> and arrives at \<open>b\<close>, and \<^verbatim>\<open>prev\<close> leads back.\<close>

primrec chain :: "list_mem \<Rightarrow> node \<Rightarrow> node list \<Rightarrow> node \<Rightarrow> bool" where
  "chain h a [] b \<longleftrightarrow> nxt h a = b \<and> prv h b = a"
| "chain h a (x # xs) b \<longleftrightarrow> nxt h a = x \<and> prv h x = a \<and> chain h x xs b"

definition ring :: "list_mem \<Rightarrow> node \<Rightarrow> node list \<Rightarrow> bool" where
  "ring h head xs \<longleftrightarrow> distinct (head # xs) \<and> chain h head xs head"

lemma chain_append [simp]: "chain h a (xs @ y # ys) b \<longleftrightarrow> chain h a xs y \<and> chain h y ys b"
  by (induction xs arbitrary: a) auto

lemma chain_cong:
  "(\<And>u. u \<in> set (a # xs) \<Longrightarrow> nxt h u = nxt h' u) \<Longrightarrow>
   (\<And>u. u \<in> set (xs @ [b]) \<Longrightarrow> prv h u = prv h' u) \<Longrightarrow>
   chain h a xs b = chain h' a xs b"
  by (induction xs arbitrary: a) simp_all

lemma chain_first: "chain h a xs b \<Longrightarrow> nxt h a = hd (xs @ [b])"
  by (cases xs) auto

lemma chain_last: "chain h a xs b \<Longrightarrow> prv h b = last (a # xs)"
  by (induction xs arbitrary: a) auto

lemma ring_distinct: "ring h head xs \<Longrightarrow> distinct (head # xs)"
  by (simp add: ring_def)

lemma ring_init: "ring (list_init head h) head []"
  by (simp add: ring_def list_init_def Let_def)

lemma ring_add:
  assumes "ring h head xs" and "new \<notin> set (head # xs)"
  shows "ring (list_add new head h) head (new # xs)"
proof (cases xs)
  case Nil
  with assms show ?thesis by (auto simp: ring_def list_add_def Let_def)
next
  case (Cons x ys)
  then have "chain (list_add new head h) x ys head = chain h x ys head"
    using assms by (intro chain_cong) (auto simp: ring_def list_add_def Let_def)
  with Cons assms show ?thesis by (auto simp: ring_def list_add_def Let_def)
qed

lemma ring_add_tail:
  assumes "ring h head xs" and "new \<notin> set (head # xs)"
  shows "ring (list_add_tail new head h) head (xs @ [new])"
proof (cases xs rule: rev_cases)
  case Nil
  with assms show ?thesis by (auto simp: ring_def list_add_tail_def Let_def)
next
  case (snoc ys l)
  then have "chain (list_add_tail new head h) head ys l = chain h head ys l"
    using assms by (intro chain_cong) (auto simp: ring_def list_add_tail_def Let_def)
  with snoc assms show ?thesis by (auto simp: ring_def list_add_tail_def Let_def)
qed

text \<open>Any node of a ring may serve as its anchor; so \<open>list_add_tail\<close> before an inner node inserts there.\<close>

lemma ring_rotate: "ring h a (ys @ b # zs) \<longleftrightarrow> ring h b (zs @ a # ys)"
  by (auto simp: ring_def)

lemma ring_add_before:
  assumes "ring h head (ys @ x # zs)" and "new \<notin> set (head # ys @ x # zs)"
  shows "ring (list_add_tail new x h) head (ys @ new # x # zs)"
proof -
  have "ring h x (zs @ head # ys)" using assms(1) ring_rotate by blast
  then have "ring (list_add_tail new x h) x (zs @ head # ys @ [new])"
    using assms(2) ring_add_tail [of h x "zs @ head # ys" new] by simp
  then show ?thesis using ring_rotate [of _ x zs head "ys @ [new]"] by simp
qed

lemma list_del_neighbours:
  assumes "chain h a ys x" and "chain h x zs b"
  shows "list_del x h = h\<lparr>nxt := (nxt h)(last (a # ys) := hd (zs @ [b])),
    prv := (prv h)(hd (zs @ [b]) := last (a # ys))\<rparr>"
  using chain_last [OF assms(1)] chain_first [OF assms(2)] by (simp add: list_del_def Let_def)

lemma ring_del_split:
  assumes "ring h head (ys @ x # zs)"
  shows "ring (list_del x h) head (ys @ zs)"
proof -
  have c: "chain h head ys x" "chain h x zs head" and d: "distinct (head # ys @ x # zs)"
    using assms by (auto simp: ring_def)
  note del = list_del_neighbours [OF c]
  show ?thesis
  proof (cases ys rule: rev_cases)
    case Nil
    show ?thesis
    proof (cases zs)
      case (Cons n ws)
      have "chain (list_del x h) n ws head = chain h n ws head"
        using d Nil Cons by (intro chain_cong) (auto simp: del)
      then show ?thesis using c d Nil Cons by (auto simp: ring_def del)
    qed (use Nil c d in \<open>auto simp: ring_def del\<close>)
  next
    case (snoc vs l)
    have pre: "chain (list_del x h) head vs l = chain h head vs l"
      using d snoc by (intro chain_cong) (cases zs; auto simp: del)+
    show ?thesis
    proof (cases zs)
      case Nil
      then show ?thesis using c d snoc pre by (auto simp: ring_def del)
    next
      case (Cons n ws)
      have "chain (list_del x h) n ws head = chain h n ws head"
        using d snoc Cons by (intro chain_cong) (auto simp: del)
      then show ?thesis using c d snoc Cons pre by (auto simp: ring_def del)
    qed
  qed
qed

lemma ring_del:
  assumes "ring h head xs" and "x \<in> set xs"
  shows "ring (list_del x h) head (remove1 x xs)"
proof -
  obtain ys zs where xs: "xs = ys @ x # zs" and "x \<notin> set ys"
    using split_list_first [OF assms(2)] by blast
  then have "remove1 x xs = ys @ zs" by (simp add: remove1_append)
  then show ?thesis using ring_del_split assms(1) xs by simp
qed

lemma ring_empty_iff: "ring h head xs \<Longrightarrow> list_empty head h \<longleftrightarrow> xs = []"
  by (cases xs) (auto simp: ring_def list_empty_def)

lemma ring_first: "ring h head (x # xs) \<Longrightarrow> list_first_entry head h = x"
  by (simp add: ring_def list_first_entry_def)

section \<open>Iteration\<close>

lemma for_each_chain:
  "chain h a xs head \<Longrightarrow> head \<notin> set xs \<Longrightarrow> list_for_each_from h head (nxt h a) = Some xs"
proof (induction xs arbitrary: a)
  case Nil
  then show ?case by (simp add: list_for_each_from.simps)
next
  case (Cons x xs)
  then have "list_for_each_from h head (nxt h x) = Some xs" by simp
  with Cons.prems show ?case by (simp add: list_for_each_from.simps [of h head x])
qed

lemma ring_for_each: "ring h head xs \<Longrightarrow> list_for_each h head = Some xs"
  unfolding list_for_each_def ring_def by (intro for_each_chain) auto

lemma ring_nxt_mid: "ring h head (ys @ x # zs) \<Longrightarrow> nxt h x = hd (zs @ [head])"
  by (auto simp: ring_def dest: chain_first)

text \<open>Unlinking a node does not change the node's own \<^verbatim>\<open>next\<close> field.\<close>

lemma list_del_own_next:
  assumes "ring h head (ys @ x # zs)"
  shows "nxt (list_del x h) x = hd (zs @ [head])"
proof -
  have "prv h x = last (head # ys)" using assms by (auto simp: ring_def dest: chain_last)
  moreover have "x \<noteq> last (head # ys)" using assms by (auto simp: ring_def)
  ultimately show ?thesis
    using ring_nxt_mid [OF assms] by (simp add: list_del_def Let_def)
qed

lemma each_del_ring:
  assumes "ring h head (ys @ zs)"
  shows "\<exists>h'. each_del_from P head (hd (zs @ [head])) h = Some h'
    \<and> ring h' head (ys @ filter (\<lambda>x. \<not> P x) zs)"
  using assms
proof (induction zs arbitrary: ys h)
  case Nil
  then show ?case by (simp add: each_del_from.simps)
next
  case (Cons z zs)
  have ne: "z \<noteq> head" using Cons.prems by (auto simp: ring_def)
  show ?case
  proof (cases "P z")
    case True
    have "ring (list_del z h) head (ys @ zs)" using ring_del_split Cons.prems by blast
    from Cons.IH [OF this] show ?thesis
      using True ne list_del_own_next [OF Cons.prems] by (simp add: Let_def each_del_from.simps [of P head z])
  next
    case False
    have "ring h head ((ys @ [z]) @ zs)" using Cons.prems by simp
    from Cons.IH [OF this] show ?thesis
      using False ne ring_nxt_mid [OF Cons.prems] by (simp add: Let_def each_del_from.simps [of P head z])
  qed
qed

lemma each_safe_ring:
  assumes "ring h head (ys @ zs)"
  shows "\<exists>h'. each_safe_from P head (hd (zs @ [head])) (nxt h (hd (zs @ [head]))) h = Some h'
    \<and> ring h' head (ys @ filter (\<lambda>x. \<not> P x) zs)"
  using assms
proof (induction zs arbitrary: ys h)
  case Nil
  then show ?case by (simp add: each_safe_from.simps)
next
  case (Cons z zs)
  have ne: "z \<noteq> head" using Cons.prems by (auto simp: ring_def)
  show ?case
  proof (cases "P z")
    case True
    have "ring (list_del z h) head (ys @ zs)" using ring_del_split Cons.prems by blast
    from Cons.IH [OF this] show ?thesis
      using True ne ring_nxt_mid [OF Cons.prems] by (simp add: Let_def each_safe_from.simps [of P head z])
  next
    case False
    have "ring h head ((ys @ [z]) @ zs)" using Cons.prems by simp
    from Cons.IH [OF this] show ?thesis
      using False ne ring_nxt_mid [OF Cons.prems] by (simp add: Let_def each_safe_from.simps [of P head z])
  qed
qed

lemma ring_for_each_del:
  assumes "ring h head xs"
  shows "\<exists>h'. list_for_each_del P head h = Some h' \<and> ring h' head (filter (\<lambda>x. \<not> P x) xs)"
  using each_del_ring [of h head "[]" xs P] assms chain_first [of h head xs head]
  by (simp add: list_for_each_del_def ring_def)

lemma ring_for_each_safe_del:
  assumes "ring h head xs"
  shows "\<exists>h'. list_for_each_safe_del P head h = Some h' \<and> ring h' head (filter (\<lambda>x. \<not> P x) xs)"
  using each_safe_ring [of h head "[]" xs P] assms chain_first [of h head xs head]
  by (simp add: list_for_each_safe_del_def ring_def)

section \<open>The interface the tables are built on\<close>

text \<open>
  What the clients of \<^verbatim>\<open>linklist.h\<close> rely on: an abstraction to lists under which initialisation
  gives the empty list, insertion appends, unlinking removes, and iteration visits the list.
\<close>

locale intrusive_list =
  fixes contents :: "'h \<Rightarrow> 'n \<Rightarrow> 'n list \<Rightarrow> bool"
    and init :: "'n \<Rightarrow> 'h \<Rightarrow> 'h"
    and add_tail :: "'n \<Rightarrow> 'n \<Rightarrow> 'h \<Rightarrow> 'h"
    and del :: "'n \<Rightarrow> 'h \<Rightarrow> 'h"
    and visit :: "'h \<Rightarrow> 'n \<Rightarrow> 'n list option"
  assumes contents_distinct: "contents h a xs \<Longrightarrow> distinct (a # xs)"
    and contents_init: "contents (init a h) a []"
    and contents_add_tail: "contents h a xs \<Longrightarrow> x \<notin> set (a # xs) \<Longrightarrow> contents (add_tail x a h) a (xs @ [x])"
    and contents_del: "contents h a xs \<Longrightarrow> x \<in> set xs \<Longrightarrow> contents (del x h) a (remove1 x xs)"
    and contents_visit: "contents h a xs \<Longrightarrow> visit h a = Some xs"
begin

text \<open>A table filled by repeated insertion holds its entries in insertion order, and lists them so.\<close>

lemma fill_contents:
  assumes "contents h a xs" and "distinct ys" and "set ys \<inter> set (a # xs) = {}"
  shows "contents (fold (\<lambda>x. add_tail x a) ys h) a (xs @ ys)"
  using assms
proof (induction ys arbitrary: h xs)
  case Nil
  then show ?case by simp
next
  case (Cons y ys)
  then have "contents (add_tail y a h) a (xs @ [y])" by (intro contents_add_tail) auto
  with Cons.prems have "contents (fold (\<lambda>x. add_tail x a) ys (add_tail y a h)) a ((xs @ [y]) @ ys)"
    by (intro Cons.IH) auto
  then show ?case by simp
qed

lemmas fill_visits_in_order = fill_contents [THEN contents_visit]

text \<open>Unlinking the node that was inserted last gives the old table back.\<close>

lemma del_add_tail:
  assumes "contents h a xs" and "x \<notin> set (a # xs)"
  shows "visit (del x (add_tail x a h)) a = Some xs"
proof -
  have "contents (del x (add_tail x a h)) a (remove1 x (xs @ [x]))"
    using contents_add_tail [OF assms] by (rule contents_del) simp
  then have "contents (del x (add_tail x a h)) a xs"
    using assms(2) by (simp add: remove1_append)
  then show ?thesis by (rule contents_visit)
qed

text \<open>An unlinked node is not visited any more, and all others still are.\<close>

lemma del_visits_others:
  assumes "contents h a xs" and "x \<in> set xs"
  shows "\<exists>ys. visit (del x h) a = Some ys \<and> set ys = set xs - {x}"
  using contents_visit [OF contents_del [OF assms]] contents_distinct [OF assms(1)] by simp

end

interpretation kernel_list: intrusive_list ring list_init list_add_tail list_del list_for_each
  by unfold_locales (auto simp: ring_init ring_distinct intro: ring_add_tail ring_del ring_for_each
      dest: ring_distinct)

section \<open>Properties\<close>



end
