(* ===== verification/Subuff.thy ===== *)
theory Subuff
  imports Linklist
begin

text \<open>
  Packet buffers: \<^verbatim>\<open>src/subuff.h\<close> and \<^verbatim>\<open>src/subuff.c\<close>, with the two structures a buffer points to
  (\<open>struct anp_netdev\<close> of \<^verbatim>\<open>src/anp_netdev.h\<close> and \<open>struct rtentry\<close> of \<^verbatim>\<open>src/route.h\<close>; both are
  never written after initialisation, so a pointer to one is modelled as its value).

  A \<open>subuff\<close> carries the bytes of its heap block (\<open>s_head\<close>) and the block's size (\<open>s_end\<close>); the
  pointers \<open>data\<close> and \<open>payload\<close> are distances from the start of the block, \<open>data\<close> an integer since
  \<open>sub_push\<close> may move it in front of the block. \<open>heap_state\<close> counts the live structures and blocks
  and says whether the allocator is out of memory, in which case \<open>calloc\<close> returns \<^verbatim>\<open>NULL\<close>.

  The second half is the buffer queue \<open>struct subuff_head\<close>, a client of the ring interface.
\<close>

section \<open>Structures\<close>

record anp_netdev =
  dev_addr :: u32
  dev_addr_len :: u8
  dev_hwaddr :: "u8 list"
  dev_mtu :: u32

record rtentry =
  rt_dst :: u32
  rt_gateway :: u32
  rt_netmask :: u32
  rt_flags :: u8
  rt_dev :: anp_netdev

record subuff =
  s_rt :: "rtentry option"
  s_dev :: "anp_netdev option"
  s_protocol :: u16
  s_seq :: u32
  s_end_seq :: u32
  s_head :: mem
  s_end :: nat
  s_data :: int
  s_len :: u32
  s_payload :: "nat option"
  s_dlen :: u32

record heap_state =
  live_subs :: int
  live_bufs :: int
  oom :: bool

section \<open>Buffer operations\<close>

definition alloc_sub :: "u32 \<Rightarrow> 'a heap_state_scheme \<Rightarrow> (subuff \<times> 'a heap_state_scheme) outcome" where
  "alloc_sub sz w =
     (if oom w then Inl NullPointer
      else Inr (\<lparr>s_rt = None, s_dev = None, s_protocol = 0, s_seq = 0, s_end_seq = 0,
                 s_head = (\<lambda>_. 0), s_end = unat sz, s_data = 0, s_len = 0,
                 s_payload = None, s_dlen = 0\<rparr>,
                w\<lparr>live_subs := live_subs w + 1, live_bufs := live_bufs w + 1\<rparr>))"

definition free_sub :: "subuff \<Rightarrow> 'a heap_state_scheme \<Rightarrow> 'a heap_state_scheme" where
  "free_sub sub w = w\<lparr>live_bufs := live_bufs w - 1, live_subs := live_subs w - 1\<rparr>"

definition sub_reserve :: "subuff \<Rightarrow> u32 \<Rightarrow> subuff" where
  "sub_reserve sub n = sub\<lparr>s_data := s_data sub + uint n\<rparr>"

definition sub_head :: "subuff \<Rightarrow> mem" where
  "sub_head sub = s_head sub"

definition sub_push :: "subuff \<Rightarrow> u32 \<Rightarrow> subuff" where
  "sub_push sub n = sub\<lparr>s_data := s_data sub - uint n, s_len := s_len sub + n\<rparr>"

text \<open>A buffer just allocated with \<open>sz\<close> bytes into which a received frame has been read.\<close>

definition rx_sub :: "u32 \<Rightarrow> u8 list \<Rightarrow> subuff" where
  "rx_sub sz frame =
     \<lparr>s_rt = None, s_dev = None, s_protocol = 0, s_seq = 0, s_end_seq = 0,
      s_head = put_bytes (\<lambda>_. 0) 0 frame, s_end = unat sz, s_data = 0, s_len = 0,
      s_payload = None, s_dlen = 0\<rparr>"

section \<open>Buffer queues\<close>

record subuff_head =
  q_head :: node
  queue_len :: u32

definition sub_queue_len :: "subuff_head \<Rightarrow> u32" where
  "sub_queue_len q = queue_len q"

definition sub_queue_init :: "subuff_head \<Rightarrow> list_mem \<Rightarrow> subuff_head \<times> list_mem" where
  "sub_queue_init q h = (q\<lparr>queue_len := 0\<rparr>, list_init (q_head q) h)"

definition sub_queue_add :: "subuff_head \<Rightarrow> node \<Rightarrow> node \<Rightarrow> list_mem \<Rightarrow> subuff_head \<times> list_mem" where
  "sub_queue_add q new next h = (q\<lparr>queue_len := queue_len q + 1\<rparr>, list_add_tail new next h)"

definition sub_queue_tail :: "subuff_head \<Rightarrow> node \<Rightarrow> list_mem \<Rightarrow> subuff_head \<times> list_mem" where
  "sub_queue_tail q new h = (q\<lparr>queue_len := queue_len q + 1\<rparr>, list_add_tail new (q_head q) h)"

definition sub_dequeue :: "subuff_head \<Rightarrow> list_mem \<Rightarrow> node \<times> subuff_head \<times> list_mem" where
  "sub_dequeue q h =
     (let skb = list_first_entry (q_head q) h
      in (skb, q\<lparr>queue_len := queue_len q - 1\<rparr>, list_del skb h))"

definition sub_queue_empty :: "subuff_head \<Rightarrow> bool" where
  "sub_queue_empty q \<longleftrightarrow> sub_queue_len q < 1"

definition sub_peek :: "subuff_head \<Rightarrow> list_mem \<Rightarrow> node option" where
  "sub_peek q h = (if sub_queue_empty q then None else Some (list_first_entry (q_head q) h))"

text \<open>The loop of \<open>sub_queue_free\<close>; the nodes handed to \<open>free_sub\<close> are returned in order.\<close>

partial_function (option) sub_queue_free ::
  "subuff_head \<Rightarrow> list_mem \<Rightarrow> (node list \<times> subuff_head \<times> list_mem) option" where
  "sub_queue_free q h =
     (case sub_peek q h of
        None \<Rightarrow> Some ([], q, h)
      | Some skb \<Rightarrow>
          (let r = sub_dequeue q h
           in Option.bind (sub_queue_free (fst (snd r)) (snd (snd r)))
                (\<lambda>rest. Some (skb # fst rest, snd rest))))"

section \<open>Buffers\<close>

lemma push_reserve: "s_data (sub_push (sub_reserve sub n) n) = s_data sub"
  by (simp add: sub_push_def sub_reserve_def)

lemma sub_push_simps [simp]:
  "s_head (sub_push sub n) = s_head sub"
  "s_end (sub_push sub n) = s_end sub"
  "s_data (sub_push sub n) = s_data sub - uint n"
  "s_len (sub_push sub n) = s_len sub + n"
  "s_dev (sub_push sub n) = s_dev sub"
  "s_rt (sub_push sub n) = s_rt sub"
  "s_protocol (sub_push sub n) = s_protocol sub"
  "s_dlen (sub_push sub n) = s_dlen sub"
  by (simp_all add: sub_push_def)

lemma sub_reserve_simps [simp]:
  "s_head (sub_reserve sub n) = s_head sub"
  "s_end (sub_reserve sub n) = s_end sub"
  "s_data (sub_reserve sub n) = s_data sub + uint n"
  "s_len (sub_reserve sub n) = s_len sub"
  "s_dev (sub_reserve sub n) = s_dev sub"
  "s_rt (sub_reserve sub n) = s_rt sub"
  "s_protocol (sub_reserve sub n) = s_protocol sub"
  by (simp_all add: sub_reserve_def)

section \<open>Queues are first in, first out\<close>

definition queue_rep :: "list_mem \<Rightarrow> subuff_head \<Rightarrow> node list \<Rightarrow> bool" where
  "queue_rep h q xs \<longleftrightarrow> ring h (q_head q) xs \<and> unat (queue_len q) = length xs"

lemma queue_init_rep: "sub_queue_init q h = (q', h') \<Longrightarrow> queue_rep h' q' []"
  by (auto simp: sub_queue_init_def queue_rep_def ring_init)

lemma queue_tail_rep:
  assumes "queue_rep h q xs" and "new \<notin> set (q_head q # xs)" and "Suc (length xs) < 2 ^ 32"
    and "sub_queue_tail q new h = (q', h')"
  shows "queue_rep h' q' (xs @ [new])"
proof -
  have "unat (queue_len q + 1) = Suc (length xs)"
    using assms(1,3) by (simp add: queue_rep_def unat_word_ariths)
  with assms show ?thesis
    by (auto simp: sub_queue_tail_def queue_rep_def kernel_list.contents_add_tail)
qed

lemma queue_empty_rep: "queue_rep h q xs \<Longrightarrow> sub_queue_empty q \<longleftrightarrow> xs = []"
  by (auto simp: sub_queue_empty_def sub_queue_len_def queue_rep_def word_less_nat_alt)

lemma queue_peek_rep:
  "queue_rep h q xs \<Longrightarrow> sub_peek q h = (case xs of [] \<Rightarrow> None | x # _ \<Rightarrow> Some x)"
  by (auto simp: sub_peek_def queue_empty_rep split: list.splits)
    (auto simp: queue_rep_def ring_first)

lemma queue_dequeue_rep:
  assumes "queue_rep h q (x # xs)" and "sub_dequeue q h = (skb, q', h')"
  shows "skb = x \<and> queue_rep h' q' xs"
proof -
  have first: "list_first_entry (q_head q) h = x"
    using assms(1) by (auto simp: queue_rep_def ring_first)
  have "ring (list_del x h) (q_head q) (remove1 x (x # xs))"
    using assms(1) by (intro kernel_list.contents_del) (auto simp: queue_rep_def)
  moreover have "unat (queue_len q - 1) = length xs"
    using assms(1) by (subst unat_sub) (auto simp: queue_rep_def word_le_nat_alt)
  ultimately show ?thesis
    using assms(2) first by (auto simp: sub_dequeue_def queue_rep_def)
qed

lemma queue_free_rep:
  assumes "queue_rep h q xs"
  shows "\<exists>q' h'. sub_queue_free q h = Some (xs, q', h') \<and> queue_rep h' q' []"
  using assms
proof (induction xs arbitrary: q h)
  case Nil
  then show ?case by (simp add: sub_queue_free.simps [of q h] queue_peek_rep)
next
  case (Cons x xs)
  obtain skb q1 h1 where d: "sub_dequeue q h = (skb, q1, h1)" by (cases "sub_dequeue q h") auto
  then have "queue_rep h1 q1 xs" using queue_dequeue_rep Cons.prems by blast
  then obtain q' h' where "sub_queue_free q1 h1 = Some (xs, q', h')" "queue_rep h' q' []"
    using Cons.IH by blast
  then show ?case using Cons.prems d by (simp add: sub_queue_free.simps [of q h] queue_peek_rep)
qed

lemma queue_add_rep:
  assumes "queue_rep h q (ys @ x # zs)" and "new \<notin> set (q_head q # ys @ x # zs)" and "length (ys @ x # zs) + 1 < 2 ^ 32"
    and "sub_queue_add q new x h = (q', h')"
  shows "queue_rep h' q' (ys @ new # x # zs)"
proof -
  have "unat (queue_len q + 1) = length (ys @ new # x # zs)"
    using assms(1,3) by (simp add: queue_rep_def unat_word_ariths)
  then show ?thesis
    using assms ring_add_before [of h "q_head q" ys x zs new] by (auto simp: sub_queue_add_def queue_rep_def)
qed

section \<open>The interface of the queue\<close>

text \<open>What the users of a buffer queue rely on, over an abstraction \<open>rep\<close> to lists of buffers; \<open>room\<close> bounds its length.\<close>

locale buffer_queue =
  fixes rep :: "'h \<Rightarrow> 'q \<Rightarrow> 'n list \<Rightarrow> bool"
    and fresh :: "'q \<Rightarrow> 'n \<Rightarrow> bool"
    and room :: nat
    and tail :: "'q \<Rightarrow> 'n \<Rightarrow> 'h \<Rightarrow> 'q \<times> 'h"
    and dequeue :: "'q \<Rightarrow> 'h \<Rightarrow> 'n \<times> 'q \<times> 'h"
    and free_all :: "'q \<Rightarrow> 'h \<Rightarrow> ('n list \<times> 'q \<times> 'h) option"
  assumes tail_rep: "rep h q xs \<Longrightarrow> fresh q x \<Longrightarrow> x \<notin> set xs \<Longrightarrow> length xs + 1 < room \<Longrightarrow> tail q x h = (q', h') \<Longrightarrow> rep h' q' (xs @ [x])"
    and tail_fresh: "tail q x h = (q', h') \<Longrightarrow> fresh q' y \<longleftrightarrow> fresh q y"
    and dequeue_rep: "rep h q (x # xs) \<Longrightarrow> dequeue q h = (y, q', h') \<Longrightarrow> y = x \<and> rep h' q' xs"
    and free_all_rep: "rep h q xs \<Longrightarrow> \<exists>q' h'. free_all q h = Some (xs, q', h') \<and> rep h' q' []"
begin

lemma fill_rep:
  assumes "rep h q xs" and "distinct (xs @ ys)" and "\<forall>y \<in> set ys. fresh q y" and "length (xs @ ys) < room"
    and "fold (\<lambda>y (q, h). tail q y h) ys (q, h) = (q', h')"
  shows "rep h' q' (xs @ ys)"
  using assms
proof (induction ys arbitrary: q h xs)
  case Nil
  then show ?case by simp
next
  case (Cons y ys)
  obtain q1 h1 where t: "tail q y h = (q1, h1)" by fastforce
  have "rep h1 q1 (xs @ [y])" using Cons.prems t by (intro tail_rep [OF Cons.prems(1) _ _ _ t]) auto
  moreover have "\<forall>z \<in> set ys. fresh q1 z" using Cons.prems(3) tail_fresh [OF t] by simp
  ultimately show ?case using Cons.IH [of h1 q1 "xs @ [y]"] Cons.prems t by simp
qed

text \<open>First in, first out: what is queued comes out, and is freed, in order.\<close>

lemma first_in_first_out:
  assumes "rep h q []" and "distinct (y # ys)" and "\<forall>z \<in> set (y # ys). fresh q z" and "length (y # ys) < room"
    and "fold (\<lambda>y (q, h). tail q y h) (y # ys) (q, h) = (q', h')"
  shows "fst (dequeue q' h') = y \<and> (\<exists>q'' h''. free_all q' h' = Some (y # ys, q'', h''))"
proof -
  have "rep h' q' ([] @ y # ys)" by (rule fill_rep [OF assms(1) _ _ _ assms(5)]) (use assms(2-4) in simp_all)
  then have "rep h' q' (y # ys)" by simp
  then show ?thesis using dequeue_rep [of h' q' y ys] free_all_rep [of h' q' "y # ys"] by (cases "dequeue q' h'") auto
qed

end

interpretation sub_queue: buffer_queue queue_rep "\<lambda>q x. x \<noteq> q_head q" "2 ^ 32" sub_queue_tail sub_dequeue sub_queue_free
proof unfold_locales
  show "queue_rep h' q' (xs @ [x])" if "queue_rep h q xs" "x \<noteq> q_head q" "x \<notin> set xs" "length xs + 1 < 2 ^ 32" "sub_queue_tail q x h = (q', h')"
    for h q xs x q' h'
    using queue_tail_rep [of h q xs x q' h'] that by simp
  show "y \<noteq> q_head q' \<longleftrightarrow> y \<noteq> q_head q" if "sub_queue_tail q x h = (q', h')" for q x h q' h' y
    using that by (auto simp: sub_queue_tail_def)
  show "y = x \<and> queue_rep h' q' xs" if "queue_rep h q (x # xs)" "sub_dequeue q h = (y, q', h')" for h q x xs y q' h'
    using queue_dequeue_rep that by blast
qed (rule queue_free_rep)

section \<open>Properties\<close>

text \<open>C25. The buffer queue refines a list of buffers: under the representation relation \<open>queue_rep\<close> the length, the emptiness
  test and \<open>sub_peek\<close> read the list; \<open>sub_queue_tail\<close> appends (as long as the 32-bit length does not overflow), \<open>sub_queue_add\<close>
  inserts before the given buffer, \<open>sub_dequeue\<close> takes the first one off, and \<open>sub_queue_free\<close> comes to an end, hands
  every buffer to \<open>free_sub\<close> exactly once, in order, and leaves an empty queue. So buffers put into an empty queue leave it in the same order.\<close>

theorem queue_refines:
  assumes "queue_rep h q xs"
  shows "unat (sub_queue_len q) = length xs \<and> (sub_queue_empty q \<longleftrightarrow> xs = [])
    \<and> sub_peek q h = (case xs of [] \<Rightarrow> None | x # _ \<Rightarrow> Some x)
    \<and> (\<forall>new q' h'. new \<notin> set (q_head q # xs) \<and> length xs + 1 < 2 ^ 32 \<and> sub_queue_tail q new h = (q', h') \<longrightarrow> queue_rep h' q' (xs @ [new]))
    \<and> (\<forall>ys x zs new q' h'. xs = ys @ x # zs \<and> new \<notin> set (q_head q # xs) \<and> length xs + 1 < 2 ^ 32 \<and> sub_queue_add q new x h = (q', h')
        \<longrightarrow> queue_rep h' q' (ys @ new # x # zs))
    \<and> (\<forall>x ys skb q' h'. xs = x # ys \<and> sub_dequeue q h = (skb, q', h') \<longrightarrow> skb = x \<and> queue_rep h' q' ys)
    \<and> (\<exists>q' h'. sub_queue_free q h = Some (xs, q', h') \<and> queue_rep h' q' [])
    \<and> (\<forall>y ys q' h'. xs = [] \<and> distinct (q_head q # y # ys) \<and> length (y # ys) < 2 ^ 32
        \<and> fold (\<lambda>y (q, h). sub_queue_tail q y h) (y # ys) (q, h) = (q', h')
        \<longrightarrow> fst (sub_dequeue q' h') = y \<and> (\<exists>q'' h''. sub_queue_free q' h' = Some (y # ys, q'', h'')))"
proof (intro conjI)
  show "unat (sub_queue_len q) = length xs" using assms by (simp add: sub_queue_len_def queue_rep_def)
  show "sub_queue_empty q \<longleftrightarrow> xs = []" by (rule queue_empty_rep [OF assms])
  show "sub_peek q h = (case xs of [] \<Rightarrow> None | x # _ \<Rightarrow> Some x)" by (rule queue_peek_rep [OF assms])
  show "\<exists>q' h'. sub_queue_free q h = Some (xs, q', h') \<and> queue_rep h' q' []" by (rule sub_queue.free_all_rep [OF assms])
next
  show "\<forall>new q' h'. new \<notin> set (q_head q # xs) \<and> length xs + 1 < 2 ^ 32 \<and> sub_queue_tail q new h = (q', h') \<longrightarrow> queue_rep h' q' (xs @ [new])"
    using queue_tail_rep [OF assms] by (metis Suc_eq_plus1)
next
  show "\<forall>ys x zs new q' h'. xs = ys @ x # zs \<and> new \<notin> set (q_head q # xs) \<and> length xs + 1 < 2 ^ 32 \<and> sub_queue_add q new x h = (q', h')
      \<longrightarrow> queue_rep h' q' (ys @ new # x # zs)"
    using assms queue_add_rep by blast
next
  show "\<forall>x ys skb q' h'. xs = x # ys \<and> sub_dequeue q h = (skb, q', h') \<longrightarrow> skb = x \<and> queue_rep h' q' ys"
    using assms sub_queue.dequeue_rep by blast
next
  show "\<forall>y ys q' h'. xs = [] \<and> distinct (q_head q # y # ys) \<and> length (y # ys) < 2 ^ 32
      \<and> fold (\<lambda>y (q, h). sub_queue_tail q y h) (y # ys) (q, h) = (q', h')
      \<longrightarrow> fst (sub_dequeue q' h') = y \<and> (\<exists>q'' h''. sub_queue_free q' h' = Some (y # ys, q'', h''))"
  proof (intro allI impI)
    fix y ys q' h'
    assume a: "xs = [] \<and> distinct (q_head q # y # ys) \<and> length (y # ys) < 2 ^ 32
      \<and> fold (\<lambda>y (q, h). sub_queue_tail q y h) (y # ys) (q, h) = (q', h')"
    then show "fst (sub_dequeue q' h') = y \<and> (\<exists>q'' h''. sub_queue_free q' h' = Some (y # ys, q'', h''))"
      using assms by (intro sub_queue.first_in_first_out [of h q y ys q' h']) auto
  qed
qed

theorem queue_refines_witness:
  "\<exists>q' h'. sub_queue_free \<lparr>q_head = 9, queue_len = 1\<rparr> (list_add_tail 4 9 (list_init 9 \<lparr>nxt = \<lambda>_. 0, prv = \<lambda>_. 0\<rparr>)) = Some ([4], q', h')"
proof -
  have "queue_rep (list_add_tail 4 9 (list_init 9 \<lparr>nxt = \<lambda>_. 0, prv = \<lambda>_. 0\<rparr>)) \<lparr>q_head = 9, queue_len = 1\<rparr> ([] @ [4])"
    unfolding queue_rep_def by (intro conjI) (simp_all add: ring_add_tail ring_init del: append_Nil)
  from queue_refines [OF this] show ?thesis by (elim conjE exE) (auto simp only: append_Nil)
qed

end
