(* ===== verification/Ip_Text.thy ===== *)
theory Ip_Text
  imports Net_Prelude
begin

text \<open>
  Addresses as text, from \<^verbatim>\<open>src/utilities.c\<close>: \<open>ip_str_to_n32\<close>, \<open>ip_str_to_h32\<close> and \<open>u32_ip_to_str\<close>.
  \<open>inet_pton4\<close> is the scanner behind \<^verbatim>\<open>inet_pton(AF_INET, ...)\<close>: four decimal numbers up to 255,
  without superfluous leading zeros, separated by dots. \<open>dec_u8\<close> is \<^verbatim>\<open>%u\<close> for a byte.
\<close>

section \<open>Scanning\<close>

definition digit_val :: "char \<Rightarrow> nat option" where
  "digit_val c = (let n = of_char c in if 48 \<le> n \<and> n \<le> 57 then Some (n - 48) else None)"

text \<open>State of the scanner: the finished octets, the octet being read, whether it has a digit.\<close>

fun pton_loop :: "string \<Rightarrow> nat list \<Rightarrow> nat \<Rightarrow> bool \<Rightarrow> nat list option" where
  "pton_loop [] octs cur saw = (if saw \<and> length octs = 3 then Some (octs @ [cur]) else None)"
| "pton_loop (c # cs) octs cur saw =
     (case digit_val c of
        Some d \<Rightarrow>
          if saw \<and> cur = 0 then None
          else if cur * 10 + d > 255 then None
          else pton_loop cs octs (cur * 10 + d) True
      | None \<Rightarrow>
          if c = CHR ''.'' \<and> saw then
            (if length octs = 3 then None else pton_loop cs (octs @ [cur]) 0 False)
          else None)"

definition inet_pton4 :: "string \<Rightarrow> nat list option" where
  "inet_pton4 s = pton_loop s [] 0 False"

definition ip_str_to_n32 :: "string \<Rightarrow> u32 outcome" where
  "ip_str_to_n32 s =
     (case inet_pton4 s of
        None \<Rightarrow> Inl (Exit 1)
      | Some o4 \<Rightarrow> Inr (le32 (word_of_nat (o4 ! 0)) (word_of_nat (o4 ! 1))
                          (word_of_nat (o4 ! 2)) (word_of_nat (o4 ! 3))))"

definition ip_str_to_h32 :: "string \<Rightarrow> u32 outcome" where
  "ip_str_to_h32 s = bindo (ip_str_to_n32 s) (\<lambda>dst. Inr (ntohl dst))"

section \<open>Printing\<close>

definition digit_char :: "nat \<Rightarrow> char" where
  "digit_char d = char_of (48 + d)"

definition dec_u8 :: "u8 \<Rightarrow> string" where
  "dec_u8 b =
     (let n = unat b
      in if n < 10 then [digit_char n]
         else if n < 100 then [digit_char (n div 10), digit_char (n mod 10)]
         else [digit_char (n div 100), digit_char (n div 10 mod 10), digit_char (n mod 10)])"

definition ip_dotted :: "u32 \<Rightarrow> string" where
  "ip_dotted daddr =
     dec_u8 (byte3 daddr) @ ''.'' @ dec_u8 (byte2 daddr) @ ''.''
       @ dec_u8 (byte1 daddr) @ ''.'' @ dec_u8 (byte0 daddr)"

text \<open>What \<open>u32_ip_to_str\<close> prints: \<^verbatim>\<open>"%s %u.%u.%u.%u\n"\<close>.\<close>

definition u32_ip_to_str :: "string \<Rightarrow> u32 \<Rightarrow> string" where
  "u32_ip_to_str str daddr = str @ '' '' @ ip_dotted daddr @ [char_of (10 :: nat)]"

text \<open>
  What \<open>print_trace\<close> prints of the addresses \<open>frames\<close> that \<^verbatim>\<open>backtrace\<close> has found, at most 1024. \<open>symbols\<close> is the answer of \<^verbatim>\<open>backtrace_symbols\<close>, one text for
  each of them, or a null pointer when memory is short.
\<close>

definition print_trace :: "nat list \<Rightarrow> (nat list \<Rightarrow> string list option) \<Rightarrow> string outcome" where
  "print_trace frames symbols =
     (let array = take 1024 frames
      in case symbols array of
           None \<Rightarrow> if array = [] then Inr [char_of (10 :: nat)] else Inl NullPointer
         | Some strings \<Rightarrow> Inr (concat (map (\<lambda>s. s @ [char_of (10 :: nat)]) (take (length array) strings)) @ [char_of (10 :: nat)]))"

section \<open>Scanning undoes printing\<close>

lemma digit_val_char: "d < 10 \<Longrightarrow> digit_val (digit_char d) = Some d"
  by (simp add: digit_val_def digit_char_def Let_def)

lemma digit_val_dot: "digit_val (CHR ''.'') = None"
  by (simp add: digit_val_def Let_def of_char_def)

lemma pton_octet:
  "pton_loop (dec_u8 b @ rest) octs 0 False = pton_loop rest octs (unat b) True"
proof -
  let ?n = "unat b"
  have small: "?n < 256" by simp
  have "?n < 10 * 100" using small by linarith
  then have h: "?n div 100 < 10" and t: "?n div 10 mod 10 < 10"
    by (simp_all add: less_mult_imp_div_less)
  have "?n div 100 * 10 + ?n div 10 mod 10 = ?n div 10"
    using div_mult2_eq [of ?n 10 10] div_mult_mod_eq [of "?n div 10" 10] by simp
  then have dec: "?n div 100 * 100 + ?n div 10 mod 10 * 10 + ?n mod 10 = ?n"
    using div_mult_mod_eq [of ?n 10] by linarith
  consider "?n < 10" | "10 \<le> ?n" "?n < 100" | "100 \<le> ?n" by linarith
  then show ?thesis
  proof cases
    case 1
    then show ?thesis by (simp add: dec_u8_def digit_val_char)
  next
    case 2
    have a: "?n div 10 < 10" "?n div 10 \<noteq> 0" using 2 by auto
    have b: "\<not> 255 < ?n div 10" using a by linarith
    show ?thesis using 2 by (simp add: dec_u8_def Let_def digit_val_char a b)
  next
    case 3
    have a: "?n div 100 \<noteq> 0" "\<not> ?n < 10" "\<not> ?n < 100" using 3 by auto
    have b: "(?n div 100 * 10 + ?n div 10 mod 10) * 10 + ?n mod 10 = ?n" using dec by simp
    have c: "\<not> 255 < ?n div 100 * 10 + ?n div 10 mod 10" "\<not> 255 < ?n div 100"
      using h t by linarith+
    show ?thesis using h t by (simp add: dec_u8_def Let_def digit_val_char a b c del: distrib_right_numeral)
  qed
qed

lemma pton_dotted:
  "inet_pton4 (ip_dotted a) = Some [unat (byte3 a), unat (byte2 a), unat (byte1 a), unat (byte0 a)]"
proof -
  have "pton_loop (dec_u8 b) octs 0 False = pton_loop [] octs (unat b) True" for b octs
    using pton_octet [of b "[]"] by simp
  then show ?thesis
    by (simp add: inet_pton4_def ip_dotted_def pton_octet digit_val_dot del: unat_byte)
qed

lemma ip_str_to_h32_dotted: "ip_str_to_h32 (ip_dotted a) = Inr a"
  by (simp add: ip_str_to_h32_def ip_str_to_n32_def pton_dotted bswap32_def byte_simps
      del: unat_byte)

section \<open>The scanner reads nothing else\<close>

text \<open>The octets read so far and the part of the current one, as they stand in the text.\<close>

definition scanned :: "nat list \<Rightarrow> string" where
  "scanned octs = concat (map (\<lambda>n. dec_u8 (word_of_nat n) @ ''.'') octs)"

lemma digit_val_Some: "digit_val c = Some d \<longleftrightarrow> d < 10 \<and> c = digit_char d"
  by (auto simp: digit_val_def digit_char_def Let_def split: if_splits)

lemma dec_u8_snoc:
  assumes "n * 10 + d \<le> 255" and "d < 10" and "0 < n"
  shows "dec_u8 (word_of_nat (n * 10 + d)) = dec_u8 (word_of_nat n) @ [digit_char d]"
proof -
  have u: "unat (word_of_nat (n * 10 + d) :: u8) = n * 10 + d" "unat (word_of_nat n :: u8) = n"
    using assms(1) by (simp_all add: unat_of_nat del: of_nat_add of_nat_mult)
  have "(n * 10 + d) div 100 = n div 10" using assms(2) by linarith
  then show ?thesis using assms by (auto simp: dec_u8_def Let_def u simp del: of_nat_add of_nat_mult)
qed

lemma dec_u8_digit: "d < 10 \<Longrightarrow> dec_u8 (word_of_nat d) = [digit_char d]"
  by (simp add: dec_u8_def Let_def unat_of_nat)

lemma pton_loop_text:
  assumes "pton_loop s octs cur saw = Some r" and "\<not> saw \<longrightarrow> cur = 0" and "cur \<le> 255" and "list_all (\<lambda>n. n \<le> 255) octs" and "length octs \<le> 3"
  shows "length r = 4 \<and> list_all (\<lambda>n. n \<le> 255) r
    \<and> scanned r = scanned octs @ (if saw then dec_u8 (word_of_nat cur) else []) @ s @ ''.''"
  using assms
proof (induction s octs cur saw rule: pton_loop.induct)
  case (1 octs cur saw)
  then show ?case by (auto simp: scanned_def split: if_splits)
next
  case (2 c cs octs cur saw)
  show ?case
  proof (cases "digit_val c")
    case None
    then have "c = CHR ''.''" "saw" "length octs \<noteq> 3" "pton_loop cs (octs @ [cur]) 0 False = Some r"
      using "2.prems"(1) by (auto split: if_splits)
    then show ?thesis using "2.IH"(1) [OF None] "2.prems" by (simp add: scanned_def)
  next
    case (Some d)
    then have d: "d < 10" "c = digit_char d" by (simp_all add: digit_val_Some)
    have l: "\<not> (saw \<and> cur = 0)" "cur * 10 + d \<le> 255" "pton_loop cs octs (cur * 10 + d) True = Some r"
      using "2.prems"(1) Some by (auto split: if_splits)
    have "dec_u8 (word_of_nat (cur * 10 + d)) = (if saw then dec_u8 (word_of_nat cur) else []) @ [c]"
      using d l(1,2) "2.prems"(2) dec_u8_snoc [of cur d] dec_u8_digit [of d] by auto
    then show ?thesis using "2.IH"(2) [OF Some l(1)] l "2.prems"(4,5) by simp
  qed
qed

lemma inet_pton4_dotted:
  assumes "inet_pton4 s = Some r"
  shows "\<exists>a. s = ip_dotted a \<and> r = [unat (byte3 a), unat (byte2 a), unat (byte1 a), unat (byte0 a)]"
proof -
  have t: "length r = 4" "list_all (\<lambda>n. n \<le> 255) r" "scanned r = s @ ''.''"
    using pton_loop_text [OF assms [unfolded inet_pton4_def]] by (simp_all add: scanned_def)
  obtain i j k l where r: "r = [i, j, k, l]"
    using t(1) by (auto simp: numeral_eq_Suc length_Suc_conv)
  let ?a = "le32 (word_of_nat l) (word_of_nat k) (word_of_nat j) (word_of_nat i)"
  have "s = ip_dotted ?a" using t(3) by (simp add: r scanned_def ip_dotted_def byte_simps)
  moreover have "r = [unat (byte3 ?a), unat (byte2 ?a), unat (byte1 ?a), unat (byte0 ?a)]"
    using t(2) by (simp add: r byte_simps unat_of_nat del: unat_byte)
  ultimately show ?thesis by blast
qed

section \<open>Properties\<close>

text \<open>C38. Reading undoes printing, and nothing else is read: \<open>ip_str_to_h32\<close> yields the address \<open>a\<close> for exactly one text, the dotted form
  that \<open>u32_ip_to_str\<close> prints of it; \<open>ip_str_to_n32\<close> yields the same address in network order; every text that is not the
  dotted form of an address ends the program with status 1.\<close>

theorem ip_text_roundtrip:
  "u32_ip_to_str str a = str @ '' '' @ ip_dotted a @ [char_of (10 :: nat)]
   \<and> (ip_str_to_h32 s = Inr a \<longleftrightarrow> s = ip_dotted a) \<and> (ip_str_to_n32 s = Inr (htonl a) \<longleftrightarrow> s = ip_dotted a)
   \<and> (ip_str_to_h32 s = Inl (Exit 1) \<longleftrightarrow> (\<nexists>b. s = ip_dotted b))"
proof (cases "inet_pton4 s")
  case None
  then have "s \<noteq> ip_dotted b" for b using pton_dotted [of b] by auto
  then show ?thesis using None by (simp add: u32_ip_to_str_def ip_str_to_h32_def ip_str_to_n32_def)
next
  case (Some r)
  then obtain b where b: "s = ip_dotted b" using inet_pton4_dotted by blast
  have n: "ip_str_to_n32 (ip_dotted b) = Inr (htonl b)"
    by (simp add: ip_str_to_n32_def pton_dotted bswap32_def byte_simps del: unat_byte)
  have i: "ip_dotted b = ip_dotted a \<longleftrightarrow> a = b"
    using ip_str_to_h32_dotted [of a] ip_str_to_h32_dotted [of b] by auto
  have ex: "\<exists>c. ip_dotted b = ip_dotted c" by (rule exI [of _ b]) (rule refl)
  show ?thesis unfolding b ip_str_to_h32_def n u32_ip_to_str_def i using ex by auto
qed

end
