(* ===== verification/Netdev.thy ===== *)
theory Netdev
  imports Subuff Ip_Text
begin

text \<open>
  The device end of the stack: \<^verbatim>\<open>src/config.h\<close>, \<^verbatim>\<open>src/ethernet.h\<close>, the transmit half of
  \<^verbatim>\<open>src/anp_netdev.c\<close> and the two I/O calls of \<^verbatim>\<open>src/tap_netdev.c\<close>. The TAP device is represented by
  the frames handed to \<^verbatim>\<open>write(2)\<close>, in order (\<open>tap_out\<close>), and by the value that call returns for a
  frame (\<open>tap_ret\<close>), which is the kernel's to choose. The receive half is in \<open>Stack_Rx\<close>, because it
  calls every protocol.
\<close>

section \<open>Configuration and headers\<close>

definition ANP_IP_CLIENT_EXT :: string where "ANP_IP_CLIENT_EXT = ''10.0.0.4''"
definition ANP_IP_LO :: string where "ANP_IP_LO = ''127.0.0.1''"
definition ANP_IP_TAP_DEV :: string where "ANP_IP_TAP_DEV = ''10.0.0.5''"
definition ANP_MAC_CLIENT_LO :: string where "ANP_MAC_CLIENT_LO = ''00:00:00:00:00:00''"
definition ANP_MAC_CLIENT_EXT :: string where "ANP_MAC_CLIENT_EXT = ''de:ad:be:ef:aa:aa''"

abbreviation ANP_MTU_15 :: u32 where "ANP_MTU_15 \<equiv> 1500"
abbreviation ANP_MTU_15_MAX_SIZE :: u32 where "ANP_MTU_15_MAX_SIZE \<equiv> 1522"

text \<open>\<^verbatim>\<open>struct eth_hdr\<close>: \<^verbatim>\<open>dmac\<close> at 0, \<^verbatim>\<open>smac\<close> at 6, \<^verbatim>\<open>ethertype\<close> at 12, 14 bytes.\<close>

abbreviation ETH_HDR_LEN :: u32 where "ETH_HDR_LEN \<equiv> 14"
abbreviation ETH_P_IP :: u16 where "ETH_P_IP \<equiv> 0x0800"
abbreviation ETH_P_ARP :: u16 where "ETH_P_ARP \<equiv> 0x0806"
abbreviation ETH_P_IPV6 :: u16 where "ETH_P_IPV6 \<equiv> 0x86DD"

text \<open>\<open>eth_hdr\<close> turns the ethertype of a received frame around in place and returns the header.\<close>

definition eth_hdr :: "subuff \<Rightarrow> subuff" where
  "eth_hdr sub = sub\<lparr>s_head := put16 (s_head sub) 12 (ntohs (get16 (s_head sub) 12))\<rparr>"

section \<open>Devices\<close>

record netdev_state = heap_state +
  cdev_lo :: "anp_netdev option"
  cdev_ext :: "anp_netdev option"
  tap_out :: "u8 list list"
  tap_ret :: "u8 list \<Rightarrow> int"

text \<open>
  \<^verbatim>\<open>sscanf(hwaddr, "%hhx:%hhx:...")\<close> into a zeroed array of six bytes: hexadecimal numbers modulo
  256, separated by colons; the scan stops at the first mismatch. (The optional blanks, sign and
  \<^verbatim>\<open>0x\<close> that \<^verbatim>\<open>%x\<close> also takes do not occur in the addresses of \<^verbatim>\<open>config.h\<close>.)
\<close>

definition hex_val :: "char \<Rightarrow> nat option" where
  "hex_val c =
     (let n = of_char c
      in if 48 \<le> n \<and> n \<le> 57 then Some (n - 48)
         else if 97 \<le> n \<and> n \<le> 102 then Some (n - 87)
         else if 65 \<le> n \<and> n \<le> 70 then Some (n - 55)
         else None)"

fun scan_mac :: "string \<Rightarrow> nat option \<Rightarrow> u8 list \<Rightarrow> u8 list" where
  "scan_mac [] cur acc = (case cur of None \<Rightarrow> acc | Some n \<Rightarrow> acc @ [word_of_nat n])"
| "scan_mac (c # cs) cur acc =
     (case hex_val c of
        Some d \<Rightarrow> scan_mac cs (Some ((case cur of None \<Rightarrow> 0 | Some n \<Rightarrow> n) * 16 + d)) acc
      | None \<Rightarrow>
          (case cur of
             None \<Rightarrow> acc
           | Some n \<Rightarrow>
               if c = CHR '':'' \<and> length acc < 5 then scan_mac cs None (acc @ [word_of_nat n])
               else acc @ [word_of_nat n]))"

definition sscanf_mac :: "string \<Rightarrow> u8 list" where
  "sscanf_mac s = (let xs = scan_mac s None [] in xs @ replicate (6 - length xs) 0)"

definition netdev_alloc ::
  "string \<Rightarrow> string \<Rightarrow> u32 \<Rightarrow> 'a heap_state_scheme \<Rightarrow> anp_netdev option outcome" where
  "netdev_alloc ip hw mtu w =
     (if oom w then Inr None
      else bindo (ip_str_to_h32 ip) (\<lambda>a.
        Inr (Some \<lparr>dev_addr = a, dev_addr_len = 6, dev_hwaddr = sscanf_mac hw, dev_mtu = mtu\<rparr>)))"

definition client_netdev_init :: "'a netdev_state_scheme \<Rightarrow> 'a netdev_state_scheme outcome" where
  "client_netdev_init w =
     bindo (netdev_alloc ANP_IP_CLIENT_EXT ANP_MAC_CLIENT_EXT ANP_MTU_15 w) (\<lambda>ext.
     bindo (netdev_alloc ANP_IP_LO ANP_MAC_CLIENT_LO ANP_MTU_15 w) (\<lambda>lo.
       Inr (w\<lparr>cdev_ext := ext, cdev_lo := lo\<rparr>)))"

definition netdev_get :: "u32 \<Rightarrow> 'a netdev_state_scheme \<Rightarrow> anp_netdev option outcome" where
  "netdev_get sip w =
     (case cdev_ext w of
        None \<Rightarrow> Inl NullPointer
      | Some dev \<Rightarrow> Inr (if dev_addr dev = sip then Some dev else None))"

definition free_netdev :: "'a netdev_state_scheme \<Rightarrow> 'a netdev_state_scheme" where
  "free_netdev w = w\<lparr>cdev_lo := None, cdev_ext := None\<rparr>"

section \<open>Transmission\<close>

text \<open>\<^verbatim>\<open>tdev_write((char *)sub->data, sub->len)\<close>.\<close>

definition tdev_write :: "subuff \<Rightarrow> 'a netdev_state_scheme \<Rightarrow> (int \<times> 'a netdev_state_scheme) outcome" where
  "tdev_write sub w =
     (if 0 \<le> s_data sub \<and> s_data sub + uint (s_len sub) \<le> int (s_end sub)
      then let frame = get_bytes (s_head sub) (nat (s_data sub)) (unat (s_len sub))
           in Inr (tap_ret w frame, w\<lparr>tap_out := tap_out w @ [frame]\<rparr>)
      else Inl OutOfBounds)"

definition netdev_transmit ::
  "subuff \<Rightarrow> u8 list \<Rightarrow> u16 \<Rightarrow> 'a netdev_state_scheme \<Rightarrow> (int \<times> subuff \<times> 'a netdev_state_scheme) outcome" where
  "netdev_transmit sub dst_hw ethertype w =
     (case s_dev sub of
        None \<Rightarrow> Inl NullPointer
      | Some dev \<Rightarrow>
          let sub = sub_push sub ETH_HDR_LEN; d = nat (s_data sub)
          in if s_data sub < 0 \<or> int (s_end sub) < s_data sub + 14 then Inl OutOfBounds
             else let m = put_bytes (s_head sub) d (take (unat (dev_addr_len dev)) dst_hw);
                      m = put_bytes m (d + 6) (take (unat (dev_addr_len dev)) (dev_hwaddr dev));
                      m = put16 m (d + 12) (htons ethertype);
                      sub = sub\<lparr>s_head := m\<rparr>
                  in bindo (tdev_write sub w) (\<lambda>(ret, w). Inr (ret, sub, w)))"

section \<open>What is transmitted\<close>

definition eth_frame :: "u8 list \<Rightarrow> u8 list \<Rightarrow> u16 \<Rightarrow> u8 list \<Rightarrow> u8 list" where
  "eth_frame dmac smac ethertype body = dmac @ smac @ [byte1 ethertype, byte0 ethertype] @ body"

definition wf_dev :: "anp_netdev \<Rightarrow> bool" where
  "wf_dev dev \<longleftrightarrow> dev_addr_len dev = 6 \<and> length (dev_hwaddr dev) = 6"

definition eth_fill :: "mem \<Rightarrow> nat \<Rightarrow> u8 list \<Rightarrow> u8 list \<Rightarrow> u16 \<Rightarrow> mem" where
  "eth_fill m d dmac smac ethertype = put16 (put_bytes (put_bytes m d dmac) (d + 6) smac) (d + 12) (htons ethertype)"

lemma client_mac: "sscanf_mac ANP_MAC_CLIENT_EXT = [0xde, 0xad, 0xbe, 0xef, 0xaa, 0xaa]"
  by code_simp

lemma lo_mac: "sscanf_mac ANP_MAC_CLIENT_LO = [0, 0, 0, 0, 0, 0]"
  by code_simp

lemma client_ip: "ip_str_to_h32 ANP_IP_CLIENT_EXT = Inr 0x0A000004"
  by (simp add: ANP_IP_CLIENT_EXT_def ip_str_to_h32_def ip_str_to_n32_def inet_pton4_def digit_val_def
      of_char_def Let_def word_unat_eq_iff bswap32_def)

lemma lo_ip: "ip_str_to_h32 ANP_IP_LO = Inr 0x7F000001"
  by (simp add: ANP_IP_LO_def ip_str_to_h32_def ip_str_to_n32_def inet_pton4_def digit_val_def
      of_char_def Let_def word_unat_eq_iff bswap32_def)

lemma tap_ip: "ip_str_to_h32 ANP_IP_TAP_DEV = Inr 0x0A000005"
  by (simp add: ANP_IP_TAP_DEV_def ip_str_to_h32_def ip_str_to_n32_def inet_pton4_def digit_val_def
      of_char_def Let_def word_unat_eq_iff bswap32_def)

lemma client_netdev_init_ok:
  "\<not> oom w \<Longrightarrow> client_netdev_init w =
     Inr (w\<lparr>cdev_ext := Some \<lparr>dev_addr = 0x0A000004, dev_addr_len = 6,
                dev_hwaddr = [0xde, 0xad, 0xbe, 0xef, 0xaa, 0xaa], dev_mtu = 1500\<rparr>,
            cdev_lo := Some \<lparr>dev_addr = 0x7F000001, dev_addr_len = 6,
                dev_hwaddr = [0, 0, 0, 0, 0, 0], dev_mtu = 1500\<rparr>\<rparr>)"
  by (simp add: client_netdev_init_def netdev_alloc_def client_ip lo_ip client_mac lo_mac)

lemma byte_bswap16 [byte_simps]: "byte0 (bswap16 v) = byte1 v" "byte1 (bswap16 v) = byte0 v"
  by (simp_all add: bswap16_def byte_simps)

lemma byte_bswap32 [byte_simps]:
  "byte0 (bswap32 v) = byte3 v" "byte1 (bswap32 v) = byte2 v"
  "byte2 (bswap32 v) = byte1 v" "byte3 (bswap32 v) = byte0 v"
  by (simp_all add: bswap32_def byte_simps)

lemma eth_fill_apply:
  assumes "length dmac = 6" and "length smac = 6"
  shows "eth_fill m d dmac smac et j =
    (if d \<le> j \<and> j < d + 6 then dmac ! (j - d)
     else if d + 6 \<le> j \<and> j < d + 12 then smac ! (j - d - 6)
     else if j = d + 12 then byte1 et else if j = d + 13 then byte0 et else m j)"
  using assms by (auto simp: eth_fill_def put16_def put_bytes_def byte_simps diff_diff_eq)

lemma eth_fill_above: "length dmac = 6 \<Longrightarrow> length smac = 6 \<Longrightarrow> d + 14 \<le> j \<Longrightarrow> eth_fill m d dmac smac et j = m j"
  by (simp add: eth_fill_apply)

lemma eth_fill_frame:
  assumes "length dmac = 6" and "length smac = 6"
  shows "get_bytes (eth_fill m d dmac smac et) d (14 + n) = eth_frame dmac smac et (get_bytes m (d + 14) n)"
proof (rule nth_equalityI)
  show "length (get_bytes (eth_fill m d dmac smac et) d (14 + n))
      = length (eth_frame dmac smac et (get_bytes m (d + 14) n))"
    using assms by (simp add: eth_frame_def)
next
  fix i assume "i < length (get_bytes (eth_fill m d dmac smac et) d (14 + n))"
  then have i: "i < 14 + n" by simp
  consider "i < 6" | "6 \<le> i" "i < 12" | "i = 12" | "i = 13" | "14 \<le> i" by linarith
  then show "get_bytes (eth_fill m d dmac smac et) d (14 + n) ! i
      = eth_frame dmac smac et (get_bytes m (d + 14) n) ! i"
    using assms i
    by cases (auto simp: eth_fill_apply eth_frame_def nth_append nth_Cons' diff_less_mono)
qed

lemma unat_add_small: "unat (a :: u32) + unat b < 4294967296 \<Longrightarrow> unat (a + b) = unat a + unat b"
  by (simp add: unat_word_ariths)

text \<open>A buffer with room for the Ethernet header is written out as one Ethernet frame.\<close>

lemma netdev_transmit_ok:
  fixes et :: u16
  assumes dev: "s_dev sub = Some dev" "wf_dev dev" and dst: "length dst = 6"
    and room: "14 \<le> s_data sub" "s_data sub + int (unat (s_len sub)) \<le> int (s_end sub)"
    and len: "unat (s_len sub) + 14 < 4294967296"
  defines "frame \<equiv> eth_frame dst (dev_hwaddr dev) et (get_bytes (s_head sub) (nat (s_data sub)) (unat (s_len sub)))"
  shows "netdev_transmit sub dst et w =
    Inr (tap_ret w frame,
         (sub_push sub 14)\<lparr>s_head := eth_fill (s_head sub) (nat (s_data sub) - 14) dst (dev_hwaddr dev) et\<rparr>,
         w\<lparr>tap_out := tap_out w @ [frame]\<rparr>)"
proof -
  obtain d where d: "s_data sub = int d + 14"
    using room(1) by (metis add.commute zero_le_imp_eq_int diff_ge_0_iff_ge diff_add_cancel)
  then have n: "nat (s_data sub) = d + 14" "nat (s_data sub - 14) = d" by simp_all
  have l: "unat (s_len sub + 14) = 14 + unat (s_len sub)"
    using len by (simp add: unat_word_ariths)
  then have u: "uint (s_len sub + 14) = 14 + int (unat (s_len sub))"
    unfolding uint_nat by (simp only: of_nat_add of_nat_numeral)
  let ?sub = "(sub_push sub 14)\<lparr>s_head := eth_fill (s_head sub) d dst (dev_hwaddr dev) et\<rparr>"
  have f: "get_bytes (eth_fill (s_head sub) d dst (dev_hwaddr dev) et) d (14 + unat (s_len sub)) = frame"
    unfolding frame_def n using dst dev(2) by (subst eth_fill_frame) (simp_all add: wf_dev_def)
  have t: "tdev_write ?sub w = Inr (tap_ret w frame, w\<lparr>tap_out := tap_out w @ [frame]\<rparr>)"
    using room d by (simp add: tdev_write_def l u f)
  have a: "unat (dev_addr_len dev) = 6" "take 6 (dev_hwaddr dev) = dev_hwaddr dev" "take 6 dst = dst"
    using dev(2) dst by (simp_all add: wf_dev_def)
  have e: "int d + 14 \<le> int (s_end sub)" using room(2) d by linarith
  have r: "\<not> s_data (sub_push sub 14) < 0" "\<not> int (s_end (sub_push sub 14)) < s_data (sub_push sub 14) + 14"
    "nat (s_data (sub_push sub 14)) = d"
    using d e by simp_all
  show ?thesis
    unfolding netdev_transmit_def Let_def dev(1) option.case r if_False a n(1)
    using t d e by (simp add: eth_fill_def)
qed

lemma free_sub_simps [simp]:
  "cdev_lo (free_sub sub w) = cdev_lo w"
  "cdev_ext (free_sub sub w) = cdev_ext w"
  "tap_out (free_sub sub w) = tap_out w"
  "tap_ret (free_sub sub w) = tap_ret w"
  "oom (free_sub sub w) = oom w"
  by (simp_all add: free_sub_def)

end
