(* ===== verification/Arp.thy ===== *)
theory Arp
  imports Netdev
begin

text \<open>
  The address resolution protocol of \<^verbatim>\<open>src/arp.c\<close> and \<^verbatim>\<open>src/arp.h\<close>. The state adds the ARP cache,
  the contents of the ring \<open>arp_cache\<close> in order. Packets are read and written in the buffer of the
  frame, field by field, at the offsets of \<open>struct arp_hdr\<close> (14: hwtype, 16: protype, 18: hwsize,
  19: prosize, 20: opcode) and of \<open>struct arp_ipv4\<close> (22: source MAC, 28: source IP, 32: target MAC,
  38: target IP).

  The locale \<open>neighbour_cache\<close> is the contract the IP layer relies on: what a lookup returns after
  an announcement has been processed.
\<close>

section \<open>Packets and cache\<close>

abbreviation ARP_ETHERNET :: u16 where "ARP_ETHERNET \<equiv> 0x0001"
abbreviation ARP_IPV4 :: u16 where "ARP_IPV4 \<equiv> 0x0800"
abbreviation ARP_REQUEST :: u16 where "ARP_REQUEST \<equiv> 0x0001"
abbreviation ARP_REPLY :: u16 where "ARP_REPLY \<equiv> 0x0002"
abbreviation ARP_RESOLVED :: u32 where "ARP_RESOLVED \<equiv> 2"
abbreviation ARP_HDR_LEN :: u32 where "ARP_HDR_LEN \<equiv> 8"
abbreviation ARP_DATA_LEN :: u32 where "ARP_DATA_LEN \<equiv> 20"

definition broadcast_hw :: "u8 list" where
  "broadcast_hw = [0xff, 0xff, 0xff, 0xff, 0xff, 0xff]"

record arp_ipv4 =
  ar_src_mac :: "u8 list"
  ar_src_ip :: u32
  ar_dst_mac :: "u8 list"
  ar_dst_ip :: u32

record arp_cache_entry =
  ace_state :: u32
  ace_arp :: arp_ipv4

record arp_state = netdev_state +
  arp_cache :: "arp_cache_entry list"

text \<open>\<^verbatim>\<open>(struct arp_ipv4 *) &arphdr->data\<close>: the fields as they stand in the buffer.\<close>

definition arp_data :: "mem \<Rightarrow> arp_ipv4" where
  "arp_data m = \<lparr>ar_src_mac = get_bytes m 22 6, ar_src_ip = get32 m 28,
                 ar_dst_mac = get_bytes m 32 6, ar_dst_ip = get32 m 38\<rparr>"

section \<open>The cache\<close>

text \<open>The loop of \<open>process_arp_entry\<close>: \<open>Some\<close> if an entry was updated.\<close>

fun update_arp_entry :: "arp_ipv4 \<Rightarrow> arp_cache_entry list \<Rightarrow> arp_cache_entry list option" where
  "update_arp_entry d [] = None"
| "update_arp_entry d (e # es) =
     (if ar_src_ip (ace_arp e) = ar_src_ip d
      then Some (e\<lparr>ace_arp := (ace_arp e)\<lparr>ar_src_mac := ar_src_mac d\<rparr>\<rparr> # es)
      else map_option ((#) e) (update_arp_entry d es))"

definition process_arp_entry :: "arp_ipv4 \<Rightarrow> 'a arp_state_scheme \<Rightarrow> 'a arp_state_scheme outcome" where
  "process_arp_entry d w =
     (case update_arp_entry d (arp_cache w) of
        Some es \<Rightarrow> Inr (w\<lparr>arp_cache := es\<rparr>)
      | None \<Rightarrow>
          if oom w then Inl NullPointer
          else Inr (w\<lparr>arp_cache := arp_cache w @ [\<lparr>ace_state = ARP_RESOLVED, ace_arp = d\<rparr>]\<rparr>))"

fun find_hwaddr :: "arp_cache_entry list \<Rightarrow> u32 \<Rightarrow> u8 list option" where
  "find_hwaddr [] ip = None"
| "find_hwaddr (e # es) ip =
     (if ace_state e = ARP_RESOLVED \<and> ar_src_ip (ace_arp e) = ip
      then Some (ar_src_mac (ace_arp e)) else find_hwaddr es ip)"

definition arp_get_hwaddr :: "u32 \<Rightarrow> 'a arp_state_scheme \<Rightarrow> u8 list option" where
  "arp_get_hwaddr lookup_ip w = find_hwaddr (arp_cache w) lookup_ip"

definition free_arp_cache :: "'a arp_state_scheme \<Rightarrow> 'a arp_state_scheme" where
  "free_arp_cache w = w\<lparr>arp_cache := []\<rparr>"

section \<open>Requests and replies\<close>

definition alloc_arp_sub :: "'a arp_state_scheme \<Rightarrow> (subuff \<times> 'a arp_state_scheme) outcome" where
  "alloc_arp_sub w =
     bindo (alloc_sub (ETH_HDR_LEN + ARP_HDR_LEN + ARP_DATA_LEN) w) (\<lambda>(sub, w).
       Inr ((sub_reserve sub (ETH_HDR_LEN + ARP_HDR_LEN + ARP_DATA_LEN))\<lparr>s_protocol := htons ETH_P_ARP\<rparr>, w))"

definition arp_request ::
  "u32 \<Rightarrow> u32 \<Rightarrow> anp_netdev \<Rightarrow> 'a arp_state_scheme \<Rightarrow> (int \<times> 'a arp_state_scheme) outcome" where
  "arp_request src_ip dst_ip netdev w =
     bindo (alloc_arp_sub w) (\<lambda>(sub, w).
       let al = unat (dev_addr_len netdev);
           sub = sub_push (sub\<lparr>s_dev := Some netdev\<rparr>) ARP_DATA_LEN;
           p = nat (s_data sub);
           m = put_bytes (s_head sub) (p + 10) (take al broadcast_hw);
           m = put32 m (p + 16) dst_ip;
           m = put_bytes m p (take al (dev_hwaddr netdev));
           m = put32 m (p + 6) src_ip;
           sub = sub_push (sub\<lparr>s_head := m\<rparr>) ARP_HDR_LEN;
           a = nat (s_data sub);
           m = put16 (s_head sub) (a + 6) (htons ARP_REQUEST);
           m = put16 m a (htons ARP_ETHERNET);
           m = put16 m (a + 2) (htons ETH_P_IP);
           m = m(a + 4 := dev_addr_len netdev);
           m = m(a + 5 := 4);
           m = put32 m (p + 6) (htonl (get32 m (p + 6)));
           m = put32 m (p + 16) (htonl (get32 m (p + 16)));
           sub = sub\<lparr>s_head := m\<rparr>
       in bindo (netdev_transmit sub broadcast_hw ETH_P_ARP w) (\<lambda>(rc, sub, w).
            Inr (rc, free_sub sub w)))"

text \<open>The stores of \<open>arp_reply\<close> into the packet, in order.\<close>

definition arp_reply_mem :: "mem \<Rightarrow> anp_netdev \<Rightarrow> mem" where
  "arp_reply_mem m netdev =
     (let m = put_bytes m 32 (get_bytes m 22 6);
          m = put32 m 38 (get32 m 28);
          m = put_bytes m 22 (take 6 (dev_hwaddr netdev));
          m = put32 m 28 (dev_addr netdev);
          m = put16 m 20 ARP_REPLY;
          m = put16 m 20 (htons (get16 m 20));
          m = put16 m 14 (htons (get16 m 14));
          m = put16 m 16 (htons (get16 m 16));
          m = put32 m 28 (htonl (get32 m 28))
      in put32 m 38 (htonl (get32 m 38)))"

definition arp_reply :: "subuff \<Rightarrow> anp_netdev \<Rightarrow> 'a arp_state_scheme \<Rightarrow> 'a arp_state_scheme outcome" where
  "arp_reply sub netdev w =
     (let sub = sub_reserve sub (ETH_HDR_LEN + ARP_HDR_LEN + ARP_DATA_LEN);
          sub = sub_push sub (ARP_HDR_LEN + ARP_DATA_LEN);
          m = arp_reply_mem (s_head sub) netdev;
          sub = sub\<lparr>s_head := m, s_dev := Some netdev\<rparr>
      in bindo (netdev_transmit sub (get_bytes m 32 6) ETH_P_ARP w) (\<lambda>(rc, sub, w).
           Inr (free_sub sub w)))"

text \<open>\<open>arp_rx\<close> turns the header fields, and later the two addresses, into host order in place.\<close>

definition arp_hdr_to_host :: "mem \<Rightarrow> mem" where
  "arp_hdr_to_host m =
     (let m = put16 m 14 (ntohs (get16 m 14));
          m = put16 m 16 (ntohs (get16 m 16))
      in put16 m 20 (ntohs (get16 m 20)))"

definition arp_data_to_host :: "mem \<Rightarrow> mem" where
  "arp_data_to_host m =
     (let m = put32 m 28 (ntohl (get32 m 28))
      in put32 m 38 (ntohl (get32 m 38)))"

definition arp_rx :: "subuff \<Rightarrow> 'a arp_state_scheme \<Rightarrow> 'a arp_state_scheme outcome" where
  "arp_rx skb w =
     (let skb = skb\<lparr>s_head := arp_hdr_to_host (s_head skb)\<rparr>
      in if get16 (s_head skb) 14 \<noteq> ARP_ETHERNET then Inr (free_sub skb w)
         else if get16 (s_head skb) 16 \<noteq> ARP_IPV4 then Inr (free_sub skb w)
         else
           let skb = skb\<lparr>s_head := arp_data_to_host (s_head skb)\<rparr>;
               arpdata = arp_data (s_head skb)
           in bindo (process_arp_entry arpdata w) (\<lambda>w.
                if get16 (s_head skb) 20 = ARP_REQUEST then
                  bindo (netdev_get (ar_dst_ip arpdata) w) (\<lambda>netdev.
                    case netdev of
                      None \<Rightarrow> Inr (free_sub skb w)
                    | Some netdev \<Rightarrow> arp_reply skb netdev w)
                else if get16 (s_head skb) 20 = ARP_REPLY then Inr (free_sub skb w)
                else Inr (free_sub skb w)))"

section \<open>The cache as a map\<close>

definition cache_wf :: "arp_cache_entry list \<Rightarrow> bool" where
  "cache_wf es \<longleftrightarrow> distinct (map (ar_src_ip \<circ> ace_arp) es) \<and> list_all (\<lambda>e. ace_state e = ARP_RESOLVED) es"

definition learn :: "arp_ipv4 \<Rightarrow> arp_cache_entry list \<Rightarrow> arp_cache_entry list" where
  "learn d es = (case update_arp_entry d es of
     Some es' \<Rightarrow> es' | None \<Rightarrow> es @ [\<lparr>ace_state = ARP_RESOLVED, ace_arp = d\<rparr>])"

lemma process_arp_entry_learn: "\<not> oom w \<Longrightarrow> process_arp_entry d w = Inr (w\<lparr>arp_cache := learn d (arp_cache w)\<rparr>)"
  by (simp add: process_arp_entry_def learn_def split: option.splits)

lemma update_None_iff: "update_arp_entry d es = None \<longleftrightarrow> ar_src_ip d \<notin> set (map (ar_src_ip \<circ> ace_arp) es)"
  by (induction es) auto

lemma update_keys:
  "update_arp_entry d es = Some es' \<Longrightarrow>
     map (ar_src_ip \<circ> ace_arp) es' = map (ar_src_ip \<circ> ace_arp) es
   \<and> map ace_state es' = map ace_state es"
  by (induction es arbitrary: es') (auto split: if_splits)

lemma update_find:
  "update_arp_entry d es = Some es' \<Longrightarrow> list_all (\<lambda>e. ace_state e = ARP_RESOLVED) es \<Longrightarrow>
   find_hwaddr es' ip = (if ip = ar_src_ip d then Some (ar_src_mac d) else find_hwaddr es ip)"
  by (induction es arbitrary: es') (auto split: if_splits)

lemma find_append:
  "find_hwaddr (es @ [\<lparr>ace_state = ARP_RESOLVED, ace_arp = d\<rparr>]) ip =
     (case find_hwaddr es ip of Some x \<Rightarrow> Some x
      | None \<Rightarrow> if ip = ar_src_ip d then Some (ar_src_mac d) else None)"
  by (induction es) auto

lemma find_None_notin: "ip \<notin> set (map (ar_src_ip \<circ> ace_arp) es) \<Longrightarrow> find_hwaddr es ip = None"
  by (induction es) auto

lemma cache_wf_learn:
  assumes "cache_wf es"
  shows "cache_wf (learn d es)"
proof (cases "update_arp_entry d es")
  case None
  then have "ar_src_ip d \<notin> set (map (ar_src_ip \<circ> ace_arp) es)" by (rule update_None_iff [THEN iffD1])
  with None assms show ?thesis by (auto simp: cache_wf_def learn_def)
next
  case (Some es')
  then have k: "map (ar_src_ip \<circ> ace_arp) es' = map (ar_src_ip \<circ> ace_arp) es"
    and s: "map ace_state es' = map ace_state es" using update_keys by blast+
  have "list_all (\<lambda>e. ace_state e = ARP_RESOLVED) es' = list_all (\<lambda>s. s = ARP_RESOLVED) (map ace_state es')"
    by (simp add: list_all_iff)
  with k s Some assms show ?thesis by (simp add: cache_wf_def learn_def list_all_iff)
qed

lemma find_learn:
  assumes "cache_wf es"
  shows "find_hwaddr (learn d es) ip = (if ip = ar_src_ip d then Some (ar_src_mac d) else find_hwaddr es ip)"
proof (cases "update_arp_entry d es")
  case None
  then have "find_hwaddr es (ar_src_ip d) = None" by (intro find_None_notin update_None_iff [THEN iffD1])
  with None show ?thesis by (auto simp: learn_def find_append split: option.splits)
next
  case (Some es')
  with assms show ?thesis by (simp add: learn_def update_find cache_wf_def)
qed

text \<open>The interface towards the IP layer: a table of neighbours that learns announcements.\<close>

locale neighbour_cache =
  fixes empty :: 'c
    and announce :: "'k \<Rightarrow> 'v \<Rightarrow> 'c \<Rightarrow> 'c"
    and lookup :: "'c \<Rightarrow> 'k \<Rightarrow> 'v option"
    and invar :: "'c \<Rightarrow> bool"
  assumes invar_empty: "invar empty"
    and invar_announce: "invar c \<Longrightarrow> invar (announce k v c)"
    and lookup_empty: "lookup empty k = None"
    and lookup_announce: "invar c \<Longrightarrow> lookup (announce k v c) k' = (if k' = k then Some v else lookup c k')"
begin

lemma invar_history: "invar (fold (\<lambda>(k, v). announce k v) kvs empty)"
proof -
  have "invar c \<Longrightarrow> invar (fold (\<lambda>(k, v). announce k v) kvs c)" for c
    by (induction kvs arbitrary: c) (auto intro: invar_announce)
  then show ?thesis by (simp add: invar_empty)
qed

text \<open>After any history of announcements a lookup returns what was announced last.\<close>

lemma lookup_history: "lookup (fold (\<lambda>(k, v). announce k v) kvs empty) k = map_of (rev kvs) k"
proof (induction kvs rule: rev_induct)
  case Nil
  then show ?case by (simp add: lookup_empty)
next
  case (snoc kv kvs)
  then show ?case
    using lookup_announce [OF invar_history] by (cases kv) auto
qed

end

interpretation arp_neighbours: neighbour_cache "[]"
  "\<lambda>ip mac. learn \<lparr>ar_src_mac = mac, ar_src_ip = ip, ar_dst_mac = dm, ar_dst_ip = di\<rparr>"
  find_hwaddr cache_wf
  for dm di
  by unfold_locales (simp_all add: cache_wf_learn find_learn, simp add: cache_wf_def)

section \<open>What goes over the wire\<close>

definition be32 :: "u32 \<Rightarrow> u8 list" where
  "be32 w = [byte3 w, byte2 w, byte1 w, byte0 w]"

definition arp_packet :: "u16 \<Rightarrow> u8 \<Rightarrow> u8 \<Rightarrow> u8 list \<Rightarrow> u32 \<Rightarrow> u8 list \<Rightarrow> u32 \<Rightarrow> u8 list" where
  "arp_packet op hwsize prosize smac sip dmac dip =
     [0, 1, 8, 0, hwsize, prosize, byte1 op, byte0 op] @ smac @ be32 sip @ dmac @ be32 dip"

lemma length_6E:
  assumes "length xs = 6"
  obtains a b c d e f where "xs = [a, b, c, d, e, f]"
  using assms by (auto simp: numeral_eq_Suc length_Suc_conv)

lemma get_bytes_6: "get_bytes m i 6 = [m i, m (i + 1), m (i + 2), m (i + 3), m (i + 4), m (i + 5)]"
  by (rule nth_equalityI) (auto simp: less_Suc_eq numeral_eq_Suc)

lemma put_bytes_6:
  "put_bytes m i [a, b, c, d, e, f] =
     m(i := a, i + 1 := b, i + 2 := c, i + 3 := d, i + 4 := e, i + 5 := f)"
  by (rule ext) (auto simp: put_bytes_def nth_Cons split: nat.splits)

lemma get32_bytes: "get32 m i = le32 (m i) (m (i + 1)) (m (i + 2)) (m (i + 3))"
  by (simp add: get32_def)

lemma get_bytes_28:
  "get_bytes m 14 28 = [m 14, m 15, m 16, m 17, m 18, m 19, m 20, m 21, m 22, m 23, m 24, m 25, m 26,
     m 27, m 28, m 29, m 30, m 31, m 32, m 33, m 34, m 35, m 36, m 37, m 38, m 39, m 40, m 41]"
  by (simp add: get_bytes_def)

lemma arp_consts:
  "byte0 (1 :: u16) = 1" "byte1 (1 :: u16) = 0" "byte0 (2 :: u16) = 2" "byte1 (2 :: u16) = 0"
  "byte0 (0x0800 :: u16) = 0" "byte1 (0x0800 :: u16) = 8"
  by (simp_all add: byte0_def byte1_def)

lemmas packet_simps = put16_def put32_def get16_def get32_def get_bytes_6 put_bytes_6 byte_simps

definition arp_request_frame :: "u32 \<Rightarrow> u32 \<Rightarrow> anp_netdev \<Rightarrow> u8 list" where
  "arp_request_frame src dst dev = eth_frame broadcast_hw (dev_hwaddr dev) ETH_P_ARP
     (arp_packet ARP_REQUEST 6 4 (dev_hwaddr dev) src broadcast_hw dst)"

lemma arp_request_ok:
  assumes "\<not> oom w" and "wf_dev dev"
  shows "arp_request src dst dev w =
    Inr (tap_ret w (arp_request_frame src dst dev), w\<lparr>tap_out := tap_out w @ [arp_request_frame src dst dev]\<rparr>)"
proof -
  obtain a b c d e f where hw: "dev_hwaddr dev = [a, b, c, d, e, f]"
    using assms(2) by (auto simp: wf_dev_def elim: length_6E)
  have al: "dev_addr_len dev = 6" using assms(2) by (simp add: wf_dev_def)
  show ?thesis
    using assms(1,2)
    by (simp add: arp_request_def alloc_arp_sub_def alloc_sub_def netdev_transmit_ok broadcast_hw_def
        hw al arp_request_frame_def free_sub_def get_bytes_28 packet_simps arp_packet_def be32_def arp_consts)
qed

definition arp_reply_frame :: "anp_netdev \<Rightarrow> u8 \<Rightarrow> u8 \<Rightarrow> u8 list \<Rightarrow> u32 \<Rightarrow> u8 list" where
  "arp_reply_frame dev hwsize prosize mac ip = eth_frame mac (dev_hwaddr dev) ETH_P_ARP
     (arp_packet ARP_REPLY hwsize prosize (dev_hwaddr dev) (dev_addr dev) mac ip)"

lemma arp_reply_mem_packet:
  assumes "get16 m 14 = ARP_ETHERNET" and "get16 m 16 = ARP_IPV4" and "length (dev_hwaddr dev) = 6"
  shows "get_bytes (arp_reply_mem m dev) 14 28 =
      arp_packet ARP_REPLY (m 18) (m 19) (dev_hwaddr dev) (dev_addr dev) (get_bytes m 22 6) (get32 m 28)"
    and "get_bytes (arp_reply_mem m dev) 32 6 = get_bytes m 22 6"
proof -
  obtain a b c d e f where hw: "dev_hwaddr dev = [a, b, c, d, e, f]"
    using assms(3) by (auto elim: length_6E)
  have "byte0 (get16 m 14) = 1" "byte1 (get16 m 14) = 0" "byte0 (get16 m 16) = 0" "byte1 (get16 m 16) = 8"
    using assms(1,2) by (simp_all add: arp_consts)
  then have b: "m 14 = 1" "m 15 = 0" "m 16 = 0" "m 17 = 8"
    by (simp_all add: get16_def byte_simps)
  show "get_bytes (arp_reply_mem m dev) 14 28 =
      arp_packet ARP_REPLY (m 18) (m 19) (dev_hwaddr dev) (dev_addr dev) (get_bytes m 22 6) (get32 m 28)"
    by (simp add: arp_reply_mem_def Let_def hw get_bytes_28 packet_simps arp_packet_def be32_def arp_consts b)
  show "get_bytes (arp_reply_mem m dev) 32 6 = get_bytes m 22 6"
    by (simp add: arp_reply_mem_def Let_def hw packet_simps)
qed

lemma arp_reply_ok:
  assumes "s_data sub = 0" and "s_len sub = 0" and "42 \<le> s_end sub" and "wf_dev dev"
    and "get16 (s_head sub) 14 = ARP_ETHERNET" and "get16 (s_head sub) 16 = ARP_IPV4"
  shows "arp_reply sub dev w =
    Inr (free_sub sub (w\<lparr>tap_out := tap_out w @ [arp_reply_frame dev (s_head sub 18) (s_head sub 19)
      (get_bytes (s_head sub) 22 6) (get32 (s_head sub) 28)]\<rparr>))"
proof -
  let ?m = "s_head sub"
  let ?sub = "(sub_push (sub_reserve sub 42) 28)\<lparr>s_head := arp_reply_mem ?m dev, s_dev := Some dev\<rparr>"
  have "arp_reply sub dev w = bindo (netdev_transmit ?sub (get_bytes (arp_reply_mem ?m dev) 32 6) ETH_P_ARP w)
      (\<lambda>(rc, sub, w). Inr (free_sub sub w))"
    by (simp add: arp_reply_def Let_def)
  moreover have "length (dev_hwaddr dev) = 6" using assms(4) by (simp add: wf_dev_def)
  ultimately show ?thesis
    using assms by (simp add: netdev_transmit_ok arp_reply_mem_packet arp_reply_frame_def free_sub_def)
qed

section \<open>Reception\<close>

lemma arp_hdr_to_host_fields [simp]:
  "get16 (arp_hdr_to_host m) 14 = ntohs (get16 m 14)"
  "get16 (arp_hdr_to_host m) 16 = ntohs (get16 m 16)"
  "get16 (arp_hdr_to_host m) 20 = ntohs (get16 m 20)"
  "get32 (arp_hdr_to_host m) 28 = get32 m 28"
  "get32 (arp_hdr_to_host m) 38 = get32 m 38"
  "arp_hdr_to_host m 18 = m 18"
  "arp_hdr_to_host m 19 = m 19"
  "get_bytes (arp_hdr_to_host m) 22 6 = get_bytes m 22 6"
  "get_bytes (arp_hdr_to_host m) 32 6 = get_bytes m 32 6"
  by (simp_all add: arp_hdr_to_host_def Let_def byte_simps get_bytes_6)

lemma arp_data_to_host_fields [simp]:
  "get16 (arp_data_to_host m) 14 = get16 m 14"
  "get16 (arp_data_to_host m) 16 = get16 m 16"
  "get16 (arp_data_to_host m) 20 = get16 m 20"
  "get32 (arp_data_to_host m) 28 = ntohl (get32 m 28)"
  "get32 (arp_data_to_host m) 38 = ntohl (get32 m 38)"
  "arp_data_to_host m 18 = m 18"
  "arp_data_to_host m 19 = m 19"
  "get_bytes (arp_data_to_host m) 22 6 = get_bytes m 22 6"
  "get_bytes (arp_data_to_host m) 32 6 = get_bytes m 32 6"
  by (simp_all add: arp_data_to_host_def Let_def byte_simps get_bytes_6)

definition arp_sender :: "mem \<Rightarrow> arp_ipv4" where
  "arp_sender m = \<lparr>ar_src_mac = get_bytes m 22 6, ar_src_ip = ntohl (get32 m 28),
                   ar_dst_mac = get_bytes m 32 6, ar_dst_ip = ntohl (get32 m 38)\<rparr>"

lemma arp_data_rx: "arp_data (arp_data_to_host (arp_hdr_to_host m)) = arp_sender m"
  by (simp add: arp_data_def arp_sender_def)

definition arp_wf_packet :: "mem \<Rightarrow> bool" where
  "arp_wf_packet m \<longleftrightarrow> get16 m 14 = htons ARP_ETHERNET \<and> get16 m 16 = htons ARP_IPV4"

lemma bswap16_swap: "bswap16 a = b \<longleftrightarrow> a = bswap16 b"
  by auto

lemma arp_wf_packet_host: "arp_wf_packet m \<longleftrightarrow> ntohs (get16 m 14) = ARP_ETHERNET \<and> ntohs (get16 m 16) = ARP_IPV4"
  by (simp only: arp_wf_packet_def bswap16_swap)

lemma free_sub_any: "free_sub sub = free_sub sub'"
  by (rule ext) (simp add: free_sub_def)

lemma arp_rx_malformed: "\<not> arp_wf_packet (s_head skb) \<Longrightarrow> arp_rx skb w = Inr (free_sub skb w)"
  by (auto simp: arp_rx_def Let_def arp_wf_packet_host free_sub_def)

lemma arp_rx_wf:
  assumes "arp_wf_packet (s_head skb)" and "\<not> oom w" and "cdev_ext w = Some dev"
  shows "arp_rx skb w =
     (let w' = w\<lparr>arp_cache := learn (arp_sender (s_head skb)) (arp_cache w)\<rparr>
      in if ntohs (get16 (s_head skb) 20) = ARP_REQUEST \<and> dev_addr dev = ntohl (get32 (s_head skb) 38)
         then arp_reply (skb\<lparr>s_head := arp_data_to_host (arp_hdr_to_host (s_head skb))\<rparr>) dev w'
         else Inr (free_sub skb w'))"
  using assms
  by (simp add: arp_rx_def Let_def arp_wf_packet_host process_arp_entry_learn arp_data_rx netdev_get_def
      free_sub_def arp_sender_def)

section \<open>Properties\<close>

text \<open>C15. Every well-formed ARP packet, request or reply, teaches the cache the sender's address:
  afterwards a lookup of the sender's IP returns the sender's MAC, every other lookup is
  unchanged, and the cache still has at most one, resolved entry per address.\<close>

theorem arp_rx_learns:
  assumes "arp_wf_packet (s_head skb)" and "\<not> oom w" and "cdev_ext w = Some dev"
    and "cache_wf (arp_cache w)" and "arp_rx skb w = Inr w'"
  shows "arp_get_hwaddr ip w' = (if ip = ntohl (get32 (s_head skb) 28)
           then Some (get_bytes (s_head skb) 22 6) else arp_get_hwaddr ip w)
         \<and> cache_wf (arp_cache w')"
proof -
  have "arp_cache w' = learn (arp_sender (s_head skb)) (arp_cache w)"
    using assms(5) unfolding arp_rx_wf [OF assms(1-3)]
    by (auto simp: Let_def free_sub_def arp_reply_def netdev_transmit_def tdev_write_def
        split: if_splits option.splits)
  then show ?thesis
    using cache_wf_learn find_learn assms(4) by (simp add: arp_get_hwaddr_def arp_sender_def)
qed

text \<open>C16. A request for the address of the external device is answered with exactly one frame, the
  ARP reply that binds the device's IP to its MAC, sent to the requester; the request's buffer
  is released.\<close>

theorem arp_rx_answers:
  assumes "arp_wf_packet (s_head skb)" and "get16 (s_head skb) 20 = htons ARP_REQUEST"
    and "get32 (s_head skb) 38 = htonl (dev_addr dev)"
    and "s_data skb = 0" and "s_len skb = 0" and "42 \<le> s_end skb"
    and "\<not> oom w" and "cdev_ext w = Some dev" and "wf_dev dev"
  shows "arp_rx skb w =
    Inr (w\<lparr>arp_cache := learn (arp_sender (s_head skb)) (arp_cache w),
           tap_out := tap_out w @ [arp_reply_frame dev (s_head skb 18) (s_head skb 19)
             (get_bytes (s_head skb) 22 6) (ntohl (get32 (s_head skb) 28))],
           live_subs := live_subs w - 1, live_bufs := live_bufs w - 1\<rparr>)"
  unfolding arp_rx_wf [OF assms(1,7,8)]
  using assms by (simp add: Let_def arp_reply_ok arp_wf_packet_def free_sub_def)

text \<open>A packet from 10.0.0.5 (aa:bb:cc:dd:ee:ff) for 10.0.0.4.\<close>

definition sample_arp_packet :: "u16 \<Rightarrow> u8 list" where
  "sample_arp_packet op = eth_frame broadcast_hw [0xaa, 0xbb, 0xcc, 0xdd, 0xee, 0xff] ETH_P_ARP
     (arp_packet op 6 4 [0xaa, 0xbb, 0xcc, 0xdd, 0xee, 0xff] 0x0A000005 [0, 0, 0, 0, 0, 0] 0x0A000004)"

definition sample_dev :: anp_netdev where
  "sample_dev = \<lparr>dev_addr = 0x0A000004, dev_addr_len = 6,
     dev_hwaddr = [0xde, 0xad, 0xbe, 0xef, 0xaa, 0xaa], dev_mtu = 1500\<rparr>"

definition sample_arp_state :: arp_state where
  "sample_arp_state = \<lparr>live_subs = 1, live_bufs = 1, oom = False, cdev_lo = None, cdev_ext = Some sample_dev,
     tap_out = [], tap_ret = (\<lambda>f. int (length f)), arp_cache = []\<rparr>"

lemma sample_arp_facts:
  "arp_wf_packet (s_head (rx_sub 1522 (sample_arp_packet op)))"
  "get16 (s_head (rx_sub 1522 (sample_arp_packet op))) 20 = htons op"
  "get32 (s_head (rx_sub 1522 (sample_arp_packet op))) 38 = htonl 0x0A000004"
  "get32 (s_head (rx_sub 1522 (sample_arp_packet op))) 28 = htonl 0x0A000005"
  "get_bytes (s_head (rx_sub 1522 (sample_arp_packet op))) 22 6 = [0xaa, 0xbb, 0xcc, 0xdd, 0xee, 0xff]"
  by (simp_all add: arp_wf_packet_def rx_sub_def sample_arp_packet_def eth_frame_def arp_packet_def be32_def
      broadcast_hw_def put_bytes_def get16_def get32_def get_bytes_6 bswap16_def bswap32_def arp_consts)

lemma sample_dev_simps [simp]: "wf_dev sample_dev" "dev_addr sample_dev = 0x0A000004"
  by (simp_all add: wf_dev_def sample_dev_def)

lemma sample_arp_state_simps [simp]:
  "\<not> oom sample_arp_state" "cdev_ext sample_arp_state = Some sample_dev" "arp_cache sample_arp_state = []"
  by (simp_all add: sample_arp_state_def)

lemma sample_arp_reply_rx:
  "arp_rx (rx_sub 1522 (sample_arp_packet ARP_REPLY)) sample_arp_state =
     Inr (free_sub (rx_sub 1522 (sample_arp_packet ARP_REPLY)) (sample_arp_state\<lparr>arp_cache :=
       learn (arp_sender (s_head (rx_sub 1522 (sample_arp_packet ARP_REPLY)))) []\<rparr>))"
  by (subst arp_rx_wf [where dev = sample_dev]) (simp_all add: sample_arp_facts)

theorem arp_rx_learns_witness:
  "\<exists>w'. arp_rx (rx_sub 1522 (sample_arp_packet ARP_REPLY)) sample_arp_state = Inr w'
     \<and> arp_get_hwaddr 0x0A000005 w' = Some [0xaa, 0xbb, 0xcc, 0xdd, 0xee, 0xff]"
  using arp_rx_learns [where ip = "0x0A000005" and dev = sample_dev, OF sample_arp_facts(1) _ _ _ sample_arp_reply_rx]
    sample_arp_reply_rx
  by (simp add: sample_arp_facts cache_wf_def)

theorem arp_rx_answers_witness:
  "\<exists>w'. arp_rx (rx_sub 1522 (sample_arp_packet ARP_REQUEST)) sample_arp_state = Inr w'
     \<and> tap_out w' = [arp_reply_frame sample_dev 6 4 [0xaa, 0xbb, 0xcc, 0xdd, 0xee, 0xff] 0x0A000005]"
proof -
  let ?skb = "rx_sub 1522 (sample_arp_packet ARP_REQUEST)"
  have b: "s_head ?skb 18 = 6" "s_head ?skb 19 = 4"
    by (simp_all add: rx_sub_def sample_arp_packet_def eth_frame_def arp_packet_def broadcast_hw_def put_bytes_def)
  have "s_data ?skb = 0" "s_len ?skb = 0" "42 \<le> s_end ?skb" by (simp_all add: rx_sub_def)
  then show ?thesis
    using arp_rx_answers [OF sample_arp_facts(1,2), of sample_dev sample_arp_state]
    by (simp add: sample_arp_facts b sample_arp_state_def)
qed

end
