(* ===== verification/Route.thy ===== *)
theory Route
  imports Arp
begin

text \<open>
  The route cache of \<^verbatim>\<open>src/route.c\<close>: the state adds the contents of the ring \<open>routes\<close>. The lookup loop
  returns the first matching entry, and the last entry of the table when none matches.

  The locale \<open>forwarding_table\<close> states what a first-match table with a default entry promises.
\<close>

section \<open>Table and operations\<close>

abbreviation RT_LOOPBACK :: u8 where "RT_LOOPBACK \<equiv> 0x01"
abbreviation RT_GATEWAY :: u8 where "RT_GATEWAY \<equiv> 0x02"
abbreviation RT_HOST :: u8 where "RT_HOST \<equiv> 0x04"

record route_state = arp_state +
  routes :: "rtentry list"

definition route_alloc ::
  "u32 \<Rightarrow> u32 \<Rightarrow> u32 \<Rightarrow> u8 \<Rightarrow> anp_netdev \<Rightarrow> 'a route_state_scheme \<Rightarrow> rtentry outcome" where
  "route_alloc dst gateway netmask flags dev w =
     (if oom w then Inl NullPointer
      else Inr \<lparr>rt_dst = dst, rt_gateway = gateway, rt_netmask = netmask, rt_flags = flags, rt_dev = dev\<rparr>)"

definition route_add ::
  "u32 \<Rightarrow> u32 \<Rightarrow> u32 \<Rightarrow> u8 \<Rightarrow> anp_netdev \<Rightarrow> 'a route_state_scheme \<Rightarrow> 'a route_state_scheme outcome" where
  "route_add dst gateway netmask flags dev w =
     bindo (route_alloc dst gateway netmask flags dev w) (\<lambda>rt. Inr (w\<lparr>routes := routes w @ [rt]\<rparr>))"

definition route_init :: "'a route_state_scheme \<Rightarrow> 'a route_state_scheme outcome" where
  "route_init w =
     (case (cdev_lo w, cdev_ext w) of
        (Some lo, Some ext) \<Rightarrow>
          bindo (route_add (dev_addr lo) 0 0xff000000 RT_LOOPBACK lo w) (\<lambda>w.
          bindo (route_add (dev_addr ext) 0 0xffffff00 RT_HOST ext w) (\<lambda>w.
          bindo (ip_str_to_h32 ANP_IP_TAP_DEV) (\<lambda>gw.
            route_add 0 gw 0 RT_GATEWAY ext w)))
      | _ \<Rightarrow> Inl NullPointer)"

definition rt_matches :: "rtentry \<Rightarrow> u32 \<Rightarrow> bool" where
  "rt_matches rt daddr \<longleftrightarrow> daddr AND rt_netmask rt = rt_dst rt AND rt_netmask rt"

text \<open>The loop of \<open>route_lookup\<close>, with the variable \<open>rt\<close> that holds the entry visited last.\<close>

fun route_scan :: "rtentry list \<Rightarrow> u32 \<Rightarrow> rtentry option \<Rightarrow> rtentry option" where
  "route_scan [] daddr rt = rt"
| "route_scan (r # rs) daddr rt = (if rt_matches r daddr then Some r else route_scan rs daddr (Some r))"

definition route_lookup :: "u32 \<Rightarrow> 'a route_state_scheme \<Rightarrow> rtentry option" where
  "route_lookup daddr w = route_scan (routes w) daddr None"

definition free_routes :: "'a route_state_scheme \<Rightarrow> 'a route_state_scheme" where
  "free_routes w = w\<lparr>routes := []\<rparr>"

section \<open>First match with a default\<close>

lemma route_scan_find:
  "route_scan rs d rt = (case find (\<lambda>r. rt_matches r d) rs of Some r \<Rightarrow> Some r
     | None \<Rightarrow> if rs = [] then rt else Some (last rs))"
  by (induction rs arbitrary: rt) (auto split: option.splits)

locale forwarding_table =
  fixes table :: "'r list"
    and covers :: "'r \<Rightarrow> 'a \<Rightarrow> bool"
    and select :: "'a \<Rightarrow> 'r option"
  assumes select_first: "find (\<lambda>r. covers r a) table = Some r \<Longrightarrow> select a = Some r"
    and select_default: "find (\<lambda>r. covers r a) table = None \<Longrightarrow> select a = (if table = [] then None else Some (last table))"
begin

lemma select_None_iff: "select a = None \<longleftrightarrow> table = []"
  by (cases "find (\<lambda>r. covers r a) table") (auto simp: select_first select_default)

lemma select_in_table: "select a = Some r \<Longrightarrow> r \<in> set table"
  by (cases "find (\<lambda>r. covers r a) table")
    (auto simp: select_first select_default find_Some_iff split: if_splits)

text \<open>With an entry that covers everything, what is chosen covers the address, and no earlier entry does.\<close>

lemma select_covers:
  assumes "r0 \<in> set table" and "\<And>a. covers r0 a"
  shows "\<exists>r pre post. select a = Some r \<and> table = pre @ r # post \<and> covers r a \<and> (\<forall>q \<in> set pre. \<not> covers q a)"
proof (cases "find (\<lambda>r. covers r a) table")
  case None
  then show ?thesis using assms by (auto simp: find_None_iff)
next
  case (Some r)
  then obtain i where i: "i < length table" "r = table ! i" "covers r a"
      "\<And>j. j < i \<Longrightarrow> \<not> covers (table ! j) a"
    by (auto simp: find_Some_iff)
  then have "table = take i table @ r # drop (Suc i) table" by (simp add: id_take_nth_drop)
  moreover have "\<forall>q \<in> set (take i table). \<not> covers q a" using i by (auto simp: in_set_conv_nth)
  ultimately show ?thesis using select_first [OF Some] i(3) by blast
qed

end

interpretation fib: forwarding_table "routes w" rt_matches "\<lambda>a. route_lookup a w" for w
  by unfold_locales (simp_all add: route_lookup_def route_scan_find)

section \<open>The table of the stack\<close>

definition lo_route :: "anp_netdev \<Rightarrow> rtentry" where
  "lo_route lo = \<lparr>rt_dst = dev_addr lo, rt_gateway = 0, rt_netmask = 0xff000000, rt_flags = RT_LOOPBACK, rt_dev = lo\<rparr>"

definition host_route :: "anp_netdev \<Rightarrow> rtentry" where
  "host_route ext = \<lparr>rt_dst = dev_addr ext, rt_gateway = 0, rt_netmask = 0xffffff00, rt_flags = RT_HOST, rt_dev = ext\<rparr>"

definition gw_route :: "anp_netdev \<Rightarrow> rtentry" where
  "gw_route ext = \<lparr>rt_dst = 0, rt_gateway = 0x0A000005, rt_netmask = 0, rt_flags = RT_GATEWAY, rt_dev = ext\<rparr>"

lemma route_init_ok:
  "\<not> oom w \<Longrightarrow> cdev_lo w = Some lo \<Longrightarrow> cdev_ext w = Some ext \<Longrightarrow>
   route_init w = Inr (w\<lparr>routes := routes w @ [lo_route lo, host_route ext, gw_route ext]\<rparr>)"
  by (simp add: route_init_def route_add_def route_alloc_def tap_ip lo_route_def host_route_def gw_route_def)

lemma gw_route_covers: "rt_matches (gw_route ext) a"
  by (simp add: gw_route_def rt_matches_def)

text \<open>C18. After initialisation every destination has a route, and it is the one its subnet calls for:
  127.0.0.0/8 leaves through the loopback device, the device's own /24 directly through the external
  device, everything else through the external device towards the gateway 10.0.0.5.\<close>

theorem route_init_lookup:
  assumes "\<not> oom w" and "cdev_lo w = Some lo" and "cdev_ext w = Some ext" and "routes w = []"
  shows "\<exists>w'. route_init w = Inr w' \<and>
    (\<forall>a. route_lookup a w' =
       Some (if a AND 0xff000000 = dev_addr lo AND 0xff000000 then lo_route lo
             else if a AND 0xffffff00 = dev_addr ext AND 0xffffff00 then host_route ext
             else gw_route ext))"
  using route_init_ok [OF assms(1-3)] assms(4) gw_route_covers [of ext]
  by (auto simp: route_lookup_def rt_matches_def lo_route_def host_route_def)

definition sample_lo :: anp_netdev where
  "sample_lo = \<lparr>dev_addr = 0x7F000001, dev_addr_len = 6, dev_hwaddr = [0, 0, 0, 0, 0, 0], dev_mtu = 1500\<rparr>"

definition sample_route_state :: route_state where
  "sample_route_state = \<lparr>live_subs = 0, live_bufs = 0, oom = False, cdev_lo = Some sample_lo, cdev_ext = Some sample_dev,
     tap_out = [], tap_ret = (\<lambda>f. int (length f)), arp_cache = [], routes = []\<rparr>"

theorem route_init_lookup_witness:
  "\<exists>w'. route_init sample_route_state = Inr w' \<and> route_lookup 0x0A000007 w' = Some (host_route sample_dev)
     \<and> route_lookup 0x08080808 w' = Some (gw_route sample_dev) \<and> route_lookup 0x7F000099 w' = Some (lo_route sample_lo)"
proof -
  obtain w' where w': "route_init sample_route_state = Inr w'"
      "\<And>a. route_lookup a w' =
        Some (if a AND 0xff000000 = dev_addr sample_lo AND 0xff000000 then lo_route sample_lo
             else if a AND 0xffffff00 = dev_addr sample_dev AND 0xffffff00 then host_route sample_dev
             else gw_route sample_dev)"
    using route_init_lookup [of sample_route_state sample_lo sample_dev]
    by (auto simp: sample_route_state_def)
  then show ?thesis by (simp add: sample_lo_def)
qed

end
