(* ===== verification/Ip_Tx.thy ===== *)
theory Ip_Tx
  imports Checksum Route
begin

text \<open>
  The transmit half of the IP layer: \<^verbatim>\<open>src/ip.h\<close> and \<^verbatim>\<open>src/ip_tx.c\<close>. The IP header stands at offset
  14 of every buffer (\<^verbatim>\<open>IP_HDR_FROM_SUB\<close>): 14 \<^verbatim>\<open>version\<close> and \<^verbatim>\<open>ihl\<close>, the high and the low half of one byte,
  15 \<^verbatim>\<open>tos\<close>, 16 \<^verbatim>\<open>len\<close>, 18 \<^verbatim>\<open>id\<close>, 20 \<^verbatim>\<open>frag_offset\<close>, 22 \<^verbatim>\<open>ttl\<close>, 23 \<^verbatim>\<open>proto\<close>, 24 \<^verbatim>\<open>csum\<close>, 26 \<^verbatim>\<open>saddr\<close>,
  30 \<^verbatim>\<open>daddr\<close>, 34 \<^verbatim>\<open>data\<close>.

  The properties say what leaves the stack: to a resolved next hop exactly one Ethernet frame
  that carries a verifying IPv4 header and the untouched payload, to an unresolved one exactly
  one ARP request and the error \<open>- EAGAIN\<close>.
\<close>

section \<open>Header fields\<close>

abbreviation IPP_NUM_ICMP :: u8 where "IPP_NUM_ICMP \<equiv> 0x01"
abbreviation IPP_NUM_IP_in_IP :: u8 where "IPP_NUM_IP_in_IP \<equiv> 0x04"
abbreviation IPP_TCP :: u8 where "IPP_TCP \<equiv> 0x06"
abbreviation IP_HDR_LEN :: u32 where "IP_HDR_LEN \<equiv> 20"
abbreviation EAGAIN :: int where "EAGAIN \<equiv> 11"

definition ip_version :: "mem \<Rightarrow> u8" where "ip_version m = m 14 div 16"
definition ip_ihl :: "mem \<Rightarrow> u8" where "ip_ihl m = m 14 mod 16"

definition set_ip_version :: "mem \<Rightarrow> u8 \<Rightarrow> mem" where
  "set_ip_version m v = m(14 := (v mod 16) * 16 + ip_ihl m)"

definition set_ip_ihl :: "mem \<Rightarrow> u8 \<Rightarrow> mem" where
  "set_ip_ihl m v = m(14 := ip_version m * 16 + v mod 16)"

text \<open>\<^verbatim>\<open>_ip->len - (_ip->ihl * 4)\<close>, an \<^verbatim>\<open>int\<close>.\<close>

definition IP_PAYLOAD_LEN :: "mem \<Rightarrow> int" where
  "IP_PAYLOAD_LEN m = uint (get16 m 16) - uint (ip_ihl m) * 4"

section \<open>Output\<close>

definition ip_send_check :: "mem \<Rightarrow> mem" where
  "ip_send_check m = put16 m 24 (do_csum m 14 (uint (ip_ihl m) * 4) 0)"

text \<open>The stores of \<open>ip_output\<close> into the header, in order.\<close>

definition ip_fill :: "mem \<Rightarrow> u32 \<Rightarrow> u16 \<Rightarrow> u32 \<Rightarrow> u32 \<Rightarrow> mem" where
  "ip_fill m slen protocol addr dst_ip_addr =
     (let m = set_ip_version m IPP_NUM_IP_in_IP;
          m = set_ip_ihl m 0x05;
          m = m(15 := 0);
          m = put16 m 16 (ucast slen);
          m = put16 m 18 (get16 m 18);
          m = put16 m 20 0x4000;
          m = m(22 := 64);
          m = m(23 := ucast protocol);
          m = put32 m 26 addr;
          m = put32 m 30 dst_ip_addr;
          m = put16 m 24 0;
          m = put16 m 16 (htons (get16 m 16));
          m = put16 m 18 (htons (get16 m 18));
          m = put32 m 30 (htonl (get32 m 30));
          m = put32 m 26 (htonl (get32 m 26));
          m = put16 m 24 (htons (get16 m 24))
      in put16 m 20 (htons (get16 m 20)))"

definition dst_neigh_output ::
  "subuff \<Rightarrow> 'a route_state_scheme \<Rightarrow> (int \<times> subuff \<times> 'a route_state_scheme) outcome" where
  "dst_neigh_output sub w =
     (case (s_dev sub, s_rt sub) of
        (Some dev, Some rt) \<Rightarrow>
          let dst_addr = ntohl (get32 (s_head sub) 30);
              src_addr = ntohl (get32 (s_head sub) 26);
              dst_addr = (if rt_flags rt AND RT_GATEWAY \<noteq> 0 then rt_gateway rt else dst_addr)
          in (case arp_get_hwaddr dst_addr w of
                Some target_dst_mac \<Rightarrow> netdev_transmit sub target_dst_mac ETH_P_IP w
              | None \<Rightarrow> bindo (arp_request src_addr dst_addr dev w) (\<lambda>(_, w). Inr (- EAGAIN, sub, w)))
      | _ \<Rightarrow> Inl NullPointer)"

definition ip_output ::
  "u32 \<Rightarrow> subuff \<Rightarrow> 'a route_state_scheme \<Rightarrow> (int \<times> subuff \<times> 'a route_state_scheme) outcome" where
  "ip_output dst_ip_addr sub w =
     (case route_lookup dst_ip_addr w of
        None \<Rightarrow> Inr (- 1, sub, w)
      | Some rt \<Rightarrow>
          let sub = sub\<lparr>s_dev := Some (rt_dev rt), s_rt := Some rt\<rparr>;
              sub = sub_push sub IP_HDR_LEN
          in if s_end sub < 34 then Inl OutOfBounds
             else let m = ip_fill (s_head sub) (s_len sub) (s_protocol sub) (dev_addr (rt_dev rt)) dst_ip_addr;
                      m = ip_send_check m
                  in dst_neigh_output (sub\<lparr>s_head := m\<rparr>) w)"

section \<open>Header bytes\<close>

lemma unat_nibbles:
  fixes a b :: u8
  assumes "unat a < 16" and "unat b < 16"
  shows "unat (a * 16 + b) = unat a * 16 + unat b"
  using assms by (simp add: unat_word_ariths)

lemma version_ihl_byte:
  fixes x :: u8
  shows "((4 mod 16) * 16 + x mod 16) div 16 * 16 + 5 mod 16 = 0x45"
proof -
  have x: "unat (x mod 16) < 16" by (simp add: unat_mod_distrib)
  then have "unat (4 * 16 + x mod 16) = 64 + unat (x mod 16)" by (subst unat_nibbles) simp_all
  with x have "unat ((4 * 16 + x mod 16) div 16) = 4" by (simp add: unat_div_distrib)
  then have "(4 * 16 + x mod 16) div 16 = (4 :: u8)" by (simp add: word_unat_eq_iff)
  then show ?thesis by simp
qed

text \<open>Where the stores of \<open>ip_fill\<close> end up: every read back of a field is the value stored before.\<close>

lemma ip_fill_stores:
  "ip_fill m slen proto src dst =
     put16 (put16 (put32 (put32 (put16 (put16 (put16 (put32 (put32 ((put16 (put16 (put16 (m(14 := 0x45, 15 := 0))
       16 (ucast slen)) 18 (get16 m 18)) 20 0x4000)(22 := 64, 23 := ucast proto)) 26 src) 30 dst) 24 0)
       16 (htons (ucast slen))) 18 (htons (get16 m 18))) 30 (htonl dst)) 26 (htonl src)) 24 0) 20 0x0040"
proof -
  have "set_ip_ihl (set_ip_version m 4) 5 = m(14 := 0x45)"
    using version_ihl_byte [of "m 14"]
    by (simp add: set_ip_version_def set_ip_ihl_def ip_version_def ip_ihl_def)
  moreover have "htons 0 = 0" "htons 0x4000 = 0x0040"
    by (simp_all add: bswap16_def le16_def byte0_def byte1_def)
  ultimately show ?thesis by (simp add: ip_fill_def Let_def byte_simps)
qed

lemma ip_fill_apply:
  "ip_fill m slen proto src dst 14 = 0x45"
  "ip_fill m slen proto src dst 15 = 0"
  "ip_fill m slen proto src dst 16 = byte1 (ucast slen :: u16)"
  "ip_fill m slen proto src dst 17 = byte0 (ucast slen :: u16)"
  "ip_fill m slen proto src dst 18 = byte1 (get16 m 18)"
  "ip_fill m slen proto src dst 19 = byte0 (get16 m 18)"
  "ip_fill m slen proto src dst 20 = 0x40"
  "ip_fill m slen proto src dst 21 = 0"
  "ip_fill m slen proto src dst 22 = 64"
  "ip_fill m slen proto src dst 23 = ucast proto"
  "ip_fill m slen proto src dst 24 = 0"
  "ip_fill m slen proto src dst 25 = 0"
  "ip_fill m slen proto src dst 26 = byte3 src"
  "ip_fill m slen proto src dst 27 = byte2 src"
  "ip_fill m slen proto src dst 28 = byte1 src"
  "ip_fill m slen proto src dst 29 = byte0 src"
  "ip_fill m slen proto src dst 30 = byte3 dst"
  "ip_fill m slen proto src dst 31 = byte2 dst"
  "ip_fill m slen proto src dst 32 = byte1 dst"
  "ip_fill m slen proto src dst 33 = byte0 dst"
  "j < 14 \<or> 33 < j \<Longrightarrow> ip_fill m slen proto src dst j = m j"
  by (auto simp: ip_fill_stores put16_apply put32_apply byte_bswap16 byte_bswap32 byte0_def [of "0 :: u16"]
      byte1_def [of "0 :: u16"] byte0_def [of "0x0040 :: u16"] byte1_def [of "0x0040 :: u16"])

section \<open>The packet on the wire\<close>

definition block_of :: "u8 list \<Rightarrow> mem" where
  "block_of xs i = (if i < length xs then xs ! i else 0)"

text \<open>An IPv4 header without options, do-not-fragment set, time to live 64.\<close>

definition ipv4_header :: "u16 \<Rightarrow> u16 \<Rightarrow> u8 \<Rightarrow> u16 \<Rightarrow> u32 \<Rightarrow> u32 \<Rightarrow> u8 list" where
  "ipv4_header tot ident proto cs src dst =
     [0x45, 0, byte1 tot, byte0 tot, byte1 ident, byte0 ident, 0x40, 0, 64, proto, byte1 cs, byte0 cs]
     @ be32 src @ be32 dst"

definition ipv4_packet :: "u16 \<Rightarrow> u8 \<Rightarrow> u32 \<Rightarrow> u32 \<Rightarrow> u8 list \<Rightarrow> u8 list" where
  "ipv4_packet ident proto src dst body =
     (let tot = word_of_nat (20 + length body)
      in ipv4_header tot ident proto (rfc1071 (block_of (ipv4_header tot ident proto 0 src dst)) 0 20) src dst @ body)"

lemma length_ipv4_header [simp]: "length (ipv4_header tot ident proto cs src dst) = 20"
  by (simp add: ipv4_header_def be32_def)

lemma get_bytes_20:
  "get_bytes m 14 20 = [m 14, m 15, m 16, m 17, m 18, m 19, m 20, m 21, m 22, m 23, m 24, m 25, m 26,
     m 27, m 28, m 29, m 30, m 31, m 32, m 33]"
  by (simp add: get_bytes_def)

lemma ip_fill_header:
  "get_bytes (ip_fill m slen proto src dst) 14 20 = ipv4_header (ucast slen) (get16 m 18) (ucast proto) 0 src dst"
  by (simp add: get_bytes_20 ip_fill_apply ipv4_header_def be32_def byte0_def [of "0 :: u16"] byte1_def [of "0 :: u16"])

lemma be_sum_block:
  assumes "n \<le> length xs" and "get_bytes m p (length xs) = xs"
  shows "be_sum m p n = be_sum (block_of xs) 0 n"
proof -
  have "m (p + i) = xs ! i" if "i < n" for i
    using that assms nth_get_bytes [of i "length xs" m p] by simp
  then show ?thesis
    unfolding be_sum_def block_of_def using assms(1) by (intro sum.cong) auto
qed

lemma ip_ihl_fill: "ip_ihl (ip_fill m slen proto src dst) = 5"
  by (simp add: ip_ihl_def ip_fill_apply word_unat_eq_iff unat_mod_distrib)

lemma ip_send_check_fill:
  "ip_send_check (ip_fill m slen proto src dst) =
     put16 (ip_fill m slen proto src dst) 24
       (htons (rfc1071 (block_of (ipv4_header (ucast slen) (get16 m 18) (ucast proto) 0 src dst)) 0 20))"
proof -
  let ?h = "ipv4_header (ucast slen) (get16 m 18) (ucast proto) 0 src dst"
  have "rfc1071 (ip_fill m slen proto src dst) 14 20 = rfc1071 (block_of ?h) 0 20"
    unfolding rfc1071_def by (subst be_sum_block [of 20 ?h]) (simp_all add: ip_fill_header)
  moreover have "do_csum (ip_fill m slen proto src dst) 14 (int 20) 0 = htons (rfc1071 (ip_fill m slen proto src dst) 14 20)"
    by (subst csum_is_rfc1071 [symmetric]) simp_all
  ultimately show ?thesis by (simp add: ip_send_check_def ip_ihl_fill)
qed

lemma ip_send_check_packet:
  assumes "unat slen = 20 + n" and "n < 65516"
  shows "get_bytes (ip_send_check (ip_fill m slen proto src dst)) 14 (20 + n)
    = ipv4_packet (get16 m 18) (ucast proto) src dst (get_bytes m 34 n)"
proof -
  have t: "(ucast slen :: u16) = word_of_nat (20 + n)"
    unfolding assms(1) [symmetric] by (simp add: word_unat_eq_iff unat_of_nat unsigned_ucast_eq take_bit_eq_mod)
  have "get_bytes (ip_send_check (ip_fill m slen proto src dst)) 34 n = get_bytes m 34 n"
    unfolding ip_send_check_fill by (rule get_bytes_cong) (simp add: put16_apply ip_fill_apply)
  moreover have "get_bytes (ip_send_check (ip_fill m slen proto src dst)) 14 20 =
      ipv4_header (ucast slen) (get16 m 18) (ucast proto)
        (rfc1071 (block_of (ipv4_header (ucast slen) (get16 m 18) (ucast proto) 0 src dst)) 0 20) src dst"
    unfolding ip_send_check_fill
    by (simp add: get_bytes_20 put16_apply ip_fill_apply ipv4_header_def be32_def byte_bswap16)
  ultimately show ?thesis
    by (simp add: get_bytes_split [of _ 14 20 n] ipv4_packet_def t Let_def)
qed

section \<open>Properties\<close>

definition next_hop :: "rtentry \<Rightarrow> u32 \<Rightarrow> u32" where
  "next_hop rt dst = (if rt_flags rt AND RT_GATEWAY \<noteq> 0 then rt_gateway rt else dst)"

lemma ip_checked_addrs:
  "get32 (ip_send_check (ip_fill m slen proto src dst)) 30 = htonl dst"
  "get32 (ip_send_check (ip_fill m slen proto src dst)) 26 = htonl src"
  by (simp_all add: ip_send_check_def byte_simps) (simp_all add: ip_fill_stores byte_simps)

text \<open>The buffer that \<open>ip_output\<close> hands down: the header in place, \<open>data\<close> at it.\<close>

definition ip_out_sub :: "u32 \<Rightarrow> rtentry \<Rightarrow> subuff \<Rightarrow> subuff" where
  "ip_out_sub dst rt sub = sub\<lparr>s_dev := Some (rt_dev rt), s_rt := Some rt, s_data := s_data sub - 20, s_len := s_len sub + 20,
     s_head := ip_send_check (ip_fill (s_head sub) (s_len sub + 20) (s_protocol sub) (dev_addr (rt_dev rt)) dst)\<rparr>"

lemma ip_output_hop:
  assumes "route_lookup dst w = Some rt" and "34 \<le> s_end sub"
  shows "ip_output dst sub w =
    (case arp_get_hwaddr (next_hop rt dst) w of
       Some mac \<Rightarrow> netdev_transmit (ip_out_sub dst rt sub) mac ETH_P_IP w
     | None \<Rightarrow> bindo (arp_request (dev_addr (rt_dev rt)) (next_hop rt dst) (rt_dev rt) w)
                 (\<lambda>(_, w). Inr (- EAGAIN, ip_out_sub dst rt sub, w)))"
  using assms
  by (simp add: ip_output_def dst_neigh_output_def Let_def ip_checked_addrs next_hop_def ip_out_sub_def
      sub_push_def split: option.splits)

lemma ip_output_frame:
  assumes rt: "route_lookup dst w = Some rt" "wf_dev (rt_dev rt)"
    and mac: "arp_get_hwaddr (next_hop rt dst) w = Some mac" "length mac = 6"
    and sub: "s_data sub = 34" "34 + unat (s_len sub) \<le> s_end sub" "unat (s_len sub) < 65516"
    and f: "frame = eth_frame mac (dev_hwaddr (rt_dev rt)) ETH_P_IP
      (ipv4_packet (get16 (s_head sub) 18) (ucast (s_protocol sub)) (dev_addr (rt_dev rt)) dst
        (get_bytes (s_head sub) 34 (unat (s_len sub))))"
  shows "ip_output dst sub w =
    Inr (tap_ret w frame,
         (ip_out_sub dst rt sub)\<lparr>s_data := 0, s_len := s_len sub + 34,
            s_head := eth_fill (s_head (ip_out_sub dst rt sub)) 0 mac (dev_hwaddr (rt_dev rt)) ETH_P_IP\<rparr>,
         w\<lparr>tap_out := tap_out w @ [frame]\<rparr>)"
proof -
  let ?sub = "ip_out_sub dst rt sub"
  have l: "unat (s_len sub + 20) = 20 + unat (s_len sub)"
    using sub(3) by (subst unat_add_small) simp_all
  have "get_bytes (s_head ?sub) 14 (20 + unat (s_len sub)) = ipv4_packet (get16 (s_head sub) 18)
      (ucast (s_protocol sub)) (dev_addr (rt_dev rt)) dst (get_bytes (s_head sub) 34 (unat (s_len sub)))"
    using ip_send_check_packet [OF l sub(3)] by (simp add: ip_out_sub_def)
  moreover have "34 \<le> s_end sub" using sub(2) by linarith
  moreover have "int (34 + unat (s_len sub)) \<le> int (s_end sub)" using sub(2) by (simp only: of_nat_le_iff)
  ultimately show ?thesis
    using rt mac sub f l
    by (simp add: ip_output_hop netdev_transmit_ok ip_out_sub_def sub_push_def add.assoc)
qed

text \<open>C17. A segment handed to \<open>ip_output\<close> for a destination whose next hop (the gateway on a gateway route,
  the destination itself otherwise) is resolved leaves as exactly one frame: Ethernet to the next
  hop's MAC, an IPv4 header with the RFC 1071 header checksum, the device's address as source, and
  the payload unchanged. Nothing else of the stack's state changes.\<close>

theorem ip_output_resolved:
  assumes "route_lookup dst w = Some rt" and "wf_dev (rt_dev rt)"
    and "arp_get_hwaddr (next_hop rt dst) w = Some mac" and "length mac = 6"
    and "s_data sub = 34" and "34 + unat (s_len sub) \<le> s_end sub" and "unat (s_len sub) < 65516"
  shows "\<exists>ret sub'. ip_output dst sub w = Inr (ret, sub', w\<lparr>tap_out := tap_out w @
    [eth_frame mac (dev_hwaddr (rt_dev rt)) ETH_P_IP
      (ipv4_packet (get16 (s_head sub) 18) (ucast (s_protocol sub)) (dev_addr (rt_dev rt)) dst
        (get_bytes (s_head sub) 34 (unat (s_len sub))))]\<rparr>)"
  using ip_output_frame [OF assms refl] by blast

lemma ip_output_unresolved_sub:
  assumes "route_lookup dst w = Some rt" and "wf_dev (rt_dev rt)" and "\<not> oom w"
    and "arp_get_hwaddr (next_hop rt dst) w = None" and "34 \<le> s_end sub"
  shows "\<exists>sub'. ip_output dst sub w = Inr (- EAGAIN, sub',
      w\<lparr>tap_out := tap_out w @ [arp_request_frame (dev_addr (rt_dev rt)) (next_hop rt dst) (rt_dev rt)]\<rparr>)
    \<and> s_end sub' = s_end sub \<and> (\<forall>i \<ge> 34. s_head sub' i = s_head sub i)"
  using assms
  by (simp add: ip_output_hop arp_request_ok ip_out_sub_def ip_send_check_def put16_apply ip_fill_apply)

text \<open>If the next hop is not resolved, nothing of the segment is sent: one ARP request for the next
  hop goes out and the caller gets \<open>- EAGAIN\<close>, with the payload still in its buffer.\<close>

theorem ip_output_unresolved:
  assumes "route_lookup dst w = Some rt" and "wf_dev (rt_dev rt)" and "\<not> oom w"
    and "arp_get_hwaddr (next_hop rt dst) w = None" and "34 \<le> s_end sub"
  shows "\<exists>sub'. ip_output dst sub w = Inr (- EAGAIN, sub',
      w\<lparr>tap_out := tap_out w @ [arp_request_frame (dev_addr (rt_dev rt)) (next_hop rt dst) (rt_dev rt)]\<rparr>)
    \<and> s_end sub' = s_end sub \<and> (\<forall>i \<ge> 34. s_head sub' i = s_head sub i)"
  by (rule ip_output_unresolved_sub [OF assms])

text \<open>Four bytes for 8.8.8.8, which is behind the gateway 10.0.0.5.\<close>

definition sample_seg :: subuff where
  "sample_seg = \<lparr>s_rt = None, s_dev = None, s_protocol = 6, s_seq = 0, s_end_seq = 0,
     s_head = put_bytes (\<lambda>_. 0) 34 [1, 2, 3, 4], s_end = 38, s_data = 34, s_len = 4, s_payload = None, s_dlen = 0\<rparr>"

definition sample_gw_entry :: arp_cache_entry where
  "sample_gw_entry = \<lparr>ace_state = ARP_RESOLVED, ace_arp = \<lparr>ar_src_mac = [0xaa, 0xbb, 0xcc, 0xdd, 0xee, 0xff],
     ar_src_ip = 0x0A000005, ar_dst_mac = [0, 0, 0, 0, 0, 0], ar_dst_ip = 0x0A000004\<rparr>\<rparr>"

definition sample_ip_state :: "arp_cache_entry list \<Rightarrow> route_state" where
  "sample_ip_state c = sample_route_state\<lparr>arp_cache := c,
     routes := [lo_route sample_lo, host_route sample_dev, gw_route sample_dev]\<rparr>"

lemma sample_ip_route: "route_lookup 0x08080808 (sample_ip_state c) = Some (gw_route sample_dev)"
  by (simp add: sample_ip_state_def route_lookup_def rt_matches_def lo_route_def host_route_def sample_lo_def)

lemma sample_ip_simps [simp]:
  "next_hop (gw_route sample_dev) a = 0x0A000005" "rt_dev (gw_route sample_dev) = sample_dev"
  "\<not> oom (sample_ip_state c)" "tap_out (sample_ip_state c) = []"
  "arp_get_hwaddr 0x0A000005 (sample_ip_state []) = None"
  "arp_get_hwaddr 0x0A000005 (sample_ip_state [sample_gw_entry]) = Some [0xaa, 0xbb, 0xcc, 0xdd, 0xee, 0xff]"
  by (simp_all add: next_hop_def gw_route_def sample_ip_state_def sample_route_state_def arp_get_hwaddr_def
      sample_gw_entry_def)

theorem ip_output_resolved_witness:
  "\<exists>ret sub' w'. ip_output 0x08080808 sample_seg (sample_ip_state [sample_gw_entry]) = Inr (ret, sub', w')
     \<and> tap_out w' = [eth_frame [0xaa, 0xbb, 0xcc, 0xdd, 0xee, 0xff] (dev_hwaddr sample_dev) ETH_P_IP
         (ipv4_packet 0 6 0x0A000004 0x08080808 [1, 2, 3, 4])]"
proof -
  have "get_bytes (s_head sample_seg) 34 4 = [1, 2, 3, 4]"
    by (simp add: sample_seg_def get_bytes_def put_bytes_def)
  moreover have "get16 (s_head sample_seg) 18 = 0" by (simp add: sample_seg_def get16_def put_bytes_def le16_def)
  ultimately show ?thesis
    using ip_output_resolved [OF sample_ip_route, of "[sample_gw_entry]" _ sample_seg]
    by (auto simp: sample_seg_def)
qed

theorem ip_output_unresolved_witness:
  "\<exists>sub' w'. ip_output 0x08080808 sample_seg (sample_ip_state []) = Inr (- EAGAIN, sub', w')
     \<and> tap_out w' = [arp_request_frame 0x0A000004 0x0A000005 sample_dev]"
  using ip_output_unresolved [OF sample_ip_route, of "[]" sample_seg] by (auto simp: sample_seg_def)

end
