(* ===== verification/Timer.thy ===== *)
theory Timer
  imports Ip_Tx
begin

text \<open>
  The timer facility of \<^verbatim>\<open>src/timer.c\<close> and \<^verbatim>\<open>src/timer.h\<close>. The state adds the contents of the ring
  \<open>timers\<close>, the tick counter in milliseconds (a C \<^verbatim>\<open>int\<close> that every comparison converts to unsigned, here
  the unsigned word), the next address of a timer, and the callbacks handed to \<^verbatim>\<open>pthread_create\<close>, in order
  (\<open>spawned\<close>). A callback is a value of the type \<^verbatim>\<open>'h\<close>, a function pointer together with its argument.

  \<open>timers_tick\<close> takes the set of timers whose lock another thread holds at that moment, those whose
  \<^verbatim>\<open>pthread_mutex_trylock\<close> fails. \<open>timers_start\<close> loops forever; \<open>timers_run\<close> is any finite part of its run.
\<close>

section \<open>State and operations\<close>

record 'h timer =
  t_addr :: nat
  t_refcnt :: int
  t_expires :: u32
  t_cancelled :: bool
  t_handler :: 'h

record 'h timer_state = route_state +
  timers :: "'h timer list"
  tick :: u32
  t_next :: nat
  spawned :: "'h list"

definition timer_get_tick :: "('h, 'a) timer_state_scheme \<Rightarrow> u32" where
  "timer_get_tick w = tick w"

text \<open>\<^verbatim>\<open>calloc\<close> returns a fresh address; its result is used without a check.\<close>

definition timer_alloc :: "('h, 'a) timer_state_scheme \<Rightarrow> (nat \<times> ('h, 'a) timer_state_scheme) outcome" where
  "timer_alloc w = (if oom w then Inl NullPointer else Inr (t_next w, w\<lparr>t_next := t_next w + 1\<rparr>))"

text \<open>The common part of \<open>timer_oneshot\<close> and \<open>timer_add\<close>, which differ in the reference count.\<close>

definition timer_insert ::
  "int \<Rightarrow> u32 \<Rightarrow> 'h \<Rightarrow> ('h, 'a) timer_state_scheme \<Rightarrow> (nat \<times> ('h, 'a) timer_state_scheme) outcome" where
  "timer_insert refcnt expire h w =
     bindo (timer_alloc w) (\<lambda>(t, w).
       Inr (t, w\<lparr>timers := timers w @ [\<lparr>t_addr = t, t_refcnt = refcnt, t_expires = timer_get_tick w + expire,
                                       t_cancelled = False, t_handler = h\<rparr>]\<rparr>))"

lemma timer_insert_eq:
  "timer_insert refcnt expire h w =
     (if oom w then Inl NullPointer
      else Inr (t_next w,
             w\<lparr>timers := timers w @ [\<lparr>t_addr = t_next w, t_refcnt = refcnt, t_expires = timer_get_tick w + expire,
                                      t_cancelled = False, t_handler = h\<rparr>],
               t_next := t_next w + 1\<rparr>))"
  by (simp add: timer_insert_def timer_alloc_def timer_get_tick_def)

definition timer_oneshot :: "u32 \<Rightarrow> 'h \<Rightarrow> ('h, 'a) timer_state_scheme \<Rightarrow> ('h, 'a) timer_state_scheme outcome" where
  "timer_oneshot expire h w = bindo (timer_insert 0 expire h w) (\<lambda>(_, w). Inr w)"

definition timer_add ::
  "u32 \<Rightarrow> 'h \<Rightarrow> ('h, 'a) timer_state_scheme \<Rightarrow> (nat \<times> ('h, 'a) timer_state_scheme) outcome" where
  "timer_add expire h w = timer_insert 1 expire h w"

definition timer_update ::
  "nat \<Rightarrow> ('h timer \<Rightarrow> 'h timer) \<Rightarrow> ('h, 'a) timer_state_scheme \<Rightarrow> ('h, 'a) timer_state_scheme outcome" where
  "timer_update a f w =
     (if a \<in> t_addr ` set (timers w)
      then Inr (w\<lparr>timers := map (\<lambda>t. if t_addr t = a then f t else t) (timers w)\<rparr>)
      else Inl UseAfterFree)"

definition timer_release :: "nat option \<Rightarrow> ('h, 'a) timer_state_scheme \<Rightarrow> ('h, 'a) timer_state_scheme outcome" where
  "timer_release p w =
     (case p of
        None \<Rightarrow> Inr w
      | Some a \<Rightarrow> timer_update a (\<lambda>t. t\<lparr>t_refcnt := t_refcnt t - 1\<rparr>) w)"

definition timer_cancel :: "nat option \<Rightarrow> ('h, 'a) timer_state_scheme \<Rightarrow> ('h, 'a) timer_state_scheme outcome" where
  "timer_cancel p w =
     (case p of
        None \<Rightarrow> Inr w
      | Some a \<Rightarrow> timer_update a (\<lambda>t. t\<lparr>t_refcnt := t_refcnt t - 1, t_cancelled := True\<rparr>) w)"

text \<open>The loop of \<open>timers_tick\<close>: the timers that stay in the ring, and the callbacks started.\<close>

fun tick_timers :: "(nat \<Rightarrow> bool) \<Rightarrow> u32 \<Rightarrow> 'h timer list \<Rightarrow> 'h timer list \<times> 'h list" where
  "tick_timers busy now [] = ([], [])"
| "tick_timers busy now (t # ts) =
     (let (kept, started) = tick_timers busy now ts
      in if busy (t_addr t) then (t # kept, started)
         else let fires = (\<not> t_cancelled t \<and> t_expires t < now);
                  t = (if fires then t\<lparr>t_cancelled := True\<rparr> else t);
                  started = (if fires then t_handler t # started else started)
              in if t_cancelled t \<and> t_refcnt t = 0 then (kept, started) else (t # kept, started))"

definition timers_tick :: "(nat \<Rightarrow> bool) \<Rightarrow> ('h, 'a) timer_state_scheme \<Rightarrow> ('h, 'a) timer_state_scheme" where
  "timers_tick busy w =
     (let (kept, started) = tick_timers busy (tick w) (timers w)
      in w\<lparr>timers := kept, spawned := spawned w @ started\<rparr>)"

text \<open>The body of the loop of \<open>timers_start\<close>, and a number of rounds of it.\<close>

definition timers_round :: "(nat \<Rightarrow> bool) \<Rightarrow> ('h, 'a) timer_state_scheme \<Rightarrow> ('h, 'a) timer_state_scheme" where
  "timers_round busy w = timers_tick busy (w\<lparr>tick := tick w + 10\<rparr>)"

fun timers_run :: "(nat \<Rightarrow> bool) list \<Rightarrow> ('h, 'a) timer_state_scheme \<Rightarrow> ('h, 'a) timer_state_scheme" where
  "timers_run [] w = w"
| "timers_run (busy # bs) w = timers_run bs (timers_round busy w)"

lemma tick_timers_append:
  "tick_timers busy now (xs @ ys) = (fst (tick_timers busy now xs) @ fst (tick_timers busy now ys),
     snd (tick_timers busy now xs) @ snd (tick_timers busy now ys))"
  by (induction xs) (simp_all add: split_def Let_def)

lemma tick_timers_addrs: "t_addr ` set (fst (tick_timers busy now ts)) \<subseteq> t_addr ` set ts"
  by (induction ts) (auto simp: split_def Let_def)

section \<open>A callback's timers are independent of the others\<close>

definition timers_of :: "'h \<Rightarrow> 'h timer list \<Rightarrow> 'h timer list" where
  "timers_of h ts = filter (\<lambda>t. t_handler t = h) ts"

lemma tick_timers_of:
  "timers_of h (fst (tick_timers busy now ts)) = fst (tick_timers busy now (timers_of h ts))"
  "count_list (snd (tick_timers busy now ts)) h = length (snd (tick_timers busy now (timers_of h ts)))"
  by (induction ts) (auto simp: timers_of_def split_def Let_def)

lemma timers_round_simps:
  "tick (timers_round busy w) = tick w + 10"
  "timers_of h (timers (timers_round busy w)) = fst (tick_timers busy (tick w + 10) (timers_of h (timers w)))"
  "count_list (spawned (timers_round busy w)) h =
     count_list (spawned w) h + length (snd (tick_timers busy (tick w + 10) (timers_of h (timers w))))"
  by (simp_all add: timers_round_def timers_tick_def split_def Let_def tick_timers_of)

lemma timers_run_idle:
  "timers_of h (timers w) = [] \<Longrightarrow> count_list (spawned (timers_run bs w)) h = count_list (spawned w) h"
  by (induction bs arbitrary: w) (simp_all add: timers_round_simps)

lemma timers_run_single:
  assumes "timers_of h (timers w) = [t]" and "\<not> t_cancelled t" and "t_refcnt t = 0"
    and "\<forall>busy \<in> set bs. \<not> busy (t_addr t)" and "unat (tick w) + 10 * length bs < 4294967296"
    and "unat (tick w) \<le> unat (t_expires t)"
  shows "count_list (spawned (timers_run bs w)) h =
    count_list (spawned w) h + (if unat (t_expires t) < unat (tick w) + 10 * length bs then 1 else 0)"
  using assms
proof (induction bs arbitrary: w)
  case Nil
  then show ?case by simp
next
  case (Cons busy bs)
  have n: "unat (tick w + 10) = unat (tick w) + 10"
    using Cons.prems(5) by (simp add: unat_word_ariths)
  show ?case
  proof (cases "t_expires t < tick w + 10")
    case True
    then have "timers_of h (timers (timers_round busy w)) = []"
        "count_list (spawned (timers_round busy w)) h = count_list (spawned w) h + 1"
      using Cons.prems by (simp_all add: timers_round_simps)
    moreover have "unat (t_expires t) < unat (tick w) + 10" using True n by (simp add: word_less_nat_alt)
    ultimately show ?thesis by (simp add: timers_run_idle)
  next
    case False
    then have "timers_of h (timers (timers_round busy w)) = [t]"
        "count_list (spawned (timers_round busy w)) h = count_list (spawned w) h"
      using Cons.prems by (simp_all add: timers_round_simps)
    moreover have "unat (tick w) + 10 \<le> unat (t_expires t)" using False n by (simp add: word_less_nat_alt)
    moreover have "\<forall>busy \<in> set bs. \<not> busy (t_addr t)" using Cons.prems(4) by (metis list.set_intros(2))
    ultimately show ?thesis
      using Cons.IH [of "timers_round busy w"] Cons.prems(2,3,5) n by (simp add: timers_round_simps(1) add.assoc)
  qed
qed

section \<open>Callbacks are started at most as often as they were armed\<close>

text \<open>What the users of timers may rely on whatever other threads do: \<open>pending\<close> and \<open>fired\<close> count the timers of a callback that may still
  fire and those that have fired; an operation adds to their sum at most what it arms.\<close>

locale callback_service =
  fixes pending :: "'h \<Rightarrow> 's \<Rightarrow> nat"
    and fired :: "'h \<Rightarrow> 's \<Rightarrow> nat"
    and operation :: "'o \<Rightarrow> 's \<Rightarrow> 's outcome"
    and arms :: "'h \<Rightarrow> 'o \<Rightarrow> bool"
  assumes conserves: "operation x s = Inr s' \<Longrightarrow> fired h s' + pending h s' \<le> fired h s + pending h s + (if arms h x then 1 else 0)"
begin

lemma at_most_armed:
  "runo operation xs s = Inr s' \<Longrightarrow> fired h s' + pending h s' \<le> fired h s + pending h s + length (filter (arms h) xs)"
proof (induction xs arbitrary: s)
  case (Cons x xs)
  then obtain s1 where "operation x s = Inr s1" "runo operation xs s1 = Inr s'" by auto
  with Cons.IH [of s1] conserves [of x s s1 h] show ?case by (auto split: if_splits)
qed simp

end

datatype 'h timer_op =
    Oneshot u32 'h
  | Add u32 'h
  | Cancel "nat option"
  | Release "nat option"
  | Round "nat \<Rightarrow> bool"

fun timer_step :: "'h timer_op \<Rightarrow> ('h, 'a) timer_state_scheme \<Rightarrow> ('h, 'a) timer_state_scheme outcome" where
  "timer_step (Oneshot e h) w = timer_oneshot e h w"
| "timer_step (Add e h) w = bindo (timer_add e h w) (\<lambda>(a, w). Inr w)"
| "timer_step (Cancel a) w = timer_cancel a w"
| "timer_step (Release a) w = timer_release a w"
| "timer_step (Round busy) w = Inr (timers_round busy w)"

fun arms_timer :: "'h \<Rightarrow> 'h timer_op \<Rightarrow> bool" where
  "arms_timer h (Oneshot e h') \<longleftrightarrow> h' = h"
| "arms_timer h (Add e h') \<longleftrightarrow> h' = h"
| "arms_timer h _ \<longleftrightarrow> False"

definition armed :: "'h \<Rightarrow> 'h timer list \<Rightarrow> nat" where
  "armed h ts = length (filter (\<lambda>t. t_handler t = h \<and> \<not> t_cancelled t) ts)"

lemma armed_snoc: "armed h (ts @ [t]) = armed h ts + (if t_handler t = h \<and> \<not> t_cancelled t then 1 else 0)"
  by (simp add: armed_def)

lemma armed_tick: "armed h (fst (tick_timers busy now ts)) + count_list (snd (tick_timers busy now ts)) h = armed h ts"
  by (induction ts) (auto simp: armed_def split_def Let_def)

lemma armed_map_le:
  "(\<And>t. t_handler (f t) = t_handler t) \<Longrightarrow> (\<And>t. t_cancelled t \<Longrightarrow> t_cancelled (f t)) \<Longrightarrow>
   armed h (map (\<lambda>t. if t_addr t = a then f t else t) ts) \<le> armed h ts"
  by (induction ts) (auto simp: armed_def)

lemma timer_step_conserves:
  assumes step: "timer_step x w = Inr w'"
  shows "count_list (spawned w') h + armed h (timers w') \<le> count_list (spawned w) h + armed h (timers w) + (if arms_timer h x then 1 else 0)"
proof (cases x)
  case (Round busy)
  then have "w' = timers_tick busy (w\<lparr>tick := tick w + 10\<rparr>)" using step by (simp add: timers_round_def)
  then show ?thesis
    using Round armed_tick [of h busy "tick w + 10" "timers w"] by (simp add: timers_tick_def split_def Let_def)
qed (use step in \<open>auto simp: timer_oneshot_def timer_add_def timer_insert_eq timer_cancel_def timer_release_def timer_update_def armed_snoc
    split: if_splits option.splits intro!: armed_map_le\<close>)

interpretation anp_timers: callback_service "\<lambda>h w. armed h (timers w)" "\<lambda>h w. count_list (spawned w) h" timer_step arms_timer
  by unfold_locales (rule timer_step_conserves)

section \<open>Properties\<close>

text \<open>C24. A one-shot timer fires exactly once and never early: after any number of rounds of the timer
  thread its callback has been started once if more than the requested time has passed since it
  was armed, and not at all otherwise (as long as the 32-bit tick does not wrap around and no other
  thread holds the timer's lock).\<close>

theorem timer_oneshot_once:
  assumes "\<not> oom w" and "h \<notin> t_handler ` set (timers w)"
    and "\<forall>busy \<in> set bs. \<not> busy (t_next w)"
    and "unat (tick w) + unat e < 4294967296" and "unat (tick w) + 10 * length bs < 4294967296"
  shows "\<exists>w1. timer_oneshot e h w = Inr w1 \<and>
    count_list (spawned (timers_run bs w1)) h =
      count_list (spawned w) h + (if unat e < 10 * length bs then 1 else 0)"
proof -
  let ?t = "\<lparr>t_addr = t_next w, t_refcnt = 0, t_expires = tick w + e, t_cancelled = False, t_handler = h\<rparr>"
  let ?w = "w\<lparr>timers := timers w @ [?t], t_next := t_next w + 1\<rparr>"
  have x: "unat (tick w + e) = unat (tick w) + unat e" using assms(4) by (rule unat_add_small)
  have "timers_of h (timers ?w) = [?t]"
    using assms(2) by (auto simp: timers_of_def filter_empty_conv)
  then have "count_list (spawned (timers_run bs ?w)) h =
      count_list (spawned ?w) h + (if unat (tick w) + unat e < unat (tick w) + 10 * length bs then 1 else 0)"
    using timers_run_single [of h ?w ?t bs] assms x by simp
  moreover have "timer_oneshot e h w = Inr ?w"
    using assms(1) by (simp add: timer_oneshot_def timer_insert_eq timer_get_tick_def)
  ultimately show ?thesis by simp
qed

lemma tick_timers_cancelled: "list_all t_cancelled ts \<Longrightarrow> snd (tick_timers busy now ts) = []"
  by (induction ts) (auto simp: split_def Let_def)

lemma tick_timers_stays_cancelled:
  "list_all t_cancelled ts \<Longrightarrow> list_all t_cancelled (fst (tick_timers busy now ts))"
  by (induction ts) (auto simp: split_def Let_def)

lemma timers_run_cancelled:
  "list_all t_cancelled (timers_of h (timers w)) \<Longrightarrow> count_list (spawned (timers_run bs w)) h = count_list (spawned w) h"
  by (induction bs arbitrary: w)
    (simp_all add: timers_round_simps tick_timers_cancelled tick_timers_stays_cancelled)

text \<open>A timer obtained from \<open>timer_add\<close> and cancelled before it fires never starts its callback, however
  long the timer thread runs, and the first round that can lock it frees it.\<close>

theorem timer_cancel_silences:
  assumes "\<not> oom w" and "h \<notin> t_handler ` set (timers w)" and "t_next w \<notin> t_addr ` set (timers w)"
  shows "\<exists>a w1 w2. timer_add e h w = Inr (a, w1) \<and> timer_cancel (Some a) w1 = Inr w2 \<and>
    count_list (spawned (timers_run bs w2)) h = count_list (spawned w) h \<and>
    (\<forall>busy. \<not> busy a \<longrightarrow> a \<notin> t_addr ` set (timers (timers_round busy w2)))"
proof -
  let ?t = "\<lparr>t_addr = t_next w, t_refcnt = 0, t_expires = tick w + e, t_cancelled = True, t_handler = h\<rparr>"
  let ?w = "w\<lparr>timers := timers w @ [?t], t_next := t_next w + 1\<rparr>"
  have "map (\<lambda>t. if t_addr t = t_next w then t\<lparr>t_refcnt := t_refcnt t - 1, t_cancelled := True\<rparr> else t) (timers w) = timers w"
    using assms(3) by (intro map_idI) (metis imageI)
  then have ops: "\<exists>w1. timer_add e h w = Inr (t_next w, w1) \<and> timer_cancel (Some (t_next w)) w1 = Inr ?w"
    using assms(1) by (simp add: timer_add_def timer_insert_eq timer_cancel_def timer_update_def timer_get_tick_def)
  have "timers_of h (timers ?w) = [?t]"
    using assms(2) by (auto simp: timers_of_def filter_empty_conv)
  then have "count_list (spawned (timers_run bs ?w)) h = count_list (spawned w) h"
    by (simp add: timers_run_cancelled)
  moreover have "t_next w \<notin> t_addr ` set (fst (tick_timers busy now (timers w @ [?t])))" if "\<not> busy (t_next w)" for busy now
    using assms(3) that tick_timers_addrs [of busy now "timers w"] by (auto simp: tick_timers_append)
  then have "\<forall>busy. \<not> busy (t_next w) \<longrightarrow> t_next w \<notin> t_addr ` set (timers (timers_round busy ?w))"
    by (simp add: timers_round_def timers_tick_def split_def Let_def)
  ultimately show ?thesis using ops by blast
qed

text \<open>C29. A callback is never started more often than it has been armed: in every sequence of operations on the timers, whatever timers
  other threads hold locked at each tick, whichever are cancelled or released, and also when the tick wraps around, the number of times a callback has been
  started, together with the timers that may still start it, grows by no more than the number of times it was armed.\<close>

theorem timer_at_most_armed:
  assumes "runo timer_step ops w = Inr w'"
  shows "count_list (spawned w') h + armed h (timers w') \<le> count_list (spawned w) h + armed h (timers w) + length (filter (arms_timer h) ops)"
  using assms by (rule anp_timers.at_most_armed)

definition sample_timer_state :: "nat timer_state" where
  "sample_timer_state = \<lparr>live_subs = 0, live_bufs = 0, oom = False, cdev_lo = None, cdev_ext = None,
     tap_out = [], tap_ret = (\<lambda>f. int (length f)), arp_cache = [], routes = [],
     timers = [], tick = 100, t_next = 0, spawned = []\<rparr>"

theorem timer_oneshot_once_witness:
  "\<exists>w1. timer_oneshot 20 7 sample_timer_state = Inr w1
     \<and> count_list (spawned (timers_run (replicate 2 (\<lambda>_. False)) w1)) 7 = 0
     \<and> count_list (spawned (timers_run (replicate 3 (\<lambda>_. False)) w1)) 7 = 1
     \<and> count_list (spawned (timers_run (replicate 9 (\<lambda>_. False)) w1)) 7 = 1"
  using timer_oneshot_once [of sample_timer_state 7 "replicate 2 (\<lambda>_. False)" 20]
    timer_oneshot_once [of sample_timer_state 7 "replicate 3 (\<lambda>_. False)" 20]
    timer_oneshot_once [of sample_timer_state 7 "replicate 9 (\<lambda>_. False)" 20]
  by (auto simp: sample_timer_state_def)

theorem timer_cancel_silences_witness:
  "\<exists>a w1 w2. timer_add 20 7 sample_timer_state = Inr (a, w1) \<and> timer_cancel (Some a) w1 = Inr w2
     \<and> count_list (spawned (timers_run (replicate 9 (\<lambda>_. False)) w2)) 7 = 0"
  using timer_cancel_silences [of sample_timer_state 7 20 "replicate 9 (\<lambda>_. False)"]
  by (auto simp: sample_timer_state_def)

theorem timer_at_most_armed_witness:
  "\<exists>w'. runo timer_step [Oneshot 5 7, Round (\<lambda>_. False), Round (\<lambda>_. False)] sample_timer_state = Inr w' \<and> count_list (spawned w') 7 \<le> 1"
proof -
  obtain w' where w': "runo timer_step [Oneshot 5 7, Round (\<lambda>_. False), Round (\<lambda>_. False)] sample_timer_state = Inr w'"
    by (simp add: timer_oneshot_def timer_insert_eq sample_timer_state_def)
  from timer_at_most_armed [OF this, of 7] show ?thesis
    using w' by (auto simp: armed_def sample_timer_state_def)
qed

end
