(* ===== verification/Icmp.thy ===== *)
theory Icmp
  imports Timer
begin

text \<open>
  ICMP echo: \<^verbatim>\<open>src/icmp.h\<close> and \<^verbatim>\<open>src/icmp.c\<close>. The ICMP header follows the 20 bytes of the IP header: type at
  34, code at 35, checksum at 36 (\<open>icmp_hdr\<close> does not look at \<^verbatim>\<open>ihl\<close>). \<open>icmp_rx\<close> gets a buffer whose IP fields
  \<open>ip_rx\<close> has already turned into host order.

  The type \<open>callback\<close> lists the functions of the stack that are ever handed to a timer, with their arguments.
\<close>

section \<open>Data\<close>

abbreviation ICMP_V4_REPLY :: u8 where "ICMP_V4_REPLY \<equiv> 0x00"
abbreviation ICMP_V4_ECHO :: u8 where "ICMP_V4_ECHO \<equiv> 0x08"
abbreviation ICMP_HDR_SIZE :: int where "ICMP_HDR_SIZE \<equiv> 4"
abbreviation ICMP_RETRY_COUNT :: u8 where "ICMP_RETRY_COUNT \<equiv> 3"
abbreviation ICMP_RETRY_WAIT_TIME :: u32 where "ICMP_RETRY_WAIT_TIME \<equiv> 100"

record icmp_reply_info =
  ri_sub :: subuff
  ri_dest_addr :: u32
  ri_retries :: u8
  ri_icmp_len :: u16

datatype callback =
    Icmp_reply_handler icmp_reply_info
  | Tcp_retransmit_handler
  | Close_connection nat

type_synonym 'a stack = "(callback, 'a) timer_state_scheme"

section \<open>Handlers\<close>

text \<open>\<^verbatim>\<open>free(sub)\<close>, which leaves the data block behind.\<close>

definition free_struct_only :: "subuff \<Rightarrow> 'a heap_state_scheme \<Rightarrow> 'a heap_state_scheme" where
  "free_struct_only sub w = w\<lparr>live_subs := live_subs w - 1\<rparr>"

definition icmp_reply_handler :: "icmp_reply_info \<Rightarrow> 'a stack \<Rightarrow> 'a stack outcome" where
  "icmp_reply_handler info w =
     (let sub = (ri_sub info)\<lparr>s_len := ucast (ri_icmp_len info), s_data := 34\<rparr>
      in bindo (ip_output (ri_dest_addr info) sub w) (\<lambda>(status, sub, w).
           if status = - EAGAIN then
             if ri_retries info \<le> 0 then Inr (free_sub sub w)
             else timer_oneshot ICMP_RETRY_WAIT_TIME
                    (Icmp_reply_handler (info\<lparr>ri_sub := sub, ri_retries := ri_retries info - 1\<rparr>)) w
           else Inr (free_sub sub w)))"

definition icmp_reply :: "subuff \<Rightarrow> 'a stack \<Rightarrow> 'a stack outcome" where
  "icmp_reply sub w =
     (let icmp_len = word_of_int (IP_PAYLOAD_LEN (s_head sub)) :: u16;
          sub = sub_reserve sub (ETH_HDR_LEN + IP_HDR_LEN + ucast icmp_len);
          sub = sub_push sub (ucast icmp_len);
          p = nat (s_data sub)
      in if s_end sub < p + 4 \<or> s_end sub < p + unat icmp_len then Inl OutOfBounds
         else
           let m = (s_head sub)(p := ICMP_V4_REPLY, p + 1 := 0);
               m = put16 m (p + 2) 0;
               m = put16 m (p + 2) (do_csum m p (uint icmp_len) 0);
               sub = sub\<lparr>s_head := m, s_protocol := ucast IPP_NUM_ICMP, s_len := ucast icmp_len\<rparr>;
               dest_addr = get32 m 26
           in if oom w then Inr (free_struct_only sub w)
              else icmp_reply_handler \<lparr>ri_sub = sub, ri_dest_addr = dest_addr,
                     ri_retries = ICMP_RETRY_COUNT, ri_icmp_len = icmp_len\<rparr> w)"

definition icmp_rx :: "subuff \<Rightarrow> 'a stack \<Rightarrow> 'a stack outcome" where
  "icmp_rx sub w =
     (let m = s_head sub
      in if IP_PAYLOAD_LEN m < ICMP_HDR_SIZE then Inr (free_struct_only sub w)
         else if s_end sub < 34 + unat (get16 m 16) then Inl OutOfBounds
         else if do_csum m 34 (uint (get16 m 16)) 0 \<noteq> 0 then Inr (free_struct_only sub w)
         else if m 34 = ICMP_V4_ECHO then icmp_reply sub w
         else Inr (free_struct_only sub w))"

section \<open>The reply on the wire\<close>

definition icmp_echo_reply :: "u8 list \<Rightarrow> u8 list" where
  "icmp_echo_reply req =
     (let cs = rfc1071 (block_of ([0, 0, 0, 0] @ drop 4 req)) 0 (length req)
      in [0, 0, byte1 cs, byte0 cs] @ drop 4 req)"

definition icmp_reply_mem :: "mem \<Rightarrow> nat \<Rightarrow> mem" where
  "icmp_reply_mem m n = (let m0 = put16 (m(34 := 0, 35 := 0)) 36 0 in put16 m0 36 (do_csum m0 34 (int n) 0))"

lemma get_bytes_4: "get_bytes m i 4 = [m i, m (i + 1), m (i + 2), m (i + 3)]"
  by (rule nth_equalityI) (auto simp: less_Suc_eq numeral_eq_Suc)

lemma byte_0 [simp]: "byte0 (0 :: u16) = 0" "byte1 (0 :: u16) = 0"
  by (simp_all add: byte0_def byte1_def)

lemma icmp_reply_mem_bytes:
  assumes "4 \<le> n" and "n \<le> 65535"
  shows "get_bytes (icmp_reply_mem m n) 34 n = icmp_echo_reply (get_bytes m 34 n)"
proof -
  define m0 where "m0 = put16 (m(34 := 0, 35 := 0)) 36 0"
  have n: "n = 4 + (n - 4)" using assms(1) by simp
  have d: "drop 4 (get_bytes m 34 n) = get_bytes m 38 (n - 4)"
    by (subst n, subst get_bytes_split) simp
  have rest: "get_bytes (put16 m0 36 v) 38 (n - 4) = get_bytes m 38 (n - 4)" for v
    by (rule get_bytes_cong) (simp add: m0_def put16_apply)
  have rest0: "get_bytes m0 38 (n - 4) = get_bytes m 38 (n - 4)"
    by (rule get_bytes_cong) (simp add: m0_def put16_apply)
  have z: "get_bytes m0 34 n = [0, 0, 0, 0] @ drop 4 (get_bytes m 34 n)"
    unfolding d rest0 [symmetric]
    by (subst n, subst get_bytes_split) (simp add: get_bytes_4 m0_def put16_apply)
  have len: "length ([0, 0, 0, 0] @ drop 4 (get_bytes m 34 n)) = n" using arg_cong [OF z, of length] by simp
  have "rfc1071 m0 34 n = rfc1071 (block_of ([0, 0, 0, 0] @ drop 4 (get_bytes m 34 n))) 0 n"
    unfolding rfc1071_def
    using be_sum_block [of n "[0, 0, 0, 0] @ drop 4 (get_bytes m 34 n)" m0 34] z unfolding len by simp
  then have c: "htons (do_csum m0 34 (int n) 0) = rfc1071 (block_of ([0, 0, 0, 0] @ drop 4 (get_bytes m 34 n))) 0 n"
    using csum_is_rfc1071 [OF assms(2)] by simp
  have "get_bytes (put16 m0 36 (do_csum m0 34 (int n) 0)) 34 n =
      [0, 0, byte0 (do_csum m0 34 (int n) 0), byte1 (do_csum m0 34 (int n) 0)] @ get_bytes m 38 (n - 4)"
    using rest by (subst n, subst get_bytes_split) (simp add: get_bytes_4 put16_apply, simp add: m0_def put16_apply)
  then show ?thesis
    unfolding icmp_reply_mem_def Let_def m0_def [symmetric] icmp_echo_reply_def d [symmetric]
    by (simp add: c [unfolded append.simps, symmetric] byte_bswap16)
qed

section \<open>Properties\<close>

text \<open>A buffer that holds an echo request with a payload of \<open>n\<close> bytes, as \<open>ip_rx\<close> passes it on.\<close>

definition echo_request_sub :: "subuff \<Rightarrow> nat \<Rightarrow> bool" where
  "echo_request_sub sub n \<longleftrightarrow>
     s_data sub = 0 \<and> 4 \<le> n \<and> 54 + n \<le> s_end sub \<and> n \<le> 65515
   \<and> ip_ihl (s_head sub) = 5 \<and> get16 (s_head sub) 16 = word_of_nat (20 + n)
   \<and> do_csum (s_head sub) 34 (int (20 + n)) 0 = 0 \<and> s_head sub 34 = ICMP_V4_ECHO"

definition icmp_reply_sub :: "subuff \<Rightarrow> nat \<Rightarrow> subuff" where
  "icmp_reply_sub sub n = sub\<lparr>s_data := 34, s_head := icmp_reply_mem (s_head sub) n, s_protocol := 1, s_len := word_of_nat n\<rparr>"

lemma unat_word_small [simp]: "n < 65536 \<Longrightarrow> unat (word_of_nat n :: u16) = n" "n < 65536 \<Longrightarrow> unat (word_of_nat n :: u32) = n"
  by (simp_all add: unat_of_nat)

lemma icmp_rx_request:
  assumes req: "echo_request_sub sub n" and w: "\<not> oom w"
  shows "icmp_rx sub w = icmp_reply_handler \<lparr>ri_sub = icmp_reply_sub sub n, ri_dest_addr = get32 (s_head sub) 26,
    ri_retries = ICMP_RETRY_COUNT, ri_icmp_len = word_of_nat n\<rparr> w"
proof -
  let ?m = "s_head sub"
  have r: "s_data sub = 0" "4 \<le> n" "54 + n \<le> s_end sub" "n \<le> 65515" "ip_ihl ?m = 5"
      "get16 ?m 16 = word_of_nat (20 + n)" "do_csum ?m 34 (int (20 + n)) 0 = 0" "?m 34 = ICMP_V4_ECHO"
    using req by (simp_all add: echo_request_sub_def)
  have u: "uint (get16 ?m 16) = int (20 + n)" "unat (get16 ?m 16) = 20 + n"
    using r(4) unfolding r(6) uint_nat by (simp_all del: of_nat_add)
  have p: "IP_PAYLOAD_LEN ?m = int n" using u r(5) by (simp add: IP_PAYLOAD_LEN_def)
  have l: "uint (word_of_nat n :: u16) = int n" "unat (word_of_nat n :: u16) = n"
    using r(4) unfolding uint_nat by simp_all
  have v: "(ucast (word_of_nat n :: u16) :: u32) = word_of_nat n" "uint (word_of_nat n :: u32) = int n"
      "uint (34 + word_of_nat n :: u32) = 34 + int n"
    using r(4) unat_add_small [of 34 "word_of_nat n"] unfolding uint_nat by (simp_all add: word_unat_eq_iff)
  have "icmp_rx sub w = icmp_reply sub w"
    using r u p by (simp add: icmp_rx_def Let_def)
  also have "\<dots> = icmp_reply_handler \<lparr>ri_sub = icmp_reply_sub sub n, ri_dest_addr = get32 ?m 26,
      ri_retries = ICMP_RETRY_COUNT, ri_icmp_len = word_of_nat n\<rparr> w"
    using r p l v w
    by (simp add: icmp_reply_def Let_def icmp_reply_sub_def icmp_reply_mem_def byte_simps sub_push_def sub_reserve_def)
  finally show ?thesis .
qed

lemma icmp_rx_answers:
  assumes "echo_request_sub sub n" and "\<not> oom w"
    and "route_lookup (get32 (s_head sub) 26) w = Some rt" and "wf_dev (rt_dev rt)"
    and "arp_get_hwaddr (next_hop rt (get32 (s_head sub) 26)) w = Some mac" and "length mac = 6"
    and "frame = eth_frame mac (dev_hwaddr (rt_dev rt)) ETH_P_IP
      (ipv4_packet (get16 (s_head sub) 18) IPP_NUM_ICMP (dev_addr (rt_dev rt)) (get32 (s_head sub) 26)
        (icmp_echo_reply (get_bytes (s_head sub) 34 n)))"
    and "tap_ret w frame \<noteq> - EAGAIN"
  shows "icmp_rx sub w = Inr (w\<lparr>tap_out := tap_out w @ [frame],
    live_subs := live_subs w - 1, live_bufs := live_bufs w - 1\<rparr>)"
proof -
  let ?sub = "icmp_reply_sub sub n"
  have n: "4 \<le> n" "n \<le> 65515" "54 + n \<le> s_end sub" using assms(1) by (simp_all add: echo_request_sub_def)
  have l: "s_len ?sub = word_of_nat n" "unat (s_len ?sub) = n" "s_data ?sub = 34" "s_end ?sub = s_end sub"
      "ucast (s_protocol ?sub) = IPP_NUM_ICMP"
    using n by (simp_all add: icmp_reply_sub_def)
  have b: "get_bytes (s_head ?sub) 34 n = icmp_echo_reply (get_bytes (s_head sub) 34 n)"
    using n by (simp add: icmp_reply_sub_def icmp_reply_mem_bytes)
  have i: "get16 (s_head ?sub) 18 = get16 (s_head sub) 18"
    by (simp add: icmp_reply_sub_def icmp_reply_mem_def Let_def byte_simps)
  have u: "?sub\<lparr>s_len := ucast (word_of_nat n :: u16), s_data := 34\<rparr> = ?sub"
    using n by (simp add: icmp_reply_sub_def word_unat_eq_iff)
  obtain sub' where "ip_output (get32 (s_head sub) 26) ?sub w = Inr (tap_ret w frame, sub', w\<lparr>tap_out := tap_out w @ [frame]\<rparr>)"
    using ip_output_frame [OF assms(3-6), of ?sub frame] assms(7) n l b i by auto
  then show ?thesis
    using assms(8) u by (simp add: icmp_rx_request [OF assms(1,2)] icmp_reply_handler_def Let_def free_sub_def)
qed

text \<open>An echo request whose sender is routable and resolved is answered by exactly one frame: an IPv4 packet
  to the sender, with the identification of the request, whose body is the request with type and
  code 0 and a correct checksum. The request's buffer is released and no timer is left behind.\<close>

theorem icmp_rx_echo:
  assumes "echo_request_sub sub n" and "\<not> oom w"
    and "route_lookup (get32 (s_head sub) 26) w = Some rt" and "wf_dev (rt_dev rt)"
    and "arp_get_hwaddr (next_hop rt (get32 (s_head sub) 26)) w = Some mac" and "length mac = 6"
    and "frame = eth_frame mac (dev_hwaddr (rt_dev rt)) ETH_P_IP
      (ipv4_packet (get16 (s_head sub) 18) IPP_NUM_ICMP (dev_addr (rt_dev rt)) (get32 (s_head sub) 26)
        (icmp_echo_reply (get_bytes (s_head sub) 34 n)))"
    and "tap_ret w frame \<noteq> - EAGAIN"
  shows "icmp_rx sub w = Inr (w\<lparr>tap_out := tap_out w @ [frame],
    live_subs := live_subs w - 1, live_bufs := live_bufs w - 1\<rparr>)"
  by (rule icmp_rx_answers [OF assms])

text \<open>If the sender is not resolved, each attempt asks for the address and either arms one retry, 100 ms later,
  with one attempt less and the reply intact, or, after the last attempt, releases the reply: a
  reply is attempted at most four times.\<close>

theorem icmp_reply_unresolved:
  assumes "\<not> oom w" and "route_lookup (ri_dest_addr info) w = Some rt" and "wf_dev (rt_dev rt)"
    and "arp_get_hwaddr (next_hop rt (ri_dest_addr info)) w = None" and "34 \<le> s_end (ri_sub info)"
    and "w0 = w\<lparr>tap_out := tap_out w @ [arp_request_frame (dev_addr (rt_dev rt)) (next_hop rt (ri_dest_addr info)) (rt_dev rt)]\<rparr>"
  shows "if ri_retries info = 0
    then icmp_reply_handler info w = Inr (w0\<lparr>live_subs := live_subs w - 1, live_bufs := live_bufs w - 1\<rparr>)
    else \<exists>info'. icmp_reply_handler info w = timer_oneshot ICMP_RETRY_WAIT_TIME (Icmp_reply_handler info') w0
      \<and> unat (ri_retries info') < unat (ri_retries info) \<and> ri_dest_addr info' = ri_dest_addr info
      \<and> ri_icmp_len info' = ri_icmp_len info \<and> s_end (ri_sub info') = s_end (ri_sub info)
      \<and> (\<forall>i \<ge> 34. s_head (ri_sub info') i = s_head (ri_sub info) i)"
proof -
  let ?sub = "(ri_sub info)\<lparr>s_len := ucast (ri_icmp_len info), s_data := 34\<rparr>"
  obtain sub' where s: "ip_output (ri_dest_addr info) ?sub w = Inr (- EAGAIN, sub', w0)"
      "s_end sub' = s_end (ri_sub info)" "\<forall>i \<ge> 34. s_head sub' i = s_head (ri_sub info) i"
    using ip_output_unresolved_sub [OF assms(2,3,1,4), of ?sub] assms(5,6) by auto
  show ?thesis
  proof (cases "ri_retries info = 0")
    case True
    then show ?thesis using s(1) by (simp add: icmp_reply_handler_def Let_def free_sub_def assms(6))
  next
    case False
    then have "unat (ri_retries info - 1) < unat (ri_retries info)"
      by (simp add: unat_minus_one unat_gt_0)
    then show ?thesis
      using False s by (auto simp: icmp_reply_handler_def Let_def)
  qed
qed

text \<open>A dropped ICMP packet (too short, wrong checksum, not an echo request) releases the structure but not
  its data block: every such packet leaks one block.\<close>

theorem icmp_rx_drop_leaks:
  assumes "34 + unat (get16 (s_head sub) 16) \<le> s_end sub"
    and "IP_PAYLOAD_LEN (s_head sub) < 4 \<or> do_csum (s_head sub) 34 (uint (get16 (s_head sub) 16)) 0 \<noteq> 0
      \<or> s_head sub 34 \<noteq> ICMP_V4_ECHO"
  shows "icmp_rx sub w = Inr (w\<lparr>live_subs := live_subs w - 1\<rparr>)"
  using assms by (auto simp: icmp_rx_def Let_def free_struct_only_def)

text \<open>An echo request of 10.0.0.5 without data, as \<open>ip_rx\<close> passes it on.\<close>

definition sample_echo :: "u8 list" where
  "sample_echo = [8, 0, 0xf7, 0xff, 0, 0, 0, 0]"

definition sample_echo_sub :: subuff where
  "sample_echo_sub = rx_sub 1522 (replicate 14 0 @ [0x45, 0, 28, 0, 7, 0, 0x40, 0, 64, 1, 0, 0, 5, 0, 0, 10, 4, 0, 0, 10] @ sample_echo)"

definition sample_stack :: "arp_cache_entry list \<Rightarrow> callback timer_state" where
  "sample_stack c = \<lparr>live_subs = 1, live_bufs = 1, oom = False, cdev_lo = Some sample_lo, cdev_ext = Some sample_dev,
     tap_out = [], tap_ret = (\<lambda>f. int (length f)), arp_cache = c,
     routes = [lo_route sample_lo, host_route sample_dev, gw_route sample_dev],
     timers = [], tick = 100, t_next = 0, spawned = []\<rparr>"

lemma sample_stack_simps [simp]:
  "\<not> oom (sample_stack c)" "tap_out (sample_stack c) = []" "tap_ret (sample_stack c) f = int (length f)"
  "live_subs (sample_stack c) = 1" "live_bufs (sample_stack c) = 1"
  "route_lookup 0x0A000005 (sample_stack c) = Some (host_route sample_dev)"
  "next_hop (host_route sample_dev) a = a" "rt_dev (host_route sample_dev) = sample_dev"
  "arp_get_hwaddr 0x0A000005 (sample_stack []) = None"
  "arp_get_hwaddr 0x0A000005 (sample_stack [sample_gw_entry]) = Some [0xaa, 0xbb, 0xcc, 0xdd, 0xee, 0xff]"
  by (simp_all add: sample_stack_def route_lookup_def rt_matches_def lo_route_def host_route_def sample_lo_def
      next_hop_def arp_get_hwaddr_def sample_gw_entry_def)

lemma sample_echo_bytes:
  "get_bytes (s_head sample_echo_sub) 34 8 = sample_echo"
  "get32 (s_head sample_echo_sub) 26 = 0x0A000005"
  "get16 (s_head sample_echo_sub) 18 = 7"
  "get16 (s_head sample_echo_sub) 16 = 28"
  "ip_ihl (s_head sample_echo_sub) = 5"
  by (simp_all add: sample_echo_sub_def sample_echo_def rx_sub_def put_bytes_def get_bytes_def get32_def get16_def
      le32_def le16_def ip_ihl_def nth_append word_unat_eq_iff unat_mod_distrib)

lemma sample_echo_verifies: "do_csum (s_head sample_echo_sub) 34 (int 28) 0 = 0"
proof -
  have "le_sum (s_head sample_echo_sub) 34 28 = 65535"
    by (simp add: le_sum_def lessThan_nat_numeral lessThan_Suc sample_echo_sub_def sample_echo_def rx_sub_def put_bytes_def nth_append)
  then show ?thesis using ip_sum.verifies_iff [of 0 "s_head sample_echo_sub" 34 28] by simp
qed

lemma sample_echo_request: "echo_request_sub sample_echo_sub 8"
  using sample_echo_verifies sample_echo_bytes
  by (simp add: echo_request_sub_def) (simp add: sample_echo_sub_def rx_sub_def put_bytes_def nth_append sample_echo_def)

theorem icmp_rx_echo_witness:
  "\<exists>w'. icmp_rx sample_echo_sub (sample_stack [sample_gw_entry]) = Inr w'
     \<and> tap_out w' = [eth_frame [0xaa, 0xbb, 0xcc, 0xdd, 0xee, 0xff] (dev_hwaddr sample_dev) ETH_P_IP
         (ipv4_packet 7 1 0x0A000004 0x0A000005 (icmp_echo_reply sample_echo))]
     \<and> live_bufs w' = 0"
  using icmp_rx_echo [OF sample_echo_request, of "sample_stack [sample_gw_entry]" "host_route sample_dev" _ _]
  by (simp add: sample_echo_bytes)

definition sample_reply_info :: "u8 \<Rightarrow> icmp_reply_info" where
  "sample_reply_info r = \<lparr>ri_sub = icmp_reply_sub sample_echo_sub 8, ri_dest_addr = 0x0A000005, ri_retries = r, ri_icmp_len = 8\<rparr>"

theorem icmp_reply_unresolved_witness:
  "(\<exists>w'. icmp_reply_handler (sample_reply_info 0) (sample_stack []) = Inr w' \<and> live_bufs w' = 0 \<and> timers w' = [])
   \<and> (\<exists>w'. icmp_reply_handler (sample_reply_info 3) (sample_stack []) = Inr w' \<and> live_bufs w' = 1 \<and> length (timers w') = 1)"
proof -
  have e: "s_end (ri_sub (sample_reply_info r)) = 1522" for r
    by (simp add: sample_reply_info_def icmp_reply_sub_def sample_echo_sub_def rx_sub_def)
  have d: "ri_dest_addr (sample_reply_info r) = 0x0A000005" "ri_retries (sample_reply_info r) = r" for r
    by (simp_all add: sample_reply_info_def)
  show ?thesis
    using icmp_reply_unresolved [of "sample_stack []" "sample_reply_info 0" "host_route sample_dev" _]
      icmp_reply_unresolved [of "sample_stack []" "sample_reply_info 3" "host_route sample_dev" _]
    by (auto simp: e d timer_oneshot_def timer_insert_eq) (auto simp: sample_stack_def)
qed

theorem icmp_rx_drop_leaks_witness:
  "\<exists>w'. icmp_rx (rx_sub 1522 []) (sample_stack []) = Inr w' \<and> live_subs w' = 0 \<and> live_bufs w' = 1"
proof -
  have "IP_PAYLOAD_LEN (s_head (rx_sub 1522 [])) < 4" "unat (get16 (s_head (rx_sub 1522 [])) 16) = 0"
    by (simp_all add: rx_sub_def IP_PAYLOAD_LEN_def put_bytes_def get16_def le16_def ip_ihl_def)
  then show ?thesis
    using icmp_rx_drop_leaks [of "rx_sub 1522 []" "sample_stack []"] by (simp add: rx_sub_def)
qed

end
