(* ===== verification/Tcp_Out.thy ===== *)
theory Tcp_Out
  imports Icmp
begin

text \<open>
  The sending side of TCP: the data of \<^verbatim>\<open>src/tcp.h\<close> (connection states, header, control block, queued
  message), \<open>struct anp_socket\<close> of \<^verbatim>\<open>src/anpwrapper.h\<close>, and from \<^verbatim>\<open>src/tcp.c\<close> the functions \<open>add_msg_to_arr\<close>,
  \<open>create_tcp_packet\<close>, \<open>tcp_tx\<close>, \<open>stop_retransmit\<close>, \<open>tcp_retransmit_handler\<close> and \<open>free_tcb\<close>.

  The TCP header follows the 20 bytes of the IP header: 34 source port, 36 destination port, 38 sequence
  number, 42 acknowledgement number, 46 data offset, 47 flags, 48 window, 50 checksum, 52 urgent pointer,
  54 data.

  Control blocks live in a heap \<open>tcbs\<close> that maps addresses to blocks; a freed block is absent. The ring
  \<open>messages_array\<close> is modelled by its contents. An operation runs from its call to its return or to a
  \<^verbatim>\<open>pthread_cond_wait\<close>; the two mutexes of a control block are flags that say whether they are held when it
  gets there, and locking a mutex that is held is the fault \<open>SelfDeadlock\<close>. \<open>msg_arr_lock\<close> and the other
  global locks are released by every operation before it returns or waits and need no flag.

  Where the code reads or writes memory in the very function call that has just freed it, the model goes
  on with the contents the memory had, as the allocators the stack runs on do, and counts the access in
  \<open>uaf\<close>. A pointer that is used later, after its block was freed, is the fault \<open>UseAfterFree\<close>.
\<close>

section \<open>Data\<close>

abbreviation TCP_FIN :: u8 where "TCP_FIN \<equiv> 0x01"
abbreviation TCP_SYN :: u8 where "TCP_SYN \<equiv> 0x02"
abbreviation TCP_PSH :: u8 where "TCP_PSH \<equiv> 0x08"
abbreviation TCP_ACK :: u8 where "TCP_ACK \<equiv> 0x10"
abbreviation TCP_FINACK :: u8 where "TCP_FINACK \<equiv> 0x11"
abbreviation TCP_SYNACK :: u8 where "TCP_SYNACK \<equiv> 0x12"
abbreviation TCP_WAIT_TIME :: u32 where "TCP_WAIT_TIME \<equiv> 10"
abbreviation TCP_MAX_SEG_SIZE :: u32 where "TCP_MAX_SEG_SIZE \<equiv> 1460"
abbreviation TCP_RCV_MAX :: u32 where "TCP_RCV_MAX \<equiv> 65535"
abbreviation MAX_UINT32 :: u32 where "MAX_UINT32 \<equiv> 0xFFFFFFFF"
abbreviation TCP_MIN_DATA_OFFSET :: u8 where "TCP_MIN_DATA_OFFSET \<equiv> 0x50"
abbreviation TCP_HDR_LEN :: u32 where "TCP_HDR_LEN \<equiv> 20"

text \<open>The retry counts are \<^verbatim>\<open>int\<close> constants that are stored in and compared with a \<^verbatim>\<open>uint32_t\<close>.\<close>

abbreviation RETRIES_INFINITE :: u32 where "RETRIES_INFINITE \<equiv> - 1"
abbreviation RETRIES_CONN_MAX :: u32 where "RETRIES_CONN_MAX \<equiv> 10"
abbreviation RETRIES_SENDONCE :: u32 where "RETRIES_SENDONCE \<equiv> - 2"

datatype tcp_states =
    TCP_LISTEN | TCP_SYN_SENT | TCP_SYN_RECEIVED | TCP_ESTABLISHED | TCP_FIN_WAIT_1 | TCP_FIN_WAIT_2
  | TCP_CLOSED | TCP_CLOSE_WAIT | TCP_CLOSING | TCP_LAST_ACK | TCP_TIME_WAIT

record tcb =
  c_state :: tcp_states
  local_port :: u16
  remote_port :: u16
  local_ip :: u32
  remote_ip :: u32
  tcb_locked :: bool
  rcv_nxt :: u32
  rcv_wnd :: u32
  irs :: u32
  rcv_buff_len :: u32
  rcv_buff :: mem
  send_locked :: bool
  snd_una :: u32
  snd_nxt :: u32
  snd_wnd :: u32
  iss :: u32

text \<open>\<open>m_tcp_ptr\<close> is the distance of \<^verbatim>\<open>tcp_ptr\<close> from the head of the message's buffer, \<open>None\<close> once that buffer
  has been freed under it.\<close>

record tcp_message =
  m_tcb :: nat
  m_sub :: subuff
  m_tcp_ptr :: "nat option"
  m_tcp_len :: u32
  m_tcp_data_len :: u32
  m_retries :: u32

record anp_socket =
  sk_fd :: int
  sk_type :: int
  sk_protocol :: int
  sk_domain :: int
  sk_conn_info :: "nat option"

datatype cond_var = Tcb_cond nat | Send_cond nat

record tcp_state = "callback timer_state" +
  tcbs :: "nat \<Rightarrow> tcb option"
  tcb_next :: nat
  messages_array :: "tcp_message list"
  anp_sockets_cache :: "anp_socket list"
  fd_in_use :: "nat \<Rightarrow> bool"
  available_port :: u16
  errno :: int
  signals :: "cond_var list"
  uaf :: nat

section \<open>Access to control blocks\<close>

definition the_tcb :: "nat \<Rightarrow> 'a tcp_state_scheme \<Rightarrow> tcb outcome" where
  "the_tcb p w = (case tcbs w p of None \<Rightarrow> Inl UseAfterFree | Some c \<Rightarrow> Inr c)"

definition upd_tcb :: "nat \<Rightarrow> (tcb \<Rightarrow> tcb) \<Rightarrow> 'a tcp_state_scheme \<Rightarrow> 'a tcp_state_scheme outcome" where
  "upd_tcb p f w = bindo (the_tcb p w) (\<lambda>c. Inr (w\<lparr>tcbs := (tcbs w)(p \<mapsto> f c)\<rparr>))"

definition lock_tcb :: "nat \<Rightarrow> 'a tcp_state_scheme \<Rightarrow> 'a tcp_state_scheme outcome" where
  "lock_tcb p w = bindo (the_tcb p w) (\<lambda>c.
     if tcb_locked c then Inl SelfDeadlock else upd_tcb p (tcb_locked_update (\<lambda>_. True)) w)"

definition unlock_tcb :: "nat \<Rightarrow> 'a tcp_state_scheme \<Rightarrow> 'a tcp_state_scheme outcome" where
  "unlock_tcb p w = upd_tcb p (tcb_locked_update (\<lambda>_. False)) w"

definition lock_send :: "nat \<Rightarrow> 'a tcp_state_scheme \<Rightarrow> 'a tcp_state_scheme outcome" where
  "lock_send p w = bindo (the_tcb p w) (\<lambda>c.
     if send_locked c then Inl SelfDeadlock else upd_tcb p (send_locked_update (\<lambda>_. True)) w)"

definition unlock_send :: "nat \<Rightarrow> 'a tcp_state_scheme \<Rightarrow> 'a tcp_state_scheme outcome" where
  "unlock_send p w = upd_tcb p (send_locked_update (\<lambda>_. False)) w"

definition signal :: "cond_var \<Rightarrow> 'a tcp_state_scheme \<Rightarrow> 'a tcp_state_scheme" where
  "signal v w = w\<lparr>signals := signals w @ [v]\<rparr>"

section \<open>Segments\<close>

text \<open>The stores of \<open>create_tcp_packet\<close> into the segment, whose header starts at \<open>p\<close>, in order.\<close>

definition tcp_fill :: "mem \<Rightarrow> nat \<Rightarrow> tcb \<Rightarrow> u8 list \<Rightarrow> u8 \<Rightarrow> u32 \<Rightarrow> mem" where
  "tcp_fill m p c data flags slen =
     (let m = put16 m p (htons (local_port c));
          m = put16 m (p + 2) (htons (remote_port c));
          m = put32 m (p + 4) (snd_nxt c);
          m = put32 m (p + 8) (rcv_nxt c);
          m = m(p + 12 := TCP_MIN_DATA_OFFSET);
          m = m(p + 13 := flags);
          m = put16 m (p + 14) (htons 65535);
          m = put16 m (p + 18) 0;
          m = put32 m (p + 4) (htonl (get32 m (p + 4)));
          m = put32 m (p + 8) (htonl (get32 m (p + 8)));
          m = put16 m (p + 14) (htons (get16 m (p + 14)));
          m = (if 0 < length data then put_bytes m (p + 20) data else m);
          m = put16 m (p + 16) 0
      in put16 m (p + 16)
           (do_tcp_csum m p (uint slen) (htons (ucast IPP_TCP)) (htonl (local_ip c)) (htonl (remote_ip c))))"

text \<open>\<open>data\<close> is the block of \<open>data_len\<close> bytes that the code copies.\<close>

definition create_tcp_packet ::
  "tcb \<Rightarrow> u8 list \<Rightarrow> u8 \<Rightarrow> 'a heap_state_scheme \<Rightarrow> (subuff \<times> tcb \<times> 'a heap_state_scheme) outcome" where
  "create_tcp_packet c data flags w =
     (let data_len = word_of_nat (length data) :: u32;
          total = ETH_HDR_LEN + IP_HDR_LEN + TCP_HDR_LEN + data_len
      in bindo (alloc_sub total w) (\<lambda>(sub, w).
           let sub = sub_reserve sub total;
               sub = sub_push sub (TCP_HDR_LEN + data_len);
               sub = sub\<lparr>s_protocol := ucast IPP_TCP, s_len := TCP_HDR_LEN + data_len, s_dlen := data_len\<rparr>;
               m = tcp_fill (s_head sub) (nat (s_data sub)) c data flags (s_len sub);
               c = (if flags AND TCP_SYN \<noteq> 0 \<or> flags AND TCP_FIN \<noteq> 0 then c\<lparr>snd_nxt := snd_nxt c + 1\<rparr> else c)
           in Inr (sub\<lparr>s_head := m\<rparr>, c, w)))"

text \<open>The same in closed form: the buffer, the control block's new sequence number.\<close>

definition tcp_sub :: "tcb \<Rightarrow> u8 list \<Rightarrow> u8 \<Rightarrow> subuff" where
  "tcp_sub c data flags =
     (let total = 54 + word_of_nat (length data) :: u32; slen = 20 + word_of_nat (length data) :: u32
      in \<lparr>s_rt = None, s_dev = None, s_protocol = 6, s_seq = 0, s_end_seq = 0,
          s_head = tcp_fill (\<lambda>_. 0) (nat (uint total - uint slen)) c data flags slen, s_end = unat total,
          s_data = uint total - uint slen, s_len = slen, s_payload = None, s_dlen = word_of_nat (length data)\<rparr>)"

definition bump_nxt :: "tcb \<Rightarrow> u8 \<Rightarrow> tcb" where
  "bump_nxt c flags =
     (if flags AND TCP_SYN \<noteq> 0 \<or> flags AND TCP_FIN \<noteq> 0 then c\<lparr>snd_nxt := snd_nxt c + 1\<rparr> else c)"

definition ENOMEM :: int where "ENOMEM = 12"

definition add_msg_to_arr :: "nat \<Rightarrow> subuff \<Rightarrow> u32 \<Rightarrow> 'a tcp_state_scheme \<Rightarrow> 'a tcp_state_scheme" where
  "add_msg_to_arr p sub retries w =
     (if oom w then w\<lparr>errno := - ENOMEM\<rparr>
      else w\<lparr>messages_array := messages_array w @
        [\<lparr>m_tcb = p, m_sub = sub, m_tcp_ptr = Some (nat (s_data sub)), m_tcp_len = s_len sub,
          m_tcp_data_len = s_dlen sub, m_retries = retries\<rparr>]\<rparr>)"

section \<open>Transmission\<close>

text \<open>
  One round of the loop of \<open>tcp_tx\<close>, for \<open>data\<close> of \<open>data_size\<close> bytes of which \<open>data_sent\<close> have been queued:
  \<open>Tx_done\<close> leaves the loop, \<open>Tx_wait\<close> is the call of \<^verbatim>\<open>pthread_cond_wait\<close>, which releases \<open>send_lock\<close>, and
  \<open>Tx_more\<close> starts the next round.
\<close>

datatype tx_round = Tx_done | Tx_wait | Tx_more

definition tcp_tx_round ::
  "nat \<Rightarrow> u8 list \<Rightarrow> u32 \<Rightarrow> u32 \<Rightarrow> u8 \<Rightarrow> u32 \<Rightarrow> 'a tcp_state_scheme \<Rightarrow> (tx_round \<times> u32 \<times> 'a tcp_state_scheme) outcome" where
  "tcp_tx_round p data data_size data_sent flags retries w =
     bindo (lock_send p w) (\<lambda>w.
     bindo (the_tcb p w) (\<lambda>c.
       let nxt_seg_size = min (snd_wnd c) (min TCP_MAX_SEG_SIZE (data_size - data_sent))
       in bindo (create_tcp_packet c (take (unat nxt_seg_size) (drop (unat data_sent) data)) flags w) (\<lambda>(sub, c, w).
          let data_sent = data_sent + nxt_seg_size;
              c = c\<lparr>snd_nxt := snd_nxt c + nxt_seg_size\<rparr>;
              w = w\<lparr>tcbs := (tcbs w)(p \<mapsto> c)\<rparr>;
              w = add_msg_to_arr p sub retries w
          in bindo (unlock_send p w) (\<lambda>w.
               Inr (if data_sent = data_size then Tx_done
                    else if snd_wnd c \<le> snd_nxt c - snd_una c then Tx_wait else Tx_more, data_sent, w)))))"

lemma create_tcp_packet_eq:
  "create_tcp_packet c data flags w =
     (if oom w then Inl NullPointer
      else Inr (tcp_sub c data flags, bump_nxt c flags, w\<lparr>live_subs := live_subs w + 1, live_bufs := live_bufs w + 1\<rparr>))"
  by (simp add: create_tcp_packet_def tcp_sub_def bump_nxt_def alloc_sub_def Let_def sub_push_def sub_reserve_def)

definition seg_size :: "tcb \<Rightarrow> u32 \<Rightarrow> u32 \<Rightarrow> u32" where
  "seg_size c data_size data_sent = min (snd_wnd c) (min TCP_MAX_SEG_SIZE (data_size - data_sent))"

lemma tcp_tx_round_cases:
  assumes "tcp_tx_round p data data_size data_sent flags retries w = Inr (r, data_sent', w')"
  shows "\<exists>c. data_sent' = data_sent + seg_size c data_size data_sent \<and> (data_sent' = data_size \<longleftrightarrow> r = Tx_done)
    \<and> (r = Tx_more \<longrightarrow> snd_wnd c \<noteq> 0)"
proof -
  obtain w1 c where w1: "lock_send p w = Inr w1" "the_tcb p w1 = Inr c"
    using assms unfolding tcp_tx_round_def by blast
  let ?k = "seg_size c data_size data_sent" and ?b = "bump_nxt c flags"
  let ?r = "if data_sent + ?k = data_size then Tx_done
    else if snd_wnd ?b \<le> snd_nxt ?b + ?k - snd_una ?b then Tx_wait else Tx_more"
  have "r = ?r \<and> data_sent' = data_sent + ?k"
    using assms w1 unfolding tcp_tx_round_def Let_def create_tcp_packet_eq seg_size_def
    by (cases "oom w1") (auto simp del: min_less_iff_conj)
  moreover have "snd_wnd ?b = snd_wnd c" by (simp add: bump_nxt_def)
  ultimately show ?thesis by (intro exI [of _ c]) auto
qed

lemma tcp_tx_round_progress:
  assumes "tcp_tx_round p data data_size data_sent flags retries w = Inr (Tx_more, data_sent', w')"
  shows "unat (data_size - data_sent') < unat (data_size - data_sent)"
proof -
  obtain c where d: "data_sent' = data_sent + seg_size c data_size data_sent" "data_sent' \<noteq> data_size" "snd_wnd c \<noteq> 0"
    using tcp_tx_round_cases [OF assms] by auto
  let ?k = "seg_size c data_size data_sent" and ?r = "data_size - data_sent"
  have "?r \<noteq> 0" using d by (cases "?r = 0") (auto simp: seg_size_def)
  then have k: "0 < unat ?k" using d(3) by (auto simp: min_def seg_size_def unat_gt_0)
  have le: "?k \<le> ?r" unfolding seg_size_def by (meson min.cobounded2 order_trans)
  have "unat (?r - ?k) < unat ?r"
    using k le by (simp add: unat_sub [OF le] word_le_nat_alt)
  moreover have "data_size - data_sent' = ?r - ?k" using d(1) by (simp add: algebra_simps)
  ultimately show ?thesis by (simp only:)
qed

text \<open>What a call of \<open>tcp_tx\<close> comes to: it returns a byte count, or it waits on \<open>send_cond\<close> with so many bytes
  queued.\<close>

datatype tx_result = Sent u32 | Waiting u32

function tcp_tx_loop ::
  "nat \<Rightarrow> u8 list \<Rightarrow> u32 \<Rightarrow> u32 \<Rightarrow> u8 \<Rightarrow> u32 \<Rightarrow> 'a tcp_state_scheme \<Rightarrow> (tx_result \<times> 'a tcp_state_scheme) outcome" where
  "tcp_tx_loop p data data_size data_sent flags retries w =
     (if data_sent \<le> data_size then
        (case tcp_tx_round p data data_size data_sent flags retries w of
           Inl e \<Rightarrow> Inl e
         | Inr (Tx_done, sent, w) \<Rightarrow> Inr (Sent sent, w)
         | Inr (Tx_wait, sent, w) \<Rightarrow> Inr (Waiting sent, w)
         | Inr (Tx_more, sent, w) \<Rightarrow> tcp_tx_loop p data data_size sent flags retries w)
      else Inr (Sent data_sent, w))"
  by pat_completeness auto
termination
  by (relation "measure (\<lambda>(p, data, data_size, data_sent, flags, retries, w). unat (data_size - data_sent))")
    (auto intro: tcp_tx_round_progress)

declare tcp_tx_loop.simps [simp del]

definition tcp_tx ::
  "nat \<Rightarrow> u8 list \<Rightarrow> u32 \<Rightarrow> u8 \<Rightarrow> u32 \<Rightarrow> 'a tcp_state_scheme \<Rightarrow> (tx_result \<times> 'a tcp_state_scheme) outcome" where
  "tcp_tx p data data_size flags retries w =
     (if retries \<noteq> RETRIES_INFINITE \<and> retries \<noteq> RETRIES_CONN_MAX \<and> retries \<noteq> RETRIES_SENDONCE
      then Inr (Sent (- 1), w)
      else tcp_tx_loop p data data_size 0 flags retries w)"

text \<open>The rest of a waiting call, once \<open>send_cond\<close> has been signalled: \<open>send_lock\<close> is taken and released.\<close>

definition tcp_tx_resume ::
  "nat \<Rightarrow> u8 list \<Rightarrow> u32 \<Rightarrow> u32 \<Rightarrow> u8 \<Rightarrow> u32 \<Rightarrow> 'a tcp_state_scheme \<Rightarrow> (tx_result \<times> 'a tcp_state_scheme) outcome" where
  "tcp_tx_resume p data data_size data_sent flags retries w =
     bindo (lock_send p w) (\<lambda>w. bindo (unlock_send p w) (\<lambda>w.
       tcp_tx_loop p data data_size data_sent flags retries w))"

text \<open>The calls of \<open>tcp_tx\<close> without data never wait and their result is ignored.\<close>

definition tcp_tx_ctl :: "nat \<Rightarrow> u8 \<Rightarrow> u32 \<Rightarrow> 'a tcp_state_scheme \<Rightarrow> 'a tcp_state_scheme outcome" where
  "tcp_tx_ctl p flags retries w = bindo (tcp_tx p [] 0 flags retries w) (\<lambda>(_, w). Inr w)"

section \<open>Retransmission\<close>

text \<open>
  The body of the loop of \<open>stop_retransmit\<close> for a message of the connection: the message that stays in the
  ring, if any. The store of the converted sequence number into the header and back cancels out, except
  that the last store hits a buffer just freed.
\<close>

definition stop_retransmit_msg ::
  "nat \<Rightarrow> tcp_message \<Rightarrow> 'a tcp_state_scheme \<Rightarrow> (tcp_message option \<times> 'a tcp_state_scheme) outcome" where
  "stop_retransmit_msg p e w =
     bindo (the_tcb p w) (\<lambda>c.
       case m_tcp_ptr e of
         None \<Rightarrow> Inl UseAfterFree
       | Some ptr \<Rightarrow>
           let seq_num = ntohl (get32 (s_head (m_sub e)) (ptr + 4))
           in if seq_num < snd_una c then
                if snd_una c < seq_num + m_tcp_data_len e then
                  let bytes_acked = snd_una c - seq_num;
                      new_size = m_tcp_data_len e - bytes_acked;
                      rest = get_bytes (s_head (m_sub e)) (ptr + 20 + unat bytes_acked) (unat new_size)
                  in if s_end (m_sub e) < ptr + 20 + unat bytes_acked + unat new_size then Inl OutOfBounds
                     else bindo (create_tcp_packet c rest TCP_ACK w) (\<lambda>(new_sub, c, w).
                       let new_sub = new_sub\<lparr>s_dlen := new_size, s_payload := Some (nat (s_data new_sub) + 20)\<rparr>;
                           w = free_sub (m_sub e) (w\<lparr>tcbs := (tcbs w)(p \<mapsto> c)\<rparr>)
                       in Inr (Some (e\<lparr>m_sub := new_sub, m_tcp_ptr := None\<rparr>), w\<lparr>uaf := uaf w + 1\<rparr>))
                else Inr (None, (free_sub (m_sub e) w)\<lparr>uaf := uaf w + 1\<rparr>)
              else Inr (Some e, w))"

fun stop_retransmit_loop ::
  "nat \<Rightarrow> tcp_message list \<Rightarrow> 'a tcp_state_scheme \<Rightarrow> (tcp_message list \<times> 'a tcp_state_scheme) outcome" where
  "stop_retransmit_loop p [] w = Inr ([], w)"
| "stop_retransmit_loop p (e # es) w =
     bindo (if m_tcb e = p then stop_retransmit_msg p e w else Inr (Some e, w)) (\<lambda>(kept, w).
     bindo (stop_retransmit_loop p es w) (\<lambda>(rest, w).
       Inr (case kept of None \<Rightarrow> rest | Some e \<Rightarrow> e # rest, w)))"

definition stop_retransmit :: "nat \<Rightarrow> 'a tcp_state_scheme \<Rightarrow> 'a tcp_state_scheme outcome" where
  "stop_retransmit p w =
     bindo (stop_retransmit_loop p (messages_array w) w) (\<lambda>(es, w). Inr (w\<lparr>messages_array := es\<rparr>))"

text \<open>
  \<^verbatim>\<open>while (ip_output(...) == -EAGAIN)\<close> spins until the receiving thread has resolved the next hop: \<open>env\<close> lists
  the ARP caches that it leaves behind before each further attempt. \<open>None\<close>: still spinning when \<open>env\<close> ends.
\<close>

fun resend ::
  "arp_cache_entry list list \<Rightarrow> u32 \<Rightarrow> tcp_message \<Rightarrow> nat \<Rightarrow> subuff \<Rightarrow> 'a tcp_state_scheme
   \<Rightarrow> (subuff \<times> arp_cache_entry list list \<times> 'a tcp_state_scheme) option outcome" where
  "resend env dst e ptr sub w =
     (case ip_output dst (sub\<lparr>s_data := int ptr, s_len := m_tcp_len e\<rparr>) w of
        Inl f \<Rightarrow> Inl f
      | Inr (status, sub, w) \<Rightarrow>
          if status = - EAGAIN then
            (case env of
               [] \<Rightarrow> Inr None
             | cache # env \<Rightarrow> resend env dst e ptr sub (w\<lparr>arp_cache := cache\<rparr>))
          else Inr (Some (sub, env, w)))"

declare resend.simps [simp del]

text \<open>The retry bookkeeping of \<open>tcp_retransmit_handler\<close> after a message has gone out.\<close>

definition after_resend ::
  "tcp_message \<Rightarrow> 'a tcp_state_scheme \<Rightarrow> (tcp_message option \<times> 'a tcp_state_scheme) outcome" where
  "after_resend e w =
     (if m_retries e = RETRIES_SENDONCE then Inr (None, (free_sub (m_sub e) w)\<lparr>uaf := uaf w + 1\<rparr>)
      else if m_retries e = RETRIES_INFINITE then Inr (Some e, w)
      else
        let e = e\<lparr>m_retries := m_retries e - 1\<rparr>
        in if m_retries e = 0 then
             bindo (lock_tcb (m_tcb e) w) (\<lambda>w.
             bindo (unlock_tcb (m_tcb e) (signal (Tcb_cond (m_tcb e)) w)) (\<lambda>w.
               Inr (None, (free_sub (m_sub e) w)\<lparr>uaf := uaf w + 1\<rparr>)))
           else Inr (Some e, w))"

fun retransmit_loop ::
  "arp_cache_entry list list \<Rightarrow> tcp_message list \<Rightarrow> 'a tcp_state_scheme
   \<Rightarrow> (tcp_message list \<times> 'a tcp_state_scheme) option outcome" where
  "retransmit_loop env [] w = Inr (Some ([], w))"
| "retransmit_loop env (e # es) w =
     bindo (the_tcb (m_tcb e) w) (\<lambda>c.
       case m_tcp_ptr e of
         None \<Rightarrow> Inl UseAfterFree
       | Some ptr \<Rightarrow>
           bindo (resend env (remote_ip c) e ptr (m_sub e) w) (\<lambda>r.
             case r of
               None \<Rightarrow> Inr None
             | Some (sub, env, w) \<Rightarrow>
                 bindo (after_resend (e\<lparr>m_sub := sub\<rparr>) w) (\<lambda>(kept, w).
                 bindo (retransmit_loop env es w) (\<lambda>r.
                   Inr (map_option (\<lambda>(rest, w). (case kept of None \<Rightarrow> rest | Some e \<Rightarrow> e # rest, w)) r)))))"

definition tcp_retransmit_handler ::
  "arp_cache_entry list list \<Rightarrow> 'a tcp_state_scheme \<Rightarrow> 'a tcp_state_scheme option outcome" where
  "tcp_retransmit_handler env w =
     bindo (retransmit_loop env (messages_array w) w) (\<lambda>r.
       case r of
         None \<Rightarrow> Inr None
       | Some (es, w) \<Rightarrow>
           bindo (timer_oneshot TCP_WAIT_TIME Tcp_retransmit_handler (w\<lparr>messages_array := es\<rparr>)) (\<lambda>w. Inr (Some w)))"

definition free_tcb :: "nat \<Rightarrow> 'a tcp_state_scheme \<Rightarrow> 'a tcp_state_scheme outcome" where
  "free_tcb p w =
     bindo (lock_send p w) (\<lambda>w.
     bindo (upd_tcb p (snd_nxt_update (\<lambda>_. MAX_UINT32)) w) (\<lambda>w.
     bindo (unlock_send p w) (\<lambda>w.
     bindo (stop_retransmit p w) (\<lambda>w.
       Inr (w\<lparr>tcbs := (tcbs w)(p := None)\<rparr>)))))"

end
