(* ===== verification/Tcp_In.thy ===== *)
theory Tcp_In
  imports Tcp_Out
begin

text \<open>
  The receiving side of TCP, from \<^verbatim>\<open>src/tcp.c\<close>: \<open>save_data_and_ack\<close>, \<open>read_bytes\<close>, \<open>close_connection\<close> and
  \<open>tcp_rx\<close>, with \<open>get_tcb\<close> of \<^verbatim>\<open>src/anpwrapper.c\<close>. \<open>tcp_rx\<close> is cut at its natural joints: validation and
  lookup (\<open>tcp_rx\<close> itself), the \<^verbatim>\<open>SYN_SENT\<close> state (\<open>tcp_rx_syn_sent\<close>), the \<^verbatim>\<open>switch\<close> on the state
  (\<open>tcp_rx_switch\<close>), the segment text (\<open>tcp_rx_text\<close>) and the FIN bit (\<open>tcp_rx_fin\<close>); the jumps to \<^verbatim>\<open>drop_pkt\<close>
  are calls of \<open>drop_pkt\<close> with the two flags that say which locks have already been released.
\<close>

section \<open>The receive buffer\<close>

definition save_data_and_ack :: "nat \<Rightarrow> subuff \<Rightarrow> 'a tcp_state_scheme \<Rightarrow> 'a tcp_state_scheme outcome" where
  "save_data_and_ack p sub w =
     bindo (the_tcb p w) (\<lambda>c.
       let space_left = TCP_RCV_MAX - rcv_buff_len c;
           final_copy_size = min (s_dlen sub) space_left;
           src = (case s_payload sub of None \<Rightarrow> 0 | Some a \<Rightarrow> a)
       in if s_end sub < src + unat final_copy_size \<or> 65535 < unat (rcv_buff_len c) + unat final_copy_size
          then Inl OutOfBounds
          else
            bindo (upd_tcb p (\<lambda>c. c\<lparr>rcv_buff := put_bytes (rcv_buff c) (unat (rcv_buff_len c))
                                      (get_bytes (s_head sub) src (unat final_copy_size)),
                                    rcv_nxt := rcv_nxt c + final_copy_size,
                                    rcv_buff_len := rcv_buff_len c + final_copy_size\<rparr>) w) (\<lambda>w.
            bindo (if 0 < final_copy_size then tcp_tx_ctl p TCP_ACK RETRIES_SENDONCE w else Inr w) (\<lambda>w.
            bindo (the_tcb p w) (\<lambda>c.
              let w = (if rcv_buff_len c = TCP_RCV_MAX \<or> s_head sub 47 AND TCP_PSH \<noteq> 0
                       then signal (Tcb_cond p) w else w)
              in Inr (free_sub sub w)))))"

text \<open>\<open>read_bytes\<close> from the point where it holds the lock and does not (or no longer) wait.\<close>

definition read_bytes_copy :: "nat \<Rightarrow> u32 \<Rightarrow> 'a tcp_state_scheme \<Rightarrow> (u8 list \<times> 'a tcp_state_scheme) outcome" where
  "read_bytes_copy p bytes_to_read w =
     bindo (the_tcb p w) (\<lambda>c.
       let bytes_to_read = (if rcv_buff_len c < bytes_to_read then rcv_buff_len c else bytes_to_read);
           readable_size = min bytes_to_read (rcv_buff_len c);
           buf = get_bytes (rcv_buff c) 0 (unat readable_size);
           left = rcv_buff_len c - readable_size;
           rcv = (if 0 < left then put_bytes (rcv_buff c) 0 (get_bytes (rcv_buff c) (unat readable_size) (unat left))
                  else rcv_buff c)
       in if TCP_RCV_MAX < rcv_buff_len c then Inl OutOfBounds
          else bindo (upd_tcb p (\<lambda>c. c\<lparr>rcv_buff_len := left, rcv_buff := rcv\<rparr>) w) (\<lambda>w.
               bindo (unlock_tcb p w) (\<lambda>w. Inr (buf, w))))"

datatype read_result = Bytes "u8 list" | Read_waiting

definition read_bytes :: "nat \<Rightarrow> u32 \<Rightarrow> 'a tcp_state_scheme \<Rightarrow> (read_result \<times> 'a tcp_state_scheme) outcome" where
  "read_bytes p bytes_to_read w =
     bindo (lock_tcb p w) (\<lambda>w.
     bindo (the_tcb p w) (\<lambda>c.
       if rcv_buff_len c = 0 then bindo (unlock_tcb p w) (\<lambda>w. Inr (Read_waiting, w))
       else bindo (read_bytes_copy p bytes_to_read w) (\<lambda>(buf, w). Inr (Bytes buf, w))))"

text \<open>The rest of a waiting call, once \<open>tcb_cond\<close> has been signalled.\<close>

definition read_bytes_resume :: "nat \<Rightarrow> u32 \<Rightarrow> 'a tcp_state_scheme \<Rightarrow> (u8 list \<times> 'a tcp_state_scheme) outcome" where
  "read_bytes_resume p bytes_to_read w = bindo (lock_tcb p w) (read_bytes_copy p bytes_to_read)"

section \<open>Reception\<close>

fun find_tcb ::
  "anp_socket list \<Rightarrow> u16 \<Rightarrow> u32 \<Rightarrow> u16 \<Rightarrow> u32 \<Rightarrow> 'a tcp_state_scheme \<Rightarrow> nat option outcome" where
  "find_tcb [] lp li rp ri w = Inr None"
| "find_tcb (sock # socks) lp li rp ri w =
     (case sk_conn_info sock of
        None \<Rightarrow> find_tcb socks lp li rp ri w
      | Some p \<Rightarrow> bindo (the_tcb p w) (\<lambda>c.
          if local_port c = lp \<and> local_ip c = li \<and> remote_port c = rp \<and> remote_ip c = ri
          then Inr (Some p) else find_tcb socks lp li rp ri w))"

definition get_tcb :: "u16 \<Rightarrow> u32 \<Rightarrow> u16 \<Rightarrow> u32 \<Rightarrow> 'a tcp_state_scheme \<Rightarrow> nat option outcome" where
  "get_tcb lp li rp ri w = find_tcb (anp_sockets_cache w) lp li rp ri w"

definition drop_pkt :: "nat \<Rightarrow> subuff \<Rightarrow> bool \<Rightarrow> bool \<Rightarrow> 'a tcp_state_scheme \<Rightarrow> 'a tcp_state_scheme outcome" where
  "drop_pkt p sub unlocked_tcb unlocked_send w =
     bindo (if unlocked_tcb then Inr w else unlock_tcb p w) (\<lambda>w.
     bindo (if unlocked_send then Inr w else unlock_send p w) (\<lambda>w.
       Inr (free_sub sub w)))"

definition close_connection :: "nat \<Rightarrow> 'a tcp_state_scheme \<Rightarrow> 'a tcp_state_scheme outcome" where
  "close_connection p w =
     bindo (lock_tcb p w) (\<lambda>w.
     bindo (stop_retransmit p w) (\<lambda>w.
     bindo (upd_tcb p (c_state_update (\<lambda>_. TCP_CLOSED)) w) (\<lambda>w.
       unlock_tcb p (signal (Tcb_cond p) w))))"

text \<open>Header fields in the buffer, in host order once \<open>tcp_hdr_to_host\<close> has converted them.\<close>

abbreviation th_src :: "mem \<Rightarrow> u16" where "th_src m \<equiv> get16 m 34"
abbreviation th_dst :: "mem \<Rightarrow> u16" where "th_dst m \<equiv> get16 m 36"
abbreviation th_seq :: "mem \<Rightarrow> u32" where "th_seq m \<equiv> get32 m 38"
abbreviation th_ack :: "mem \<Rightarrow> u32" where "th_ack m \<equiv> get32 m 42"
abbreviation th_flags :: "mem \<Rightarrow> u8" where "th_flags m \<equiv> m 47"
abbreviation th_window :: "mem \<Rightarrow> u16" where "th_window m \<equiv> get16 m 48"

definition tcp_hdr_to_host :: "mem \<Rightarrow> mem" where
  "tcp_hdr_to_host m =
     (let m = put16 m 34 (ntohs (get16 m 34));
          m = put16 m 36 (ntohs (get16 m 36));
          m = put32 m 38 (ntohl (get32 m 38));
          m = put32 m 42 (ntohl (get32 m 42));
          m = put16 m 48 (ntohs (get16 m 48))
      in put32 m 30 (ntohl (get32 m 30)))"

definition tcp_rx_syn_sent :: "nat \<Rightarrow> subuff \<Rightarrow> 'a tcp_state_scheme \<Rightarrow> 'a tcp_state_scheme outcome" where
  "tcp_rx_syn_sent p sub w =
     bindo (the_tcb p w) (\<lambda>c.
       let m = s_head sub;
           acceptable_ack = (th_flags m AND TCP_ACK \<noteq> 0 \<and> snd_una c \<le> th_ack m \<and> th_ack m \<le> snd_nxt c)
       in if th_flags m AND TCP_SYN \<noteq> 0 then
            bindo (upd_tcb p (\<lambda>c. c\<lparr>rcv_nxt := th_seq m + 1, irs := th_seq m,
                                    snd_una := if acceptable_ack then th_ack m else snd_una c\<rparr>) w) (\<lambda>w.
            bindo (stop_retransmit p w) (\<lambda>w.
            bindo (the_tcb p w) (\<lambda>c.
              if iss c < snd_una c then
                bindo (upd_tcb p (\<lambda>c. c\<lparr>snd_wnd := ucast (th_window m), c_state := TCP_ESTABLISHED\<rparr>) w) (\<lambda>w.
                bindo (unlock_send p w) (\<lambda>w.
                bindo (tcp_tx_ctl p TCP_ACK RETRIES_SENDONCE w) (\<lambda>w.
                  unlock_tcb p (signal (Tcb_cond p) w))))
              else
                bindo (upd_tcb p (\<lambda>c. c\<lparr>c_state := TCP_SYN_RECEIVED, snd_nxt := iss c\<rparr>) w) (\<lambda>w.
                bindo (unlock_send p w) (\<lambda>w.
                bindo (tcp_tx_ctl p TCP_SYNACK RETRIES_CONN_MAX w) (\<lambda>w.
                  unlock_tcb p w))))))
          else drop_pkt p sub False False w)"

text \<open>The \<^verbatim>\<open>switch\<close>: \<open>False\<close> for \<^verbatim>\<open>goto drop_pkt\<close> with both locks held, \<open>True\<close> for \<^verbatim>\<open>break\<close>, by when \<open>send_lock\<close>
  has been released.\<close>

definition tcp_rx_switch :: "nat \<Rightarrow> mem \<Rightarrow> 'a tcp_state_scheme \<Rightarrow> (bool \<times> 'a tcp_state_scheme) outcome" where
  "tcp_rx_switch p m w =
     bindo (the_tcb p w) (\<lambda>c.
       let new_ack = (snd_una c < th_ack m \<and> th_ack m \<le> snd_nxt c)
       in case c_state c of
            TCP_SYN_RECEIVED \<Rightarrow>
              if new_ack then
                bindo (stop_retransmit p w) (\<lambda>w.
                bindo (upd_tcb p (\<lambda>c. c\<lparr>c_state := TCP_ESTABLISHED, snd_wnd := ucast (th_window m)\<rparr>) w) (\<lambda>w.
                bindo (unlock_send p w) (\<lambda>w.
                bindo (tcp_tx_ctl p TCP_ACK RETRIES_SENDONCE w) (\<lambda>w.
                  Inr (True, signal (Tcb_cond p) w)))))
              else Inr (False, w)
          | TCP_ESTABLISHED \<Rightarrow>
              bindo (if new_ack then bindo (upd_tcb p (snd_una_update (\<lambda>_. th_ack m)) w) (stop_retransmit p)
                     else Inr w) (\<lambda>w.
              bindo (upd_tcb p (snd_wnd_update (\<lambda>_. ucast (th_window m))) w) (\<lambda>w.
              bindo (unlock_send p (signal (Send_cond p) w)) (\<lambda>w.
                Inr (True, w))))
          | TCP_FIN_WAIT_1 \<Rightarrow>
              bindo (upd_tcb p (c_state_update (\<lambda>_. TCP_FIN_WAIT_2)) w) (\<lambda>w.
              bindo (unlock_send p w) (\<lambda>w. Inr (True, w)))
          | _ \<Rightarrow> Inr (False, w))"

text \<open>The end of \<open>tcp_rx\<close>; \<open>freed\<close> says that \<open>save_data_and_ack\<close> has released the buffer whose flags are read.\<close>

definition tcp_rx_fin :: "nat \<Rightarrow> subuff \<Rightarrow> bool \<Rightarrow> 'a tcp_state_scheme \<Rightarrow> 'a tcp_state_scheme outcome" where
  "tcp_rx_fin p sub freed w =
     bindo (the_tcb p w) (\<lambda>c.
       if c_state c = TCP_CLOSED \<or> c_state c = TCP_SYN_SENT then drop_pkt p sub False True w
       else
         let w = (if freed then w\<lparr>uaf := uaf w + 1\<rparr> else w)
         in if th_flags (s_head sub) AND TCP_FIN \<noteq> 0 then
              bindo (upd_tcb p (\<lambda>c. c\<lparr>rcv_nxt := rcv_nxt c + 1\<rparr>) w) (\<lambda>w.
                if c_state c = TCP_FIN_WAIT_1 \<or> c_state c = TCP_FIN_WAIT_2 then
                  bindo (upd_tcb p (c_state_update (\<lambda>_. TCP_TIME_WAIT)) w) (\<lambda>w.
                  bindo (tcp_tx_ctl p TCP_ACK RETRIES_SENDONCE w) (\<lambda>w.
                  bindo (unlock_tcb p w) (\<lambda>w.
                    timer_oneshot TCP_WAIT_TIME (Close_connection p) w)))
                else Inr w)
            else unlock_tcb p w)"

definition tcp_rx_text :: "nat \<Rightarrow> subuff \<Rightarrow> u32 \<Rightarrow> 'a tcp_state_scheme \<Rightarrow> 'a tcp_state_scheme outcome" where
  "tcp_rx_text p sub segment_len w =
     bindo (the_tcb p w) (\<lambda>c.
       if segment_len \<noteq> 0 then
         if th_seq (s_head sub) \<noteq> rcv_nxt c then drop_pkt p sub False True w
         else
           let sub = sub\<lparr>s_dlen := segment_len, s_payload := Some 54\<rparr>
           in bindo (save_data_and_ack p sub w) (tcp_rx_fin p sub True)
       else tcp_rx_fin p sub False w)"

text \<open>\<open>tcp_rx\<close> with both locks of the control block held.\<close>

definition tcp_rx_locked :: "nat \<Rightarrow> subuff \<Rightarrow> u32 \<Rightarrow> 'a tcp_state_scheme \<Rightarrow> 'a tcp_state_scheme outcome" where
  "tcp_rx_locked p sub segment_len w =
     bindo (the_tcb p w) (\<lambda>c.
       if c_state c = TCP_CLOSED then drop_pkt p sub False False w
       else if c_state c = TCP_SYN_SENT then tcp_rx_syn_sent p sub w
       else if th_flags (s_head sub) AND TCP_ACK = 0 then drop_pkt p sub False False w
       else bindo (tcp_rx_switch p (s_head sub) w) (\<lambda>(continue, w).
              if continue then tcp_rx_text p sub segment_len w else drop_pkt p sub False False w))"

text \<open>
  The control block of a segment that passed validation. The jump to \<^verbatim>\<open>drop_pkt\<close> after a failed lookup unlocks
  the mutex of a null pointer.
\<close>

definition tcp_rx_lookup :: "subuff \<Rightarrow> 'a tcp_state_scheme \<Rightarrow> 'a tcp_state_scheme outcome" where
  "tcp_rx_lookup sub w =
     (let m = s_head sub;
          segment_len = word_of_int (IP_PAYLOAD_LEN m - uint (drop_bit 4 (m 46)) * 4) :: u32;
          m = tcp_hdr_to_host m;
          sub = sub\<lparr>s_head := m\<rparr>
      in bindo (get_tcb (th_dst m) (get32 m 30) (th_src m) (get32 m 26) w) (\<lambda>r.
           case r of
             None \<Rightarrow> Inl NullPointer
           | Some p \<Rightarrow>
               bindo (lock_tcb p w) (\<lambda>w.
               bindo (lock_send p w) (\<lambda>w.
                 tcp_rx_locked p sub segment_len w))))"

text \<open>
  The length guard compares an \<^verbatim>\<open>int\<close> with a \<^verbatim>\<open>size_t\<close>, so a negative length passes it. The two jumps to
  \<^verbatim>\<open>drop_pkt\<close> before \<open>tcb\<close> is declared use it uninitialised.
\<close>

definition tcp_rx :: "subuff \<Rightarrow> 'a tcp_state_scheme \<Rightarrow> 'a tcp_state_scheme outcome" where
  "tcp_rx sub w =
     (let m = s_head sub;
          total_tcp_len = IP_PAYLOAD_LEN m;
          proto = push_bit 8 (ucast (m 23)) :: u16
      in if 0 \<le> total_tcp_len \<and> total_tcp_len < 20 then Inl Uninitialised
         else if int (s_end sub) < 34 + total_tcp_len then Inl OutOfBounds
         else if do_tcp_csum m 34 total_tcp_len (ntohs proto) (ntohl (get32 m 26)) (ntohl (get32 m 30)) \<noteq> 0
         then Inl Uninitialised
         else tcp_rx_lookup sub w)"

end
