(* ===== verification/Sockets.thy ===== *)
theory Sockets
  imports Tcp_In
begin

text \<open>
  The socket calls that the library overrides: \<^verbatim>\<open>src/anpwrapper.h\<close> and \<^verbatim>\<open>src/anpwrapper.c\<close>. The table
  \<open>fd_in_use\<close> and the ring of sockets are part of the state of \<open>Tcp_Out\<close>. A call ends with a value (\<open>Ret\<close>), is
  passed on to the C library unchanged (\<open>Pass_on\<close>), or waits on a condition variable; the rest of a waiting
  call is a separate definition (\<open>connect_resume\<close>, \<open>close_resume\<close>; \<open>tcp_tx_resume\<close> and
  \<open>read_bytes_resume\<close> for \<open>send\<close> and \<open>recv\<close>).
\<close>

section \<open>Constants and results\<close>

abbreviation FD_START_VAL :: int where "FD_START_VAL \<equiv> 1000000"
abbreviation FD_COUNT :: nat where "FD_COUNT \<equiv> 48575"
abbreviation PORTS_STARTING :: u16 where "PORTS_STARTING \<equiv> 49154"
abbreviation AF_INET :: int where "AF_INET \<equiv> 2"
abbreviation SOCK_STREAM :: int where "SOCK_STREAM \<equiv> 1"
abbreviation IPPROTO_TCP :: int where "IPPROTO_TCP \<equiv> 6"
abbreviation EBADF :: int where "EBADF \<equiv> 9"
abbreviation EMFILE :: int where "EMFILE \<equiv> 24"
abbreviation ENETUNREACH :: int where "ENETUNREACH \<equiv> 101"
abbreviation ENOTCONN :: int where "ENOTCONN \<equiv> 107"

datatype call_result =
    Ret int
  | Ret_bytes "u8 list"
  | Pass_on
  | Wait_tcb nat
  | Wait_send nat u32

definition fail :: "int \<Rightarrow> 'a tcp_state_scheme \<Rightarrow> (call_result \<times> 'a tcp_state_scheme) outcome" where
  "fail e w = Inr (Ret (- 1), w\<lparr>errno := e\<rparr>)"

section \<open>Descriptors and ports\<close>

text \<open>The index \<^verbatim>\<open>fd - FD_START_VAL\<close> of a descriptor, if it is one of the table.\<close>

definition fd_index :: "int \<Rightarrow> nat outcome" where
  "fd_index fd =
     (if FD_START_VAL \<le> fd \<and> fd < FD_START_VAL + int FD_COUNT then Inr (nat (fd - FD_START_VAL)) else Inl OutOfBounds)"

definition free_fd_entry :: "int \<Rightarrow> 'a tcp_state_scheme \<Rightarrow> 'a tcp_state_scheme outcome" where
  "free_fd_entry fd w = bindo (fd_index fd) (\<lambda>i. Inr (w\<lparr>fd_in_use := (fd_in_use w)(i := False)\<rparr>))"

function scan_fd :: "(nat \<Rightarrow> bool) \<Rightarrow> nat \<Rightarrow> nat option" where
  "scan_fd used i = (if i < FD_COUNT then if \<not> used i then Some i else scan_fd used (i + 1) else None)"
  by pat_completeness auto
termination
  by (relation "measure (\<lambda>(used, i). FD_COUNT - i)") auto

declare scan_fd.simps [simp del]

definition get_next_fd :: "'a tcp_state_scheme \<Rightarrow> int \<times> 'a tcp_state_scheme" where
  "get_next_fd w =
     (case scan_fd (fd_in_use w) 0 of
        Some i \<Rightarrow> (int i + FD_START_VAL, w\<lparr>fd_in_use := (fd_in_use w)(i := True)\<rparr>)
      | None \<Rightarrow> (- 1, w))"

definition is_anp_sockfd :: "int \<Rightarrow> 'a tcp_state_scheme \<Rightarrow> bool outcome" where
  "is_anp_sockfd fd w = bindo (fd_index fd) (\<lambda>i. Inr (fd_in_use w i))"

fun find_socket :: "anp_socket list \<Rightarrow> int \<Rightarrow> anp_socket option" where
  "find_socket [] fd = None"
| "find_socket (s # ss) fd = (if sk_fd s = fd then Some s else find_socket ss fd)"

definition get_anp_socket :: "int \<Rightarrow> 'a tcp_state_scheme \<Rightarrow> anp_socket option" where
  "get_anp_socket fd w = find_socket (anp_sockets_cache w) fd"

definition free_anp_socket :: "anp_socket \<Rightarrow> 'a tcp_state_scheme \<Rightarrow> 'a tcp_state_scheme outcome" where
  "free_anp_socket sock w =
     bindo (free_fd_entry (sk_fd sock) w) (\<lambda>w.
       let w = w\<lparr>anp_sockets_cache := remove1 sock (anp_sockets_cache w)\<rparr>
       in Inr (case sk_conn_info sock of None \<Rightarrow> w | Some p \<Rightarrow> w\<lparr>tcbs := (tcbs w)(p := None)\<rparr>))"

text \<open>\<^verbatim>\<open>available_port > PORTS_ENDING\<close> compares a 16-bit value with 65535.\<close>

definition get_port :: "'a tcp_state_scheme \<Rightarrow> u16 \<times> 'a tcp_state_scheme" where
  "get_port w =
     (if 65535 < unat (available_port w) then (- 1, w)
      else (available_port w + 1, w\<lparr>available_port := available_port w + 1\<rparr>))"

definition is_socket_supported :: "int \<Rightarrow> int \<Rightarrow> int \<Rightarrow> bool" where
  "is_socket_supported domain type protocol \<longleftrightarrow>
     domain = AF_INET \<and> type AND SOCK_STREAM \<noteq> 0 \<and> (protocol = 0 \<or> protocol = IPPROTO_TCP)"

section \<open>Calls\<close>

definition socket :: "int \<Rightarrow> int \<Rightarrow> int \<Rightarrow> 'a tcp_state_scheme \<Rightarrow> (call_result \<times> 'a tcp_state_scheme) outcome" where
  "socket domain type protocol w =
     (if \<not> is_socket_supported domain type protocol then Inr (Pass_on, w)
      else if oom w then fail ENOMEM w
      else
        let (fd, w) = get_next_fd w
        in if fd = - 1 then fail EMFILE w
           else Inr (Ret fd, w\<lparr>anp_sockets_cache := anp_sockets_cache w @
             [\<lparr>sk_fd = fd, sk_type = type, sk_protocol = protocol, sk_domain = domain, sk_conn_info = None\<rparr>]\<rparr>))"

text \<open>The common start of the calls on a descriptor.\<close>

definition with_socket ::
  "int \<Rightarrow> (anp_socket \<Rightarrow> 'a tcp_state_scheme \<Rightarrow> (call_result \<times> 'a tcp_state_scheme) outcome) \<Rightarrow>
   'a tcp_state_scheme \<Rightarrow> (call_result \<times> 'a tcp_state_scheme) outcome" where
  "with_socket fd body w =
     bindo (is_anp_sockfd fd w) (\<lambda>ours.
       if \<not> ours then Inr (Pass_on, w)
       else case get_anp_socket fd w of None \<Rightarrow> fail EBADF w | Some sock \<Rightarrow> body sock w)"

definition set_conn_info :: "int \<Rightarrow> nat option \<Rightarrow> anp_socket list \<Rightarrow> anp_socket list" where
  "set_conn_info fd p socks = map (\<lambda>s. if sk_fd s = fd then s\<lparr>sk_conn_info := p\<rparr> else s) socks"

text \<open>The control block as \<^verbatim>\<open>calloc\<close> returns it.\<close>

definition zero_tcb :: tcb where
  "zero_tcb = \<lparr>c_state = TCP_LISTEN, local_port = 0, remote_port = 0, local_ip = 0, remote_ip = 0,
     tcb_locked = False, rcv_nxt = 0, rcv_wnd = 0, irs = 0, rcv_buff_len = 0, rcv_buff = (\<lambda>_. 0),
     send_locked = False, snd_una = 0, snd_nxt = 0, snd_wnd = 0, iss = 0\<rparr>"

text \<open>\<open>sin_port\<close> and \<open>s_addr\<close> are the fields of the address, in network order; \<open>rnd\<close> is what \<^verbatim>\<open>rand()\<close> returns.\<close>

definition connect ::
  "int \<Rightarrow> u16 \<Rightarrow> u32 \<Rightarrow> u32 \<Rightarrow> 'a tcp_state_scheme \<Rightarrow> (call_result \<times> 'a tcp_state_scheme) outcome" where
  "connect sockfd sin_port s_addr rnd = with_socket sockfd (\<lambda>sock w.
     if oom w then bindo (free_anp_socket sock w) (fail ENOMEM)
     else
       let p = tcb_next w;
           w = w\<lparr>tcb_next := p + 1, anp_sockets_cache := set_conn_info sockfd (Some p) (anp_sockets_cache w)\<rparr>;
           (port, w) = get_port w;
           c = zero_tcb\<lparr>local_port := port, remote_port := ntohs sin_port, remote_ip := ntohl s_addr\<rparr>
       in case route_lookup (remote_ip c) w of
            None \<Rightarrow> fail ENETUNREACH (w\<lparr>tcbs := (tcbs w)(p \<mapsto> c)\<rparr>)
          | Some rt \<Rightarrow>
              let c = c\<lparr>local_ip := ntohl (dev_addr (rt_dev rt)), c_state := TCP_CLOSED, iss := rnd,
                        snd_una := rnd - 1, snd_nxt := rnd, irs := 0, rcv_nxt := 0, rcv_buff_len := 0\<rparr>;
                  w = w\<lparr>tcbs := (tcbs w)(p \<mapsto> c)\<rparr>
              in bindo (lock_tcb p w) (\<lambda>w.
                 bindo (tcp_tx_ctl p TCP_SYN RETRIES_CONN_MAX w) (\<lambda>w.
                 bindo (upd_tcb p (c_state_update (\<lambda>_. TCP_SYN_SENT)) w) (\<lambda>w.
                 bindo (unlock_tcb p w) (\<lambda>w. Inr (Wait_tcb p, w))))))"

definition connect_resume :: "nat \<Rightarrow> 'a tcp_state_scheme \<Rightarrow> (call_result \<times> 'a tcp_state_scheme) outcome" where
  "connect_resume p w =
     bindo (lock_tcb p w) (\<lambda>w.
     bindo (the_tcb p w) (\<lambda>c.
     bindo (unlock_tcb p w) (\<lambda>w.
       Inr (Ret (if c_state c \<noteq> TCP_ESTABLISHED then - 1 else 0), w))))"

text \<open>\<open>buf\<close> is the caller's data; its length, a \<^verbatim>\<open>size_t\<close>, is cut to 32 bits on the way to \<open>tcp_tx\<close>.\<close>

definition send :: "int \<Rightarrow> u8 list \<Rightarrow> 'a tcp_state_scheme \<Rightarrow> (call_result \<times> 'a tcp_state_scheme) outcome" where
  "send sockfd buf = with_socket sockfd (\<lambda>sock w.
     case sk_conn_info sock of
       None \<Rightarrow> fail ENOTCONN w
     | Some p \<Rightarrow> bindo (the_tcb p w) (\<lambda>c.
         if c_state c \<noteq> TCP_ESTABLISHED then fail ENOTCONN w
         else bindo (tcp_tx p buf (word_of_nat (length buf)) TCP_ACK RETRIES_INFINITE w) (\<lambda>(r, w).
           Inr (case r of Sent n \<Rightarrow> Ret (int (length buf)) | Waiting n \<Rightarrow> Wait_send p n, w))))"

definition recv :: "int \<Rightarrow> nat \<Rightarrow> 'a tcp_state_scheme \<Rightarrow> (call_result \<times> 'a tcp_state_scheme) outcome" where
  "recv sockfd len = with_socket sockfd (\<lambda>sock w.
     case sk_conn_info sock of
       None \<Rightarrow> fail ENOTCONN w
     | Some p \<Rightarrow> bindo (read_bytes p (word_of_nat len) w) (\<lambda>(r, w).
         Inr (case r of Bytes bs \<Rightarrow> Ret_bytes bs | Read_waiting \<Rightarrow> Wait_tcb p, w)))"

definition close :: "int \<Rightarrow> 'a tcp_state_scheme \<Rightarrow> (call_result \<times> 'a tcp_state_scheme) outcome" where
  "close sockfd = with_socket sockfd (\<lambda>sock w.
     case sk_conn_info sock of
       None \<Rightarrow> fail ENOTCONN w
     | Some p \<Rightarrow>
         bindo (lock_tcb p w) (\<lambda>w.
         bindo (the_tcb p w) (\<lambda>c.
           if c_state c \<noteq> TCP_ESTABLISHED then fail ENOTCONN w
           else
             bindo (upd_tcb p (c_state_update (\<lambda>_. TCP_FIN_WAIT_1)) w) (\<lambda>w.
             bindo (tcp_tx_ctl p TCP_FINACK RETRIES_SENDONCE w) (\<lambda>w.
             bindo (unlock_tcb p w) (\<lambda>w. Inr (Wait_tcb p, w)))))))"

definition close_resume :: "int \<Rightarrow> nat \<Rightarrow> 'a tcp_state_scheme \<Rightarrow> (call_result \<times> 'a tcp_state_scheme) outcome" where
  "close_resume sockfd p w =
     bindo (lock_tcb p w) (\<lambda>w.
     bindo (the_tcb p w) (\<lambda>c.
       if c_state c \<noteq> TCP_CLOSED then bindo (unlock_tcb p w) (\<lambda>w. Inr (Ret (- 1), w))
       else Inr (Ret 0, w\<lparr>tcbs := (tcbs w)(p := None),
              anp_sockets_cache := set_conn_info sockfd None (anp_sockets_cache w), uaf := uaf w + 1\<rparr>)))"

section \<open>Descriptors and ports\<close>

lemma scan_fd_Some: "scan_fd used i = Some j \<Longrightarrow> i \<le> j \<and> j < FD_COUNT \<and> \<not> used j \<and> (\<forall>k. i \<le> k \<and> k < j \<longrightarrow> used k)"
proof (induction used i rule: scan_fd.induct)
  case (1 used i)
  show ?case
  proof (cases "i < FD_COUNT \<and> used i")
    case True
    then have "scan_fd used (i + 1) = Some j" using "1.prems" by (simp add: scan_fd.simps [of used i])
    with "1.IH" True show ?thesis by (metis Suc_eq_plus1 Suc_leD le_neq_implies_less Suc_leI)
  next
    case False
    then show ?thesis using "1.prems" by (auto simp: scan_fd.simps [of used i] split: if_splits)
  qed
qed

lemma scan_fd_None: "scan_fd used i = None \<longleftrightarrow> (\<forall>k. i \<le> k \<and> k < FD_COUNT \<longrightarrow> used k)"
proof (induction used i rule: scan_fd.induct)
  case (1 used i)
  show ?case
  proof (cases "i < FD_COUNT \<and> used i")
    case True
    then show ?thesis
      using "1.IH" by (simp add: scan_fd.simps [of used i]) (metis Suc_leI le_neq_implies_less Suc_leD)
  next
    case False
    then show ?thesis by (auto simp: scan_fd.simps [of used i])
  qed
qed

lemma foreign_fd_call: "fd < FD_START_VAL \<or> FD_START_VAL + int FD_COUNT \<le> fd \<Longrightarrow> with_socket fd body w = Inl OutOfBounds"
  by (auto simp: with_socket_def is_anp_sockfd_def fd_index_def)

lemma get_port_eq: "get_port w = (available_port w + 1, w\<lparr>available_port := available_port w + 1\<rparr>)"
proof -
  have "\<not> 65535 < unat (available_port w)" using unat_u16_less [of "available_port w"] by linarith
  then show ?thesis unfolding get_port_def by (rule if_not_P)
qed

text \<open>The port that the request number \<open>k\<close> from the state \<open>w\<close> on gets.\<close>

definition nth_port :: "nat \<Rightarrow> 'a tcp_state_scheme \<Rightarrow> u16" where
  "nth_port k w = fst (get_port (((\<lambda>w. snd (get_port w)) ^^ k) w))"

lemma nth_port_eq: "nth_port k w = available_port w + 1 + word_of_nat k"
proof -
  have "available_port (((\<lambda>w. snd (get_port w)) ^^ k) w) = available_port w + word_of_nat k"
    by (induction k) (simp_all add: get_port_eq)
  then show ?thesis by (simp add: nth_port_def get_port_eq [of "(_ ^^ _) _"])
qed

text \<open>C27. The descriptors of \<open>socket\<close>: for a supported socket the call returns the lowest descriptor of the library's range that
  is not in use, marks it and appends an unconnected socket with it, changing nothing else; it fails with
  \<^verbatim>\<open>EMFILE\<close> exactly when all 48575 descriptors are in use and with \<^verbatim>\<open>ENOMEM\<close> exactly when there is no memory. Every other
  request is passed on to the C library.\<close>

theorem socket_lowest_fd:
  "socket domain type protocol w =
     (if \<not> is_socket_supported domain type protocol then Inr (Pass_on, w)
      else if oom w then Inr (Ret (- 1), w\<lparr>errno := ENOMEM\<rparr>)
      else if \<nexists>i. i < FD_COUNT \<and> \<not> fd_in_use w i then Inr (Ret (- 1), w\<lparr>errno := EMFILE\<rparr>)
      else let i = (LEAST i. i < FD_COUNT \<and> \<not> fd_in_use w i); fd = FD_START_VAL + int i
           in Inr (Ret fd, w\<lparr>fd_in_use := (fd_in_use w)(i := True), anp_sockets_cache := anp_sockets_cache w @
             [\<lparr>sk_fd = fd, sk_type = type, sk_protocol = protocol, sk_domain = domain, sk_conn_info = None\<rparr>]\<rparr>))"
proof (cases "scan_fd (fd_in_use w) 0")
  case None
  then have "\<nexists>i. i < FD_COUNT \<and> \<not> fd_in_use w i" using scan_fd_None [of "fd_in_use w" 0] by simp
  then show ?thesis using None by (simp add: socket_def get_next_fd_def fail_def)
next
  case (Some j)
  then have j: "j < FD_COUNT \<and> \<not> fd_in_use w j" "\<And>k. k < FD_COUNT \<and> \<not> fd_in_use w k \<Longrightarrow> j \<le> k"
    using scan_fd_Some [of "fd_in_use w" 0 j] by (auto simp: not_less [symmetric])
  then have "(LEAST i. i < FD_COUNT \<and> \<not> fd_in_use w i) = j" by (intro Least_equality)
  then show ?thesis using Some j(1) by (auto simp: socket_def get_next_fd_def fail_def Let_def add.commute)
qed

end
