(* ===== verification/Stack_Rx.thy ===== *)
theory Stack_Rx
  imports Sockets
begin

text \<open>
  Reception and start-up of the whole stack: \<^verbatim>\<open>src/ip_rx.c\<close>, the receive half of \<^verbatim>\<open>src/anp_netdev.c\<close>
  (\<open>process_packet\<close>, \<open>netdev_rx_loop\<close>), the dispatch of timer callbacks, and the initialisation of
  \<^verbatim>\<open>src/init.c\<close>.
\<close>

section \<open>IP input\<close>

definition ip_rx_to_host :: "mem \<Rightarrow> mem" where
  "ip_rx_to_host m =
     (let m = put32 m 26 (ntohl (get32 m 26));
          m = put32 m 30 (ntohl (get32 m 30));
          m = put16 m 16 (ntohs (get16 m 16))
      in put16 m 18 (ntohs (get16 m 18)))"

definition ip_rx :: "subuff \<Rightarrow> 'a tcp_state_scheme \<Rightarrow> 'a tcp_state_scheme outcome" where
  "ip_rx sub w =
     (let m = s_head sub
      in if ip_version m \<noteq> IPP_NUM_IP_in_IP then Inr (free_sub sub w)
         else if ip_ihl m < 5 then Inr (free_sub sub w)
         else if m 22 = 0 then Inr (free_sub sub w)
         else if s_end sub < 14 + unat (ip_ihl m) * 4 then Inl OutOfBounds
         else if do_csum m 14 (uint (ip_ihl m) * 4) 0 \<noteq> 0 then Inr (free_sub sub w)
         else
           let sub = sub\<lparr>s_head := ip_rx_to_host m\<rparr>
           in if s_head sub 23 = IPP_NUM_ICMP then icmp_rx sub w
              else if s_head sub 23 = IPP_TCP then tcp_rx sub w
              else Inr (free_sub sub w))"

section \<open>Frames\<close>

definition process_packet :: "subuff \<Rightarrow> 'a tcp_state_scheme \<Rightarrow> 'a tcp_state_scheme outcome" where
  "process_packet sub w =
     (let sub = eth_hdr sub; ethertype = get16 (s_head sub) 12
      in if ethertype = ETH_P_ARP then arp_rx sub w
         else if ethertype = ETH_P_IP then ip_rx sub w
         else Inr (free_sub sub w))"

text \<open>
  \<open>netdev_rx_loop\<close> over what \<^verbatim>\<open>read(2)\<close> on the TAP device returns: a frame, of which at most 1522 bytes are
  taken, or an error (\<open>None\<close>), which ends the loop.
\<close>

fun netdev_rx_loop :: "u8 list option list \<Rightarrow> 'a tcp_state_scheme \<Rightarrow> 'a tcp_state_scheme outcome" where
  "netdev_rx_loop [] w = Inr w"
| "netdev_rx_loop (r # rs) w =
     bindo (alloc_sub ANP_MTU_15_MAX_SIZE w) (\<lambda>(sub, w).
       case r of
         None \<Rightarrow> Inr (free_sub sub w)
       | Some frame \<Rightarrow>
           bindo (process_packet (sub\<lparr>s_head := put_bytes (s_head sub) 0 (take 1522 frame)\<rparr>) w) (netdev_rx_loop rs))"

section \<open>Callbacks and start\<close>

text \<open>What a thread started by the timer runs; \<open>None\<close> as in \<open>tcp_retransmit_handler\<close>.\<close>

definition run_callback ::
  "arp_cache_entry list list \<Rightarrow> callback \<Rightarrow> 'a tcp_state_scheme \<Rightarrow> 'a tcp_state_scheme option outcome" where
  "run_callback env cb w =
     (case cb of
        Icmp_reply_handler info \<Rightarrow> bindo (icmp_reply_handler info w) (\<lambda>w. Inr (Some w))
      | Tcp_retransmit_handler \<Rightarrow> tcp_retransmit_handler env w
      | Close_connection p \<Rightarrow> bindo (close_connection p w) (\<lambda>w. Inr (Some w)))"

text \<open>The state of the library before its constructor runs, and the constructor up to the start of the
  threads. The third thread runs \<open>tcp_retransmit_handler\<close>.\<close>

definition loaded :: "(u8 list \<Rightarrow> int) \<Rightarrow> tcp_state" where
  "loaded ret = \<lparr>live_subs = 0, live_bufs = 0, oom = False, cdev_lo = None, cdev_ext = None, tap_out = [],
     tap_ret = ret, arp_cache = [], routes = [], timers = [], tick = 0, t_next = 0, spawned = [],
     tcbs = (\<lambda>_. None), tcb_next = 0, messages_array = [], anp_sockets_cache = [], fd_in_use = (\<lambda>_. False),
     available_port = PORTS_STARTING, errno = 0, signals = [], uaf = 0\<rparr>"

definition init_anp_netstack :: "'a tcp_state_scheme \<Rightarrow> 'a tcp_state_scheme outcome" where
  "init_anp_netstack w =
     bindo (client_netdev_init w) (\<lambda>w.
     bindo (route_init w) (\<lambda>w.
       Inr (w\<lparr>spawned := spawned w @ [Tcp_retransmit_handler]\<rparr>)))"

section \<open>Properties\<close>

text \<open>C39. The local ports of successive connections: the request number \<open>k\<close> (from 0) after the start of the library gets port
  \<open>49155 + k\<close>, modulo 65536. The check for the end of the port range never fires, so ports are never refused;
  they repeat after 65536 requests and not before, and from request 16381 on they run through 0 and the
  privileged ports.\<close>

theorem get_port_sequence:
  assumes "available_port w = PORTS_STARTING"
  shows "unat (nth_port k w) = (49155 + k) mod 65536 \<and> (nth_port k w = nth_port l w \<longleftrightarrow> k mod 65536 = l mod 65536)"
proof -
  have p: "nth_port k w = word_of_nat (49155 + k)" for k by (simp add: nth_port_eq assms)
  have "unat (nth_port k w) = (49155 + k) mod 65536" by (simp add: p unat_of_nat del: of_nat_add)
  moreover have "nth_port k w = nth_port l w \<longleftrightarrow> (word_of_nat k :: u16) = word_of_nat l" by (simp add: p)
  ultimately show ?thesis by (simp add: word_of_nat_eq_iff take_bit_eq_mod)
qed

theorem get_port_sequence_witness:
  "unat (nth_port 16381 (loaded (\<lambda>f. int (length f)))) = 0 \<and> nth_port 0 (loaded (\<lambda>f. int (length f))) = nth_port 65536 (loaded (\<lambda>f. int (length f)))"
  using get_port_sequence [of "loaded (\<lambda>f. int (length f))" 16381 0] get_port_sequence [of "loaded (\<lambda>f. int (length f))" 0 65536] by (simp add: loaded_def)

text \<open>A descriptor outside the library's range, as every file descriptor of the operating system is, does not reach the C library's
  function: each call first reads the table \<open>fd_in_use\<close> out of its bounds.\<close>

theorem foreign_fd_faults:
  assumes "fd < FD_START_VAL \<or> FD_START_VAL + int FD_COUNT \<le> fd"
  shows "connect fd sin_port s_addr rnd w = Inl OutOfBounds \<and> send fd buf w = Inl OutOfBounds
    \<and> recv fd len w = Inl OutOfBounds \<and> close fd w = Inl OutOfBounds"
  by (simp add: connect_def send_def recv_def close_def foreign_fd_call [OF assms])

theorem foreign_fd_faults_witness: "close 1 (loaded (\<lambda>f. int (length f))) = Inl OutOfBounds"
  using foreign_fd_faults [of 1 0 0 0 "loaded (\<lambda>f. int (length f))"] by simp

end
