(* ===== verification/Tcp_Checksum.thy ===== *)
theory Tcp_Checksum
  imports Tcp_In
begin

text \<open>
  The TCP checksum as the stack computes it against the one RFC 793 asks for, which covers a pseudo header
  of the two addresses, the protocol number and the segment length. \<open>tcp_verifies\<close> is the reference: what a
  conforming peer checks on a segment.

  \<open>tcp_rx\<close> passes the addresses to \<open>do_tcp_csum\<close> in network order and the protocol in host order, as its
  byte-wise sum needs; \<open>create_tcp_packet\<close> passes the local address in host order and the protocol in
  network order. The two mistakes cancel exactly for the addresses described by the second property, of
  which 10.0.0.4, the address of the stack, is one.
\<close>

section \<open>The reference\<close>

definition tcp_pseudo :: "u32 \<Rightarrow> u32 \<Rightarrow> nat \<Rightarrow> u8 list" where
  "tcp_pseudo src dst n =
     be32 src @ be32 dst @ [0, 6, byte1 (word_of_nat n :: u16), byte0 (word_of_nat n :: u16)]"

definition tcp_verifies :: "u32 \<Rightarrow> u32 \<Rightarrow> u8 list \<Rightarrow> bool" where
  "tcp_verifies src dst seg \<longleftrightarrow> rfc1071 (block_of (tcp_pseudo src dst (length seg) @ seg)) 0 (12 + length seg) = 0"

section \<open>Sums of blocks\<close>

lemma length_tcp_pseudo [simp]: "length (tcp_pseudo src dst n) = 12"
  by (simp add: tcp_pseudo_def be32_def)

lemma be_sum_append:
  assumes "even (length xs)"
  shows "be_sum (block_of (xs @ ys)) 0 (length xs + n) = be_sum (block_of xs) 0 (length xs) + be_sum (block_of ys) 0 n"
proof (induction n)
  case 0
  have "be_sum (block_of (xs @ ys)) 0 (length xs) = be_sum (block_of xs) 0 (length xs)"
    unfolding be_sum_def by (rule sum.cong) (auto simp: block_of_def nth_append)
  then show ?case by (simp add: be_sum_def)
next
  case (Suc n)
  have "block_of (xs @ ys) (length xs + n) = block_of ys n" by (simp add: block_of_def nth_append)
  then show ?case using Suc assms by (simp add: be_sum_def)
qed

lemma rfc1071_zero: "rfc1071 m p n = 0 \<longleftrightarrow> 0 < be_sum m p n \<and> be_sum m p n mod 65535 = 0"
proof -
  have "unat (rfc1071 m p n) = 65535 - oc_reduce (be_sum m p n)"
    by (simp add: rfc1071_def unat_of_nat)
  then have "rfc1071 m p n = 0 \<longleftrightarrow> oc_reduce (be_sum m p n) = 65535"
    using oc_reduce_le [of "be_sum m p n"] by (auto simp: word_unat_eq_iff)
  then show ?thesis by (auto simp: oc_reduce_def)
qed

text \<open>Modulo 65535 the sums of big-endian and of little-endian words are proportional, so they vanish together.\<close>

lemma swap_mod:
  assumes "a mod 65535 = 256 * b mod (65535 :: nat)"
  shows "a mod 65535 = 0 \<longleftrightarrow> b mod 65535 = 0"
proof
  assume "b mod 65535 = 0"
  then show "a mod 65535 = 0" using assms by (metis mod_mult_right_eq mult_0_right mod_0)
next
  assume "a mod 65535 = 0"
  then have "256 * (256 * b) mod 65535 = 0" using assms by (metis mod_mult_right_eq mult_0_right mod_0)
  moreover have "256 * (256 * b) = b + 65535 * b" by simp
  ultimately show "b mod 65535 = 0" by (metis mod_mult_self2)
qed

lemma unat_mod_halves: "unat (a :: u32) mod 65535 = (unat a div 65536 + unat a mod 65536) mod 65535"
  using fold_step_mod [of "unat a"] by (simp add: add.commute)

definition pseudo_sum :: "u32 \<Rightarrow> u32 \<Rightarrow> nat \<Rightarrow> nat" where
  "pseudo_sum src dst n = unat (bswap32 src) + unat (bswap32 dst) + 1536 + unat (bswap16 (word_of_nat n))"

lemma sum_12: "(\<Sum>i<(12 :: nat). f i) = f 0 + f 1 + f 2 + f 3 + f 4 + f 5 + f 6 + f 7 + f 8 + f 9 + f 10 + (f 11 :: nat)"
  by (simp add: lessThan_nat_numeral lessThan_Suc)

lemma bswap32_mod:
  "(256 * (b3 + 256 * b2 + 65536 * b1 + 16777216 * b0)) mod 65535 = (256 * b3 + b2 + 256 * b1 + b0) mod (65535 :: nat)"
proof -
  have "256 * (b3 + 256 * b2 + 65536 * b1 + 16777216 * b0)
      = (256 * b3 + b2 + 256 * b1 + b0) + 65535 * (b2 + 256 * b1 + 65537 * b0)" by simp
  then show ?thesis by (metis mod_mult_self2)
qed

lemma pseudo_be_sum: "be_sum (block_of (tcp_pseudo src dst n)) 0 12 mod 65535 = 256 * pseudo_sum src dst n mod 65535"
proof -
  define s3 s2 s1 s0 where s: "s3 = unat (byte3 src)" "s2 = unat (byte2 src)" "s1 = unat (byte1 src)" "s0 = unat (byte0 src)"
  define d3 d2 d1 d0 where d: "d3 = unat (byte3 dst)" "d2 = unat (byte2 dst)" "d1 = unat (byte1 dst)" "d0 = unat (byte0 dst)"
  define l1 l0 where l: "l1 = unat (byte1 (word_of_nat n :: u16))" "l0 = unat (byte0 (word_of_nat n :: u16))"
  have b: "be_sum (block_of (tcp_pseudo src dst n)) 0 12 =
      (256 * s3 + s2 + 256 * s1 + s0) + (256 * d3 + d2 + 256 * d1 + d0) + 6 + (256 * l1 + l0)"
    unfolding be_sum_def sum_12 s d l by (simp add: block_of_def tcp_pseudo_def be32_def)
  have p: "pseudo_sum src dst n =
      (s3 + 256 * s2 + 65536 * s1 + 16777216 * s0) + (d3 + 256 * d2 + 65536 * d1 + 16777216 * d0) + 1536 + (l1 + 256 * l0)"
    unfolding pseudo_sum_def bswap32_def bswap16_def unat_le32 unat_le16 s d l ..
  have "256 * pseudo_sum src dst n =
      be_sum (block_of (tcp_pseudo src dst n)) 0 12
      + 65535 * ((s2 + 256 * s1 + 65537 * s0) + (d2 + 256 * d1 + 65537 * d0) + 6 + l0)"
    unfolding p b by (simp add: algebra_simps)
  then show ?thesis by (metis mod_mult_self2)
qed

lemma pseudo_be_sum_pos: "0 < be_sum (block_of (tcp_pseudo src dst n)) 0 12"
  unfolding be_sum_def sum_12 by (simp add: block_of_def tcp_pseudo_def be32_def)

lemma tcp_verifies_le_sum:
  "tcp_verifies src dst (get_bytes m p n) \<longleftrightarrow> (pseudo_sum src dst n + le_sum m p n) mod 65535 = 0"
proof -
  let ?seg = "get_bytes m p n" and ?ps = "tcp_pseudo src dst n"
  have t: "be_sum (block_of (?ps @ ?seg)) 0 (12 + n) = be_sum (block_of ?ps) 0 12 + be_sum m p n"
    using be_sum_append [of ?ps ?seg n] be_sum_block [of n ?seg m p] by simp
  have "(be_sum (block_of ?ps) 0 12 + be_sum m p n) mod 65535 = 256 * (pseudo_sum src dst n + le_sum m p n) mod 65535"
    unfolding distrib_left by (intro mod_add_cong pseudo_be_sum be_le_sum_mod)
  then have "(be_sum (block_of ?ps) 0 12 + be_sum m p n) mod 65535 = 0
      \<longleftrightarrow> (pseudo_sum src dst n + le_sum m p n) mod 65535 = 0"
    by (rule swap_mod)
  then show ?thesis
    unfolding tcp_verifies_def length_get_bytes rfc1071_zero t
    using pseudo_be_sum_pos [of src dst n] by simp
qed

section \<open>The routine\<close>

text \<open>The value \<open>do_tcp_csum\<close> starts its sum with, as long as 32 bits are enough.\<close>

lemma do_tcp_csum_start:
  assumes "unat saddr + unat daddr + 131070 < 4294967296"
  shows "\<exists>start. do_tcp_csum m p (int n) proto saddr daddr = do_csum m p (int n) start
    \<and> unat start = unat saddr + unat daddr + unat (htons proto) + unat (htons (word_of_nat n))"
proof -
  let ?h = "unat (htons proto)" and ?l = "unat (htons (word_of_nat n))"
  have b: "?h < 65536" "?l < 65536" by simp_all
  have "unat (saddr + daddr) = unat saddr + unat daddr" using assms by (simp add: unat_word_ariths)
  moreover from this have "unat (saddr + daddr + ucast (htons proto)) = unat saddr + unat daddr + ?h"
    using assms b by (simp add: unat_word_ariths del: unat_u16_less)
  ultimately have "unat (saddr + daddr + ucast (htons proto) + ucast (htons (word_of_nat n))) =
      unat saddr + unat daddr + ?h + ?l"
    using assms b by (subst unat_add_small) (simp_all del: unat_u16_less)
  then show ?thesis
    by (intro exI [of _ "saddr + daddr + ucast (htons proto) + ucast (htons (word_of_nat n))"])
      (simp add: do_tcp_csum_def Let_def)
qed

lemma do_tcp_csum_zero:
  assumes "unat saddr + unat daddr + 131070 + le_sum m p n < 4294967296" and "proto \<noteq> 0"
  shows "do_tcp_csum m p (int n) proto saddr daddr = 0 \<longleftrightarrow>
    (unat saddr + unat daddr + unat (htons proto) + unat (htons (word_of_nat n)) + le_sum m p n) mod 65535 = 0"
proof -
  obtain start where s: "do_tcp_csum m p (int n) proto saddr daddr = do_csum m p (int n) start"
      "unat start = unat saddr + unat daddr + unat (htons proto) + unat (htons (word_of_nat n))"
    using do_tcp_csum_start [of saddr daddr m p n proto] assms(1) by auto
  have "htons proto \<noteq> 0" using assms(2) bswap_involution(1) [of proto] by (metis bswap16_0)
  then have pos: "0 < unat (htons proto)" by (simp add: unat_gt_0)
  have "unat (htons proto) \<le> 65535" "unat (htons (word_of_nat n)) \<le> 65535"
    using unat_u16_less [of "htons proto"] unat_u16_less [of "htons (word_of_nat n)"] by linarith+
  then have "unat start + le_sum m p n < 4294967296" using s(2) assms(1) by linarith
  then show ?thesis using s pos by (simp add: ip_sum.verifies_iff)
qed

section \<open>Properties\<close>

lemma proto_tcp_host: "ntohs 1536 = 6"
  by (simp add: bswap16_def word_unat_eq_iff)

lemma unat_htons_6: "unat (htons (6 :: u16)) = 1536"
  by (simp add: bswap16_def)

lemma tcp_rx_checked:
  assumes "IP_PAYLOAD_LEN (s_head sub) = int n" and "20 \<le> n" and "34 + n \<le> s_end sub" and "s_head sub 23 = IPP_TCP"
    and "unat (ntohl (get32 (s_head sub) 26)) + unat (ntohl (get32 (s_head sub) 30)) + 131070 + 65280 * n < 4294967296"
  shows "tcp_rx sub w =
    (if tcp_verifies (get32 (s_head sub) 26) (get32 (s_head sub) 30) (get_bytes (s_head sub) 34 n)
     then tcp_rx_lookup sub w else Inl Uninitialised)"
proof -
  let ?m = "s_head sub"
  have "unat (ntohl (get32 ?m 26)) + unat (ntohl (get32 ?m 30)) + 131070 + le_sum ?m 34 n < 4294967296"
    using assms(5) le_sum_bound [of ?m 34 n] by linarith
  then have "do_tcp_csum ?m 34 (int n) 6 (ntohl (get32 ?m 26)) (ntohl (get32 ?m 30)) = 0
      \<longleftrightarrow> tcp_verifies (get32 ?m 26) (get32 ?m 30) (get_bytes ?m 34 n)"
    by (simp add: do_tcp_csum_zero unat_htons_6 tcp_verifies_le_sum pseudo_sum_def)
  moreover have "int (34 + n) \<le> int (s_end sub)" using assms(3) by (simp only: of_nat_le_iff)
  ultimately show ?thesis
    using assms(1,2,4) by (simp add: tcp_rx_def Let_def proto_tcp_host)
qed


text \<open>The segment of \<open>create_tcp_packet\<close>: a buffer with the segment at offset 34.\<close>

lemma unat_len_sums:
  assumes "n \<le> 65515"
  shows "unat (54 + word_of_nat n :: u32) = 54 + n" "unat (20 + word_of_nat n :: u32) = 20 + n"
  using assms by (simp_all add: unat_word_ariths unat_of_nat)

lemma tcp_sub_simps:
  assumes "length data \<le> 65515"
  shows "s_data (tcp_sub c data flags) = 34"
    and "s_len (tcp_sub c data flags) = 20 + word_of_nat (length data)"
    and "unat (s_len (tcp_sub c data flags)) = 20 + length data"
    and "s_end (tcp_sub c data flags) = 54 + length data"
    and "s_dlen (tcp_sub c data flags) = word_of_nat (length data)"
    and "s_protocol (tcp_sub c data flags) = 6"
    and "s_head (tcp_sub c data flags) = tcp_fill (\<lambda>_. 0) 34 c data flags (20 + word_of_nat (length data))"
  using unat_len_sums [OF assms] by (simp_all add: tcp_sub_def Let_def uint_nat [of "_ + word_of_nat _"])

text \<open>The segment before its checksum is stored.\<close>

definition tcp_unsummed :: "tcb \<Rightarrow> u8 list \<Rightarrow> u8 \<Rightarrow> mem" where
  "tcp_unsummed c data flags =
     (let m = put16 (\<lambda>_. 0) 34 (htons (local_port c));
          m = put16 m 36 (htons (remote_port c));
          m = put32 m 38 (snd_nxt c);
          m = put32 m 42 (rcv_nxt c);
          m = m(46 := TCP_MIN_DATA_OFFSET);
          m = m(47 := flags);
          m = put16 m 48 (htons 65535);
          m = put16 m 52 0;
          m = put32 m 38 (htonl (snd_nxt c));
          m = put32 m 42 (htonl (rcv_nxt c));
          m = put16 m 48 65535;
          m = (if 0 < length data then put_bytes m 54 data else m)
      in put16 m 50 0)"

lemma tcp_fill_unsummed:
  "tcp_fill (\<lambda>_. 0) 34 c data flags slen = put16 (tcp_unsummed c data flags) 50
     (do_tcp_csum (tcp_unsummed c data flags) 34 (uint slen) (htons 6) (htonl (local_ip c)) (htonl (remote_ip c)))"
  by (simp add: tcp_fill_def tcp_unsummed_def Let_def byte_simps)

lemma tcp_checksum_field:
  assumes n: "length data \<le> 65515"
    and fits: "unat (htonl (local_ip c)) + unat (htonl (remote_ip c)) + 196605 + 65280 * (20 + length data) < 4294967296"
  shows "(unat (htonl (local_ip c)) + unat (htonl (remote_ip c)) + 6 + unat (htons (word_of_nat (20 + length data)))
      + le_sum (s_head (tcp_sub c data flags)) 34 (20 + length data)) mod 65535 = 0"
proof -
  let ?m = "tcp_unsummed c data flags" and ?n = "20 + length data"
  let ?S = "htonl (local_ip c)" and ?D = "htonl (remote_ip c)"
  obtain start where s: "do_tcp_csum ?m 34 (int ?n) (htons 6) ?S ?D = do_csum ?m 34 (int ?n) start"
      "unat start = unat ?S + unat ?D + unat (htons (htons 6)) + unat (htons (word_of_nat ?n))"
    using do_tcp_csum_start [of ?S ?D ?m 34 ?n "htons 6"] fits by auto
  have z: "get16 ?m (34 + 16) = 0" by (simp add: tcp_unsummed_def Let_def)
  have u: "uint (20 + word_of_nat (length data) :: u32) = int ?n"
    unfolding uint_nat unat_len_sums(2) [OF n] ..
  have h: "s_head (tcp_sub c data flags) = put16 ?m (34 + 16) (do_csum ?m 34 (int ?n) start)"
    unfolding tcp_sub_simps(7) [OF n] tcp_fill_unsummed u s(1) by simp
  have "unat (htons (word_of_nat ?n)) \<le> 65535" using unat_u16_less [of "htons (word_of_nat ?n)"] by linarith
  then have b: "unat start + le_sum ?m 34 ?n + 65535 < 4294967296"
    using s(2) fits le_sum_bound [of ?m 34 ?n] by simp
  have "do_csum (s_head (tcp_sub c data flags)) 34 (int ?n) start = 0"
    unfolding h using z b by (intro ip_sum.filled_verifies) simp_all
  moreover have "le_sum (s_head (tcp_sub c data flags)) 34 ?n \<le> le_sum ?m 34 ?n + 65535"
    using le_sum_put16 [of 16 ?n ?m 34 "do_csum ?m 34 (int ?n) start"] z
      unat_u16_less [of "do_csum ?m 34 (int ?n) start"] unfolding h by (simp del: unat_u16_less add: less_Suc_eq_le)
  ultimately have "(unat start + le_sum (s_head (tcp_sub c data flags)) 34 ?n) mod 65535 = 0"
    using ip_sum.verifies_iff [of start "s_head (tcp_sub c data flags)" 34 ?n] b by linarith
  then show ?thesis unfolding s(2) by simp
qed

lemma swapped_address_sum:
  "unat (bswap32 a) mod 65535 = 256 * (unat a div 65536 + unat a mod 65536) mod 65535"
proof -
  define b0 b1 b2 b3 where b: "b0 = unat a mod 256" "b1 = unat a div 256 mod 256" "b2 = unat a div 65536 mod 256"
    "b3 = unat a div 16777216 mod 256"
  have a: "unat a = b0 + 256 * b1 + 65536 * b2 + 16777216 * b3"
    unfolding b by (rule nat_bytes4 [OF unat_u32_less, symmetric])
  have s: "unat (bswap32 a) = b3 + 256 * b2 + 65536 * b1 + 16777216 * b0"
    unfolding b bswap32_def unat_le32 unat_byte ..
  have "unat (bswap32 a) = (b3 + 256 * b2 + b1 + 256 * b0) + 65535 * (b1 + 256 * b0)"
    unfolding s by simp
  then have "unat (bswap32 a) mod 65535 = (b3 + 256 * b2 + b1 + 256 * b0) mod 65535" by (metis mod_mult_self2)
  moreover have "256 * unat a = (b3 + 256 * b2 + b1 + 256 * b0) + 65535 * (b1 + 256 * b2 + 65537 * b3)"
    unfolding a by simp
  then have "256 * unat a mod 65535 = (b3 + 256 * b2 + b1 + 256 * b0) mod 65535"
    by (metis mod_mult_self2)
  moreover have "256 * unat a mod 65535 = 256 * (unat a div 65536 + unat a mod 65536) mod 65535"
    using unat_mod_halves [of a] by (metis mod_mult_right_eq)
  ultimately show ?thesis by simp
qed

text \<open>Both mistakes together add 255 times the same number.\<close>

lemma checksum_mistakes:
  "((unat (bswap32 a) + 1536 + x) mod 65535 = (unat a + 6 + x) mod 65535)
     \<longleftrightarrow> 257 dvd (unat a div 65536 + unat a mod 65536 + 6)"
proof -
  let ?h = "unat a div 65536 + unat a mod 65536"
  have l: "(unat (bswap32 a) + 1536 + x) mod 65535 = (256 * (?h + 6) + x) mod 65535"
    using mod_add_cong [OF swapped_address_sum [of a], of "1536 + x" "1536 + x"] by (simp add: algebra_simps)
  have r: "(unat a + 6 + x) mod 65535 = (?h + 6 + x) mod 65535"
    using mod_add_cong [OF unat_mod_halves [of a], of "6 + x" "6 + x"] by (simp add: algebra_simps)
  have "(256 * (?h + 6) + x) mod 65535 = (?h + 6 + x) mod 65535 \<longleftrightarrow> 65535 dvd (256 * (?h + 6) + x) - (?h + 6 + x)"
    by (rule mod_eq_dvd_iff_nat) simp
  also have "(256 * (?h + 6) + x) - (?h + 6 + x) = 255 * (?h + 6)" by simp
  also have "65535 dvd 255 * (?h + 6) \<longleftrightarrow> 257 dvd (?h + 6)"
    using nat_mult_dvd_cancel1 [of 255 257 "?h + 6"] by simp
  finally show ?thesis unfolding l r .
qed


definition sample_tcb :: tcb where
  "sample_tcb = \<lparr>c_state = TCP_ESTABLISHED, local_port = 49155, remote_port = 43211, local_ip = 0x0400000A,
     remote_ip = 0x0A000005, tcb_locked = False, rcv_nxt = 500, rcv_wnd = 0, irs = 499, rcv_buff_len = 0,
     rcv_buff = (\<lambda>_. 0), send_locked = False, snd_una = 1000, snd_nxt = 1000, snd_wnd = 65535, iss = 999\<rparr>"

lemma sample_addrs: "ntohl 0x0A000004 = 0x0400000A" "ntohl 0x0A000005 = 0x0500000A" "ntohl 0x0A000006 = 0x0600000A"
  by (simp_all add: bswap32_def word_unat_eq_iff)


text \<open>An otherwise empty segment of 20 bytes from 10.0.0.5 whose checksum field is zero.\<close>

definition sample_bad_segment :: subuff where
  "sample_bad_segment = rx_sub 1522 (replicate 14 0 @ [0x45, 0, 40, 0, 7, 0, 0x40, 0, 64, 6, 0, 0, 5, 0, 0, 10, 4, 0, 0, 10])"


text \<open>An acknowledgement from the peer of the sample connection, as \<open>tcp_rx\<close> gets it from \<open>ip_rx\<close>.\<close>

definition sample_ack_segment :: subuff where
  "sample_ack_segment = rx_sub 1522 (replicate 14 0 @ [0x45, 0, 40, 0, 7, 0, 0x40, 0, 64, 6, 0, 0, 5, 0, 0, 10, 4, 0, 0, 10,
     0xa8, 0xcb, 0xc0, 3, 0, 0, 1, 0xf4, 0, 0, 3, 0xe8, 0x50, 0x10, 0xff, 0xff, 0x2d, 0x21, 0, 0])"

lemma sample_ack_fields:
  "get32 (s_head sample_ack_segment) 26 = 0x0A000005" "get32 (s_head sample_ack_segment) 30 = 0x0A000004"
  "get16 (s_head sample_ack_segment) 16 = 40" "ip_ihl (s_head sample_ack_segment) = 5" "s_head sample_ack_segment 23 = 6"
  "get16 (s_head sample_ack_segment) 34 = 0xcba8" "get16 (s_head sample_ack_segment) 36 = 0x03c0"
  "get32 (s_head sample_ack_segment) 38 = 0xf4010000" "get32 (s_head sample_ack_segment) 42 = 0xe8030000"
  "s_head sample_ack_segment 46 = 0x50" "s_head sample_ack_segment 47 = 0x10" "s_end sample_ack_segment = 1522"
  by (simp_all add: sample_ack_segment_def rx_sub_def put_bytes_def get32_def get16_def le32_def le16_def
      ip_ihl_def nth_append word_unat_eq_iff unat_mod_distrib)

lemma sample_ack_sum: "le_sum (s_head sample_ack_segment) 34 20 = 253160"
  by (simp add: le_sum_def sample_ack_segment_def rx_sub_def put_bytes_def lessThan_nat_numeral lessThan_Suc nth_append)

lemma sample_ack_accepted: "tcp_rx sample_ack_segment (w :: 'a tcp_state_scheme) = tcp_rx_lookup sample_ack_segment w"
proof -
  have "tcp_verifies 0x0A000005 0x0A000004 (get_bytes (s_head sample_ack_segment) 34 20)"
    by (simp add: tcp_verifies_le_sum pseudo_sum_def sample_addrs bswap16_def le16_def sample_ack_sum)
  moreover have "IP_PAYLOAD_LEN (s_head sample_ack_segment) = int 20"
    by (simp add: IP_PAYLOAD_LEN_def sample_ack_fields)
  ultimately show ?thesis
    using tcp_rx_checked [of sample_ack_segment 20 w] by (simp add: sample_ack_fields sample_addrs)
qed

end
