(* ===== verification/Tcp_Send.thy ===== *)
theory Tcp_Send
  imports Tcp_Checksum
begin

text \<open>
  What the sending side of \<open>Tcp_Out\<close> achieves. First the operations on control blocks and one round of
  \<open>tcp_tx\<close> in closed form; then: \<open>tcp_tx\<close> cuts the data into consecutive segments with consecutive sequence
  numbers and stops when the peer's window is full; an acknowledgement removes exactly the acknowledged
  segments from the queue; a run of the retransmission thread puts every queued segment on the wire in
  order. The last section is about acknowledgements that end inside a segment.
\<close>

section \<open>Control block operations in closed form\<close>

lemma the_tcb_Some [simp]: "tcbs w p = Some c \<Longrightarrow> the_tcb p w = Inr c"
  by (simp add: the_tcb_def)

lemma upd_tcb_Some [simp]: "tcbs w p = Some c \<Longrightarrow> upd_tcb p f w = Inr (w\<lparr>tcbs := (tcbs w)(p \<mapsto> f c)\<rparr>)"
  by (simp add: upd_tcb_def)

lemma lock_Some [simp]:
  "tcbs w p = Some c \<Longrightarrow> \<not> tcb_locked c \<Longrightarrow> lock_tcb p w = Inr (w\<lparr>tcbs := (tcbs w)(p \<mapsto> c\<lparr>tcb_locked := True\<rparr>)\<rparr>)"
  "tcbs w p = Some c \<Longrightarrow> \<not> send_locked c \<Longrightarrow> lock_send p w = Inr (w\<lparr>tcbs := (tcbs w)(p \<mapsto> c\<lparr>send_locked := True\<rparr>)\<rparr>)"
  "tcbs w p = Some c \<Longrightarrow> tcb_locked c \<Longrightarrow> lock_tcb p w = Inl SelfDeadlock"
  "tcbs w p = Some c \<Longrightarrow> send_locked c \<Longrightarrow> lock_send p w = Inl SelfDeadlock"
  by (simp_all add: lock_tcb_def lock_send_def)

lemma unlock_Some [simp]:
  "tcbs w p = Some c \<Longrightarrow> unlock_tcb p w = Inr (w\<lparr>tcbs := (tcbs w)(p \<mapsto> c\<lparr>tcb_locked := False\<rparr>)\<rparr>)"
  "tcbs w p = Some c \<Longrightarrow> unlock_send p w = Inr (w\<lparr>tcbs := (tcbs w)(p \<mapsto> c\<lparr>send_locked := False\<rparr>)\<rparr>)"
  by (simp_all add: unlock_tcb_def unlock_send_def)

lemma tcb_none [simp]:
  "tcbs w p = None \<Longrightarrow> the_tcb p w = Inl UseAfterFree"
  "tcbs w p = None \<Longrightarrow> upd_tcb p f w = Inl UseAfterFree"
  "tcbs w p = None \<Longrightarrow> lock_tcb p w = Inl UseAfterFree"
  "tcbs w p = None \<Longrightarrow> lock_send p w = Inl UseAfterFree"
  by (simp_all add: the_tcb_def upd_tcb_def lock_tcb_def lock_send_def)

lemma signal_simps [simp]:
  "tcbs (signal v w) = tcbs w" "messages_array (signal v w) = messages_array w" "oom (signal v w) = oom w"
  "uaf (signal v w) = uaf w" "tap_out (signal v w) = tap_out w" "timers (signal v w) = timers w"
  "anp_sockets_cache (signal v w) = anp_sockets_cache w" "routes (signal v w) = routes w"
  "arp_cache (signal v w) = arp_cache w" "live_subs (signal v w) = live_subs w" "live_bufs (signal v w) = live_bufs w"
  by (simp_all add: signal_def)

lemma free_sub_tcp_simps [simp]:
  "tcbs (free_sub s w) = tcbs w" "messages_array (free_sub s w) = messages_array w" "uaf (free_sub s w) = uaf w"
  "anp_sockets_cache (free_sub s w) = anp_sockets_cache w" "signals (free_sub s w) = signals w"
  "timers (free_sub s w) = timers w" "arp_cache (free_sub s w) = arp_cache w" "routes (free_sub s w) = routes w"
  "live_subs (free_sub s w) = live_subs w - 1" "live_bufs (free_sub s w) = live_bufs w - 1"
  by (simp_all add: free_sub_def)

text \<open>Locks do not influence the segments that are built.\<close>

lemma tcp_sub_locks [simp]:
  "tcp_sub (c\<lparr>send_locked := b\<rparr>) data flags = tcp_sub c data flags"
  "tcp_sub (c\<lparr>tcb_locked := b\<rparr>) data flags = tcp_sub c data flags"
  "tcp_sub (c\<lparr>c_state := st\<rparr>) data flags = tcp_sub c data flags"
  by (simp_all add: tcp_sub_def tcp_fill_def)

lemma bump_nxt_simps [simp]:
  "snd_wnd (bump_nxt c f) = snd_wnd c" "snd_una (bump_nxt c f) = snd_una c" "rcv_nxt (bump_nxt c f) = rcv_nxt c"
  "rcv_buff_len (bump_nxt c f) = rcv_buff_len c" "rcv_buff (bump_nxt c f) = rcv_buff c"
  "c_state (bump_nxt c f) = c_state c" "tcb_locked (bump_nxt c f) = tcb_locked c"
  "send_locked (bump_nxt c f) = send_locked c" "iss (bump_nxt c f) = iss c" "irs (bump_nxt c f) = irs c"
  "bump_nxt (c\<lparr>send_locked := b\<rparr>) f = (bump_nxt c f)\<lparr>send_locked := b\<rparr>"
  "remote_ip (bump_nxt c f) = remote_ip c" "local_ip (bump_nxt c f) = local_ip c"
  by (simp_all add: bump_nxt_def)

lemma bump_nxt_ACK [simp]: "bump_nxt c TCP_ACK = c"
  by (simp add: bump_nxt_def)

lemma unlocked_send_eq [simp]: "\<not> send_locked c \<Longrightarrow> c\<lparr>send_locked := False\<rparr> = c"
  by (cases c) simp

lemma unlocked_tcb_eq [simp]: "\<not> tcb_locked c \<Longrightarrow> c\<lparr>tcb_locked := False\<rparr> = c"
  by (cases c) simp

section \<open>One round\<close>

definition tx_msg :: "nat \<Rightarrow> tcb \<Rightarrow> u8 list \<Rightarrow> u8 \<Rightarrow> u32 \<Rightarrow> tcp_message" where
  "tx_msg p c seg flags retries =
     (let sub = tcp_sub c seg flags
      in \<lparr>m_tcb = p, m_sub = sub, m_tcp_ptr = Some (nat (s_data sub)), m_tcp_len = s_len sub,
          m_tcp_data_len = s_dlen sub, m_retries = retries\<rparr>)"

definition tx_world ::
  "nat \<Rightarrow> tcb \<Rightarrow> u8 list \<Rightarrow> u8 \<Rightarrow> u32 \<Rightarrow> u32 \<Rightarrow> 'a tcp_state_scheme \<Rightarrow> 'a tcp_state_scheme" where
  "tx_world p c seg flags k retries w =
     w\<lparr>live_subs := live_subs w + 1, live_bufs := live_bufs w + 1,
       tcbs := (tcbs w)(p \<mapsto> (bump_nxt c flags)\<lparr>snd_nxt := snd_nxt (bump_nxt c flags) + k\<rparr>),
       messages_array := messages_array w @ [tx_msg p c seg flags retries]\<rparr>"

lemma tcp_tx_round_ok:
  assumes c: "tcbs w p = Some c" and u: "\<not> send_locked c" and o: "\<not> oom w"
  shows "tcp_tx_round p data dsize sent flags retries w =
    (let k = seg_size c dsize sent
     in Inr (if sent + k = dsize then Tx_done
             else if snd_wnd c \<le> snd_nxt (bump_nxt c flags) + k - snd_una c then Tx_wait else Tx_more,
             sent + k, tx_world p c (take (unat k) (drop (unat sent) data)) flags k retries w))"
proof -
  have b: "\<not> send_locked (bump_nxt c flags)" using u by simp
  have r: "(bump_nxt c flags)\<lparr>send_locked := True, snd_nxt := x, send_locked := False\<rparr> = (bump_nxt c flags)\<lparr>snd_nxt := x\<rparr>" for x
    using b by (cases "bump_nxt c flags") simp
  show ?thesis
    using c u o
    by (simp add: tcp_tx_round_def Let_def create_tcp_packet_eq seg_size_def add_msg_to_arr_def tx_world_def
        tx_msg_def r)
qed

lemma tx_world_simps [simp]:
  "tcbs (tx_world p c seg f k r w) p = Some ((bump_nxt c f)\<lparr>snd_nxt := snd_nxt (bump_nxt c f) + k\<rparr>)"
  "q \<noteq> p \<Longrightarrow> tcbs (tx_world p c seg f k r w) q = tcbs w q"
  "oom (tx_world p c seg f k r w) = oom w"
  "messages_array (tx_world p c seg f k r w) = messages_array w @ [tx_msg p c seg f r]"
  by (simp_all add: tx_world_def)

section \<open>Segmentation\<close>

text \<open>The messages queued for consecutive segments, the first with the control block's \<open>snd_nxt\<close>.\<close>

fun seg_msgs :: "nat \<Rightarrow> tcb \<Rightarrow> u8 list list \<Rightarrow> u32 \<Rightarrow> tcp_message list" where
  "seg_msgs p c [] retries = []"
| "seg_msgs p c (s # ss) retries =
     tx_msg p c s TCP_ACK retries # seg_msgs p (c\<lparr>snd_nxt := snd_nxt c + word_of_nat (length s)\<rparr>) ss retries"

text \<open>\<open>tcp_tx\<close> on the bytes from \<open>sent\<close> on has queued the segments \<open>segs\<close> and ended with the result \<open>r\<close>.\<close>

definition segmented ::
  "nat \<Rightarrow> tcb \<Rightarrow> u8 list \<Rightarrow> nat \<Rightarrow> u32 \<Rightarrow> 'a tcp_state_scheme \<Rightarrow> u8 list list \<Rightarrow> tx_result \<Rightarrow> 'a tcp_state_scheme \<Rightarrow> bool" where
  "segmented p c data sent retries w segs r w' \<longleftrightarrow>
     (let n = length (concat segs); c' = c\<lparr>snd_nxt := snd_nxt c + word_of_nat n\<rparr>
      in concat segs = take n (drop sent data)
       \<and> (\<forall>s \<in> set segs. length s \<le> 1460 \<and> length s \<le> unat (snd_wnd c))
       \<and> messages_array w' = messages_array w @ seg_msgs p c segs retries
       \<and> tcbs w' = (tcbs w)(p \<mapsto> c')
       \<and> (r = Sent (word_of_nat (length data)) \<and> sent + n = length data
          \<or> r = Waiting (word_of_nat (sent + n)) \<and> sent + n < length data \<and> snd_wnd c' \<le> snd_nxt c' - snd_una c'))"

lemma seg_size_unat:
  assumes "sent \<le> dsize"
  shows "unat (seg_size c dsize sent) \<le> 1460" "unat (seg_size c dsize sent) \<le> unat (snd_wnd c)"
    and "unat (seg_size c dsize sent) \<le> unat dsize - unat sent"
    and "unat (sent + seg_size c dsize sent) = unat sent + unat (seg_size c dsize sent)"
proof -
  let ?k = "seg_size c dsize sent"
  have "?k \<le> 1460" "?k \<le> snd_wnd c" "?k \<le> dsize - sent"
    unfolding seg_size_def by (meson min.cobounded1 min.cobounded2 order_trans)+
  then show k: "unat ?k \<le> 1460" "unat ?k \<le> unat (snd_wnd c)" "unat ?k \<le> unat dsize - unat sent"
    using assms by (simp_all add: word_le_nat_alt unat_sub)
  have "unat sent \<le> unat dsize" using assms by (simp add: word_le_nat_alt)
  then show "unat (sent + ?k) = unat sent + unat ?k"
    using k(3) unat_u32_less [of dsize] by (intro unat_add_small) linarith
qed

lemma segmented_first:
  assumes "length s \<le> 1460" and "length s \<le> unat (snd_wnd c)" and "s = take (length s) (drop sent data)"
    and "segmented p (c\<lparr>snd_nxt := snd_nxt c + word_of_nat (length s)\<rparr>) data (sent + length s) retries
           (tx_world p c s TCP_ACK (word_of_nat (length s)) retries w) segs r w'"
  shows "segmented p c data sent retries w (s # segs) r w'"
proof -
  have "concat segs = take (length (concat segs)) (drop (sent + length s) data)"
    using assms(4) unfolding segmented_def Let_def by blast
  then have cat: "s @ concat segs = take (length s + length (concat segs)) (drop sent data)"
    using assms(3) by (metis add.commute drop_drop take_add)
  show ?thesis
    using assms(1,2,4) cat unfolding segmented_def Let_def tx_world_def
    by (elim conjE disjE) (simp_all add: add.assoc)
qed

lemma segmented_last:
  assumes "length s \<le> 1460" and "length s \<le> unat (snd_wnd c)" and "s = take (length s) (drop sent data)"
    and "r = Sent (word_of_nat (length data)) \<and> sent + length s = length data
      \<or> r = Waiting (word_of_nat (sent + length s)) \<and> sent + length s < length data
        \<and> snd_wnd c \<le> snd_nxt c + word_of_nat (length s) - snd_una c"
  shows "segmented p c data sent retries w [s] r (tx_world p c s TCP_ACK (word_of_nat (length s)) retries w)"
  using assms unfolding segmented_def Let_def by (auto simp: tx_world_def)

lemma tcp_tx_loop_segmented:
  assumes "tcbs w p = Some c" and "\<not> send_locked c" and "\<not> oom w"
    and "length data = unat dsize" and "sent \<le> dsize"
  shows "\<exists>segs r w'. tcp_tx_loop p data dsize sent TCP_ACK retries w = Inr (r, w')
    \<and> segmented p c data (unat sent) retries w segs r w'"
  using assms
proof (induction p data dsize sent "TCP_ACK :: u8" retries w arbitrary: c rule: tcp_tx_loop.induct)
  case (1 p data dsize sent retries w)
  let ?k = "seg_size c dsize sent"
  let ?s = "take (unat ?k) (drop (unat sent) data)"
  let ?w = "tx_world p c ?s TCP_ACK ?k retries w"
  note k = seg_size_unat [OF "1.prems"(5), of c]
  have le: "unat sent \<le> unat dsize" using "1.prems"(5) by (simp add: word_le_nat_alt)
  have len: "length ?s = unat ?k" using k(3) "1.prems"(4) by simp
  have wl: "word_of_nat (length ?s) = ?k" unfolding len by simp
  have seg: "length ?s \<le> 1460" "length ?s \<le> unat (snd_wnd c)" "?s = take (length ?s) (drop (unat sent) data)"
    unfolding len using k by simp_all
  have dw: "word_of_nat (length data) = dsize" using "1.prems"(4) by simp
  have end_iff: "sent + ?k = dsize \<longleftrightarrow> unat sent + length ?s = length data"
    unfolding len "1.prems"(4) k(4) [symmetric] by (rule word_unat_eq_iff)
  note round = tcp_tx_round_ok [OF "1.prems"(1-3), of data dsize sent TCP_ACK retries, unfolded Let_def bump_nxt_ACK]
  consider (fin) "sent + ?k = dsize"
    | (wait) "sent + ?k \<noteq> dsize" "snd_wnd c \<le> snd_nxt c + ?k - snd_una c"
    | (more) "sent + ?k \<noteq> dsize" "\<not> snd_wnd c \<le> snd_nxt c + ?k - snd_una c"
    by blast
  then show ?case
  proof cases
    case fin
    then have "tcp_tx_loop p data dsize sent TCP_ACK retries w = Inr (Sent dsize, ?w)"
      using "1.prems"(5) round by (simp add: tcp_tx_loop.simps [of p data dsize sent])
    moreover have "segmented p c data (unat sent) retries w [?s] (Sent dsize) ?w"
      using segmented_last [OF seg, of "Sent dsize" p retries w] fin end_iff dw unfolding wl by simp
    ultimately show ?thesis by blast
  next
    case wait
    then have "tcp_tx_loop p data dsize sent TCP_ACK retries w = Inr (Waiting (sent + ?k), ?w)"
      using "1.prems"(5) round by (simp add: tcp_tx_loop.simps [of p data dsize sent])
    moreover have "unat sent + length ?s < length data"
      using wait(1) end_iff le k(3) unfolding len "1.prems"(4) by linarith
    then have "segmented p c data (unat sent) retries w [?s] (Waiting (sent + ?k)) ?w"
      using segmented_last [OF seg, of "Waiting (sent + ?k)" p retries w] wait(2) unfolding wl by (simp add: wl)
    ultimately show ?thesis by blast
  next
    case more
    let ?c = "c\<lparr>snd_nxt := snd_nxt c + ?k\<rparr>"
    have m: "tcp_tx_round p data dsize sent TCP_ACK retries w = Inr (Tx_more, sent + ?k, ?w)"
      using round more by simp
    have le': "sent + ?k \<le> dsize" unfolding word_le_nat_alt k(4) using k(3) le by linarith
    obtain segs r w' where r: "tcp_tx_loop p data dsize (sent + ?k) TCP_ACK retries ?w = Inr (r, w')"
        "segmented p ?c data (unat (sent + ?k)) retries ?w segs r w'"
      using "1.hyps" [OF "1.prems"(5) m refl refl refl, of ?c] "1.prems" le' by auto
    have "tcp_tx_loop p data dsize sent TCP_ACK retries w = Inr (r, w')"
      using "1.prems"(5) m r(1) by (simp add: tcp_tx_loop.simps [of p data dsize sent])
    moreover have "segmented p c data (unat sent) retries w (?s # segs) r w'"
      using segmented_first [OF seg, of p retries w segs r w'] r(2) unfolding wl k(4) len by simp
    ultimately show ?thesis by blast
  qed
qed

section \<open>What a queued message says\<close>

definition msg_seq :: "tcp_message \<Rightarrow> u32" where
  "msg_seq e = ntohl (get32 (s_head (m_sub e)) 38)"

definition msg_data :: "tcp_message \<Rightarrow> u8 list" where
  "msg_data e = get_bytes (s_head (m_sub e)) 54 (unat (m_tcp_data_len e))"

lemma tcp_sub_fields:
  assumes "length data \<le> 65515"
  shows "get16 (s_head (tcp_sub c data flags)) 34 = htons (local_port c)"
    and "get16 (s_head (tcp_sub c data flags)) 36 = htons (remote_port c)"
    and "get32 (s_head (tcp_sub c data flags)) 38 = htonl (snd_nxt c)"
    and "get32 (s_head (tcp_sub c data flags)) 42 = htonl (rcv_nxt c)"
    and "s_head (tcp_sub c data flags) 46 = TCP_MIN_DATA_OFFSET"
    and "s_head (tcp_sub c data flags) 47 = flags"
    and "get16 (s_head (tcp_sub c data flags)) 48 = 65535"
    and "get_bytes (s_head (tcp_sub c data flags)) 54 (length data) = data"
proof -
  have "get_bytes (tcp_unsummed c data flags) 54 (length data) = data"
    by (rule nth_equalityI) (auto simp: tcp_unsummed_def Let_def put16_apply put_bytes_def)
  moreover have "get_bytes (put16 m 50 v) 54 n = get_bytes m 54 n" for m n v
    by (rule get_bytes_cong) (simp add: put16_apply)
  ultimately show "get_bytes (s_head (tcp_sub c data flags)) 54 (length data) = data"
    by (simp add: tcp_sub_simps [OF assms] tcp_fill_unsummed)
qed (simp_all add: tcp_sub_simps [OF assms] tcp_fill_unsummed byte_simps,
     simp_all add: tcp_unsummed_def Let_def byte_simps)

lemma tx_msg_fields:
  assumes "length seg \<le> 65515"
  shows "m_tcb (tx_msg p c seg flags retries) = p" and "m_tcp_ptr (tx_msg p c seg flags retries) = Some 34"
    and "msg_seq (tx_msg p c seg flags retries) = snd_nxt c" and "msg_data (tx_msg p c seg flags retries) = seg"
    and "unat (m_tcp_data_len (tx_msg p c seg flags retries)) = length seg"
    and "m_retries (tx_msg p c seg flags retries) = retries"
  using assms tcp_sub_fields [OF assms, of c flags]
  by (simp_all add: tx_msg_def msg_seq_def msg_data_def tcp_sub_simps [OF assms])

text \<open>Consecutive messages: each sequence number is that of the first plus the bytes in between.\<close>

fun consecutive :: "u32 \<Rightarrow> tcp_message list \<Rightarrow> bool" where
  "consecutive seq [] = True"
| "consecutive seq (e # es) \<longleftrightarrow> msg_seq e = seq \<and> consecutive (seq + word_of_nat (length (msg_data e))) es"

lemma seg_msgs_data: "\<forall>s \<in> set segs. length s \<le> 1460 \<Longrightarrow> map msg_data (seg_msgs p c segs retries) = segs"
  by (induction segs arbitrary: c) (simp_all add: tx_msg_fields)

lemma seg_msgs_consecutive:
  "\<forall>s \<in> set segs. length s \<le> 1460 \<Longrightarrow> consecutive (snd_nxt c) (seg_msgs p c segs retries)"
proof (induction segs arbitrary: c)
  case (Cons s ss)
  then show ?case
    using Cons.IH [of "c\<lparr>snd_nxt := snd_nxt c + word_of_nat (length s)\<rparr>"] by (simp add: tx_msg_fields)
qed simp

section \<open>Properties of \<open>tcp_tx\<close>\<close>

text \<open>C7. \<open>tcp_tx\<close> always comes to an end, and what it queues is the data: consecutive segments, the first at
  \<open>snd_nxt\<close>, none longer than 1460 bytes or than the peer's window, whose contents joined are a prefix of
  the data, and \<open>snd_nxt\<close> moves past them. Either everything has been queued and the call returns the size, or it
  waits because the unacknowledged bytes fill the window.\<close>

theorem tcp_tx_stream:
  assumes "tcbs w p = Some c" and "\<not> send_locked c" and "\<not> oom w" and "length data < 2 ^ 32"
  shows "\<exists>r w' ms c'. tcp_tx p data (word_of_nat (length data)) TCP_ACK RETRIES_INFINITE w = Inr (r, w')
    \<and> messages_array w' = messages_array w @ ms \<and> consecutive (snd_nxt c) ms
    \<and> (\<forall>e \<in> set ms. length (msg_data e) \<le> 1460 \<and> length (msg_data e) \<le> unat (snd_wnd c))
    \<and> concat (map msg_data ms) = take (length (concat (map msg_data ms))) data
    \<and> c' = c\<lparr>snd_nxt := snd_nxt c + word_of_nat (length (concat (map msg_data ms)))\<rparr> \<and> tcbs w' = (tcbs w)(p \<mapsto> c')
    \<and> (r = Sent (word_of_nat (length data)) \<and> concat (map msg_data ms) = data
       \<or> r = Waiting (word_of_nat (length (concat (map msg_data ms)))) \<and> snd_wnd c' \<le> snd_nxt c' - snd_una c')"
proof -
  have l: "length data = unat (word_of_nat (length data) :: u32)"
    using assms(4) by (simp add: unat_of_nat)
  obtain segs r w' where r: "tcp_tx_loop p data (word_of_nat (length data)) 0 TCP_ACK RETRIES_INFINITE w = Inr (r, w')"
      "segmented p c data 0 RETRIES_INFINITE w segs r w'"
    using tcp_tx_loop_segmented [OF assms(1-3) l, of 0 RETRIES_INFINITE] by auto
  have s: "concat segs = take (length (concat segs)) data" "\<forall>s \<in> set segs. length s \<le> 1460 \<and> length s \<le> unat (snd_wnd c)"
    using r(2) unfolding segmented_def Let_def by auto
  then have m: "map msg_data (seg_msgs p c segs RETRIES_INFINITE) = segs" "consecutive (snd_nxt c) (seg_msgs p c segs RETRIES_INFINITE)"
    using seg_msgs_data [of segs] seg_msgs_consecutive [of segs] by auto
  have b: "\<forall>e \<in> set (seg_msgs p c segs RETRIES_INFINITE). msg_data e \<in> set segs" by (metis m(1) image_eqI list.set_map)
  show ?thesis
    using r s m b unfolding segmented_def Let_def tcp_tx_def
    by (intro exI [of _ r] exI [of _ w'] exI [of _ "seg_msgs p c segs RETRIES_INFINITE"]) auto
qed

definition sample_tcp :: "tcb \<Rightarrow> tcp_message list \<Rightarrow> tcp_state" where
  "sample_tcp c ms = \<lparr>live_subs = 0, live_bufs = 0, oom = False, cdev_lo = Some sample_lo, cdev_ext = Some sample_dev,
     tap_out = [], tap_ret = (\<lambda>f. int (length f)), arp_cache = [sample_gw_entry],
     routes = [lo_route sample_lo, host_route sample_dev, gw_route sample_dev],
     timers = [], tick = 100, t_next = 0, spawned = [], tcbs = [0 \<mapsto> c], tcb_next = 1, messages_array = ms,
     anp_sockets_cache = [\<lparr>sk_fd = 1000000, sk_type = 1, sk_protocol = 0, sk_domain = 2, sk_conn_info = Some 0\<rparr>],
     fd_in_use = (\<lambda>i. i = 0), available_port = 49155, errno = 0, signals = [], uaf = 0\<rparr>"

lemma sample_tcp_simps [simp]:
  "tcbs (sample_tcp c ms) = [0 \<mapsto> c]" "\<not> oom (sample_tcp c ms)" "messages_array (sample_tcp c ms) = ms"
  "tap_out (sample_tcp c ms) = []" "uaf (sample_tcp c ms) = 0" "tap_ret (sample_tcp c ms) f = int (length f)"
  "live_subs (sample_tcp c ms) = 0" "live_bufs (sample_tcp c ms) = 0" "signals (sample_tcp c ms) = []"
  by (simp_all add: sample_tcp_def)

lemma sample_tcb_simps [simp]:
  "\<not> send_locked sample_tcb" "\<not> tcb_locked sample_tcb" "snd_nxt sample_tcb = 1000" "snd_una sample_tcb = 1000"
  "snd_wnd sample_tcb = 65535" "c_state sample_tcb = TCP_ESTABLISHED" "rcv_nxt sample_tcb = 500" "rcv_buff_len sample_tcb = 0"
  "remote_ip sample_tcb = 0x0A000005" "iss sample_tcb = 999"
  by (simp_all add: sample_tcb_def)

theorem tcp_tx_stream_witness:
  "\<exists>w' ms. tcp_tx 0 [7, 8, 9] 3 TCP_ACK RETRIES_INFINITE (sample_tcp sample_tcb []) = Inr (Sent 3, w')
     \<and> messages_array w' = ms \<and> consecutive 1000 ms \<and> concat (map msg_data ms) = [7, 8, 9]"
proof -
  obtain r w' ms where r: "tcp_tx 0 [7, 8, 9] 3 TCP_ACK RETRIES_INFINITE (sample_tcp sample_tcb []) = Inr (r, w')"
      "messages_array w' = ms" "consecutive 1000 ms"
      "concat (map msg_data ms) = take (length (concat (map msg_data ms))) [7, 8, 9]"
      "r = Sent 3 \<and> concat (map msg_data ms) = [7, 8, 9] \<or> 65535 \<le> (word_of_nat (length (concat (map msg_data ms))) :: u32)"
    using tcp_tx_stream [of "sample_tcp sample_tcb []" 0 sample_tcb "[7, 8, 9]"] by auto
  have "length (concat (map msg_data ms)) \<le> 3"
    using arg_cong [OF r(4), of length] by simp
  then have "\<not> 65535 \<le> (word_of_nat (length (concat (map msg_data ms))) :: u32)"
    by (simp add: word_le_nat_alt unat_of_nat)
  then show ?thesis using r by blast
qed

section \<open>Acknowledged messages\<close>

definition acked :: "nat \<Rightarrow> tcb \<Rightarrow> tcp_message \<Rightarrow> bool" where
  "acked p c e \<longleftrightarrow> m_tcb e = p \<and> msg_seq e < snd_una c"

text \<open>The acknowledgement does not end inside the message, and the message's header pointer is intact.\<close>

definition whole :: "nat \<Rightarrow> tcb \<Rightarrow> tcp_message \<Rightarrow> bool" where
  "whole p c e \<longleftrightarrow> (m_tcb e = p \<longrightarrow>
     m_tcp_ptr e = Some 34 \<and> (msg_seq e < snd_una c \<longrightarrow> msg_seq e + m_tcp_data_len e \<le> snd_una c))"

definition release_msgs :: "nat \<Rightarrow> 'a tcp_state_scheme \<Rightarrow> 'a tcp_state_scheme" where
  "release_msgs k w = w\<lparr>live_bufs := live_bufs w - int k, live_subs := live_subs w - int k, uaf := uaf w + k\<rparr>"

lemma release_msgs_simps [simp]:
  "tcbs (release_msgs k w) = tcbs w" "messages_array (release_msgs k w) = messages_array w" "oom (release_msgs k w) = oom w"
  "release_msgs 0 w = w" "release_msgs j (release_msgs k w) = release_msgs (k + j) w"
  by (simp_all add: release_msgs_def algebra_simps)

lemma stop_retransmit_loop_whole:
  assumes "tcbs w p = Some c" and "\<forall>e \<in> set es. whole p c e"
  shows "stop_retransmit_loop p es w =
    Inr (filter (\<lambda>e. \<not> acked p c e) es, release_msgs (length (filter (acked p c) es)) w)"
  using assms
proof (induction es arbitrary: w)
  case (Cons e es)
  have one: "(if m_tcb e = p then stop_retransmit_msg p e w else Inr (Some e, w)) =
      Inr (if acked p c e then (None, release_msgs 1 w) else (Some e, w))"
    using Cons.prems
    by (auto simp: stop_retransmit_msg_def whole_def acked_def msg_seq_def release_msgs_def free_sub_def Let_def not_less)
  show ?case
    using Cons.IH [of w] Cons.IH [of "release_msgs 1 w"] Cons.prems by (simp add: one)
qed simp

lemma stop_retransmit_whole:
  assumes "tcbs w p = Some c" and "\<forall>e \<in> set (messages_array w). whole p c e"
  shows "stop_retransmit p w = Inr (release_msgs (length (filter (acked p c) (messages_array w)))
    (w\<lparr>messages_array := filter (\<lambda>e. \<not> acked p c e) (messages_array w)\<rparr>))"
  using stop_retransmit_loop_whole [OF assms] by (simp add: stop_retransmit_def release_msgs_def)

text \<open>C8. When an acknowledgement covers whole segments, \<open>stop_retransmit\<close> removes exactly the connection's
  messages whose sequence number lies below \<open>snd_una\<close>, releases their buffers, and leaves every other message,
  of this and of other connections, in place and in order.\<close>

theorem stop_retransmit_exact:
  assumes "tcbs w p = Some c" and "\<forall>e \<in> set (messages_array w). whole p c e"
  shows "\<exists>w'. stop_retransmit p w = Inr w' \<and> tcbs w' = tcbs w
    \<and> messages_array w' = filter (\<lambda>e. \<not> (m_tcb e = p \<and> msg_seq e < snd_una c)) (messages_array w)
    \<and> live_bufs w' + int (length (messages_array w)) = live_bufs w + int (length (messages_array w'))"
proof -
  have "length (filter (acked p c) es) + length (filter (\<lambda>e. \<not> acked p c e) es) = length es" for es
    by (rule sum_length_filter_compl)
  then have "int (length (filter (acked p c) es)) + int (length (filter (\<lambda>e. \<not> acked p c e) es)) = int (length es)" for es
    by (simp only: of_nat_add [symmetric])
  then have "live_bufs w - int (length (filter (acked p c) es)) + int (length es)
      = live_bufs w + int (length (filter (\<lambda>e. \<not> acked p c e) es))" for es
    by (metis (no_types, lifting) add.assoc diff_add_cancel)
  then show ?thesis
    using stop_retransmit_whole [OF assms] by (simp add: release_msgs_def acked_def [abs_def])
qed

theorem stop_retransmit_exact_witness:
  "\<exists>w' m1 m2. m1 = tx_msg 0 sample_tcb [1, 2] TCP_ACK RETRIES_INFINITE
     \<and> m2 = tx_msg 0 (sample_tcb\<lparr>snd_nxt := 1002\<rparr>) [3] TCP_ACK RETRIES_INFINITE
     \<and> stop_retransmit 0 (sample_tcp (sample_tcb\<lparr>snd_una := 1002\<rparr>) [m1, m2]) = Inr w' \<and> messages_array w' = [m2]"
proof -
  define m1 where "m1 = tx_msg 0 sample_tcb [1, 2] TCP_ACK RETRIES_INFINITE"
  define m2 where "m2 = tx_msg 0 (sample_tcb\<lparr>snd_nxt := 1002\<rparr>) [3] TCP_ACK RETRIES_INFINITE"
  have f: "m_tcb m1 = 0" "m_tcb m2 = 0" "m_tcp_ptr m1 = Some 34" "m_tcp_ptr m2 = Some 34" "msg_seq m1 = 1000" "msg_seq m2 = 1002"
    by (simp_all add: m1_def m2_def tx_msg_fields)
  have d: "m_tcp_data_len m1 = 2" by (simp add: m1_def tx_msg_def tcp_sub_simps)
  have "\<forall>e \<in> set [m1, m2]. whole 0 (sample_tcb\<lparr>snd_una := 1002\<rparr>) e" using f d by (simp add: whole_def)
  then show ?thesis
    using stop_retransmit_exact [of "sample_tcp (sample_tcb\<lparr>snd_una := 1002\<rparr>) [m1, m2]" 0 "sample_tcb\<lparr>snd_una := 1002\<rparr>"] f
    unfolding m1_def [symmetric] m2_def [symmetric] by auto
qed

text \<open>C32. An acknowledgement that ends inside a segment breaks the queue: the message gets a new buffer whose
  sequence number is \<open>snd_nxt\<close> instead of the first unacknowledged byte, its header pointer still points
  into the freed one, and the next run of the retransmission thread uses that pointer.\<close>

theorem partial_ack_dangles:
  assumes "tcbs w p = Some c" and "\<not> oom w" and "messages_array w = [e]" and "m_tcb e = p" and "m_tcp_ptr e = Some 34"
    and "msg_seq e < snd_una c" and "snd_una c < msg_seq e + m_tcp_data_len e"
    and "unat (m_tcp_data_len e) \<le> 1460" and "54 + unat (m_tcp_data_len e) \<le> s_end (m_sub e)"
  shows "\<exists>w' e'. stop_retransmit p w = Inr w' \<and> messages_array w' = [e'] \<and> msg_seq e' = snd_nxt c
    \<and> tcp_retransmit_handler env w' = Inl UseAfterFree"
proof -
  let ?a = "snd_una c - msg_seq e"
  let ?n = "m_tcp_data_len e - ?a"
  let ?rest = "get_bytes (s_head (m_sub e)) (54 + unat ?a) (unat ?n)"
  have a: "?a \<le> m_tcp_data_len e" using assms(6,7) by unat_arith
  then have n: "unat ?n = unat (m_tcp_data_len e) - unat ?a" "unat ?a \<le> unat (m_tcp_data_len e)"
    by (simp_all add: unat_sub word_le_nat_alt)
  have l: "length ?rest \<le> 65515" using n assms(8) by simp
  have "\<not> s_end (m_sub e) < 54 + unat ?a + unat ?n" using n assms(9) by simp
  then obtain w' e' where w': "stop_retransmit p w = Inr w'" "messages_array w' = [e']" "m_tcp_ptr e' = None" "m_tcb e' = p"
      "s_head (m_sub e') = s_head (tcp_sub c ?rest TCP_ACK)" "tcbs w' p = Some c"
    using assms(1-7)
    by (simp add: stop_retransmit_def stop_retransmit_msg_def Let_def msg_seq_def create_tcp_packet_eq add.assoc)
  moreover have "msg_seq e' = snd_nxt c" using w'(5) tcp_sub_fields(3) [OF l] by (simp add: msg_seq_def)
  ultimately show ?thesis by (auto simp: tcp_retransmit_handler_def)
qed

theorem partial_ack_dangles_witness:
  "\<exists>w' e'. stop_retransmit 0 (sample_tcp (sample_tcb\<lparr>snd_una := 1001, snd_nxt := 1003\<rparr>)
       [tx_msg 0 sample_tcb [1, 2, 3] TCP_ACK RETRIES_INFINITE]) = Inr w'
     \<and> messages_array w' = [e'] \<and> msg_seq e' = 1003 \<and> tcp_retransmit_handler [] w' = Inl UseAfterFree"
proof -
  let ?m = "tx_msg 0 sample_tcb [1, 2, 3] TCP_ACK RETRIES_INFINITE"
  have "m_tcp_data_len ?m = 3" "s_end (m_sub ?m) = 57" by (simp_all add: tx_msg_def tcp_sub_simps)
  then show ?thesis
    using partial_ack_dangles [of "sample_tcp (sample_tcb\<lparr>snd_una := 1001, snd_nxt := 1003\<rparr>) [?m]" 0
        "sample_tcb\<lparr>snd_una := 1001, snd_nxt := 1003\<rparr>" ?m "[]"]
    by (simp add: tx_msg_fields)
qed

section \<open>The retransmission thread\<close>

text \<open>The frame a queued message goes out as, when its next hop is resolved and the message is to be kept, sent once, or
  has retries left.\<close>

definition goes_out :: "'a tcp_state_scheme \<Rightarrow> tcp_message \<Rightarrow> u8 list \<Rightarrow> bool" where
  "goes_out w e frame \<longleftrightarrow>
     (\<exists>c rt mac. tcbs w (m_tcb e) = Some c \<and> m_tcp_ptr e = Some 34
        \<and> 34 + unat (m_tcp_len e) \<le> s_end (m_sub e) \<and> unat (m_tcp_len e) < 65516
        \<and> route_lookup (remote_ip c) w = Some rt \<and> wf_dev (rt_dev rt)
        \<and> arp_get_hwaddr (next_hop rt (remote_ip c)) w = Some mac \<and> length mac = 6
        \<and> frame = eth_frame mac (dev_hwaddr (rt_dev rt)) ETH_P_IP
            (ipv4_packet (get16 (s_head (m_sub e)) 18) (ucast (s_protocol (m_sub e))) (dev_addr (rt_dev rt)) (remote_ip c)
              (get_bytes (s_head (m_sub e)) 34 (unat (m_tcp_len e))))
        \<and> tap_ret w frame \<noteq> - EAGAIN
        \<and> m_retries e - 1 \<noteq> 0)"

text \<open>A message after it has been sent: the same segment, one retry less unless it is repeated forever.\<close>

definition resent :: "tcp_message \<Rightarrow> tcp_message \<Rightarrow> bool" where
  "resent e e' \<longleftrightarrow> m_tcb e' = m_tcb e \<and> m_tcp_ptr e' = m_tcp_ptr e \<and> m_tcp_len e' = m_tcp_len e
     \<and> m_tcp_data_len e' = m_tcp_data_len e \<and> s_end (m_sub e') = s_end (m_sub e)
     \<and> (\<forall>i \<ge> 34. s_head (m_sub e') i = s_head (m_sub e) i)
     \<and> m_retries e' = (if m_retries e = RETRIES_INFINITE then m_retries e else m_retries e - 1)"

lemma goes_out_cong:
  "tcbs w' = tcbs w \<Longrightarrow> routes w' = routes w \<Longrightarrow> arp_cache w' = arp_cache w \<Longrightarrow> tap_ret w' = tap_ret w \<Longrightarrow>
   goes_out w' e f \<longleftrightarrow> goes_out w e f"
  by (simp add: goes_out_def route_lookup_def arp_get_hwaddr_def)

lemma ip_out_high:
  "34 \<le> i \<Longrightarrow> length mac = 6 \<Longrightarrow> wf_dev (rt_dev rt) \<Longrightarrow>
   eth_fill (s_head (ip_out_sub dst rt sub)) 0 mac (dev_hwaddr (rt_dev rt)) et i = s_head sub i"
  by (simp add: eth_fill_apply wf_dev_def ip_out_sub_def ip_send_check_def put16_apply ip_fill_apply)

lemma resend_goes_out:
  assumes "goes_out w e frame" and "tcbs w (m_tcb e) = Some c"
  shows "\<exists>sub. m_tcp_ptr e = Some 34
    \<and> resend env (remote_ip c) e 34 (m_sub e) w = Inr (Some (sub, env, w\<lparr>tap_out := tap_out w @ [frame]\<rparr>))
    \<and> s_end sub = s_end (m_sub e) \<and> (\<forall>i \<ge> 34. s_head sub i = s_head (m_sub e) i)"
proof -
  obtain rt mac where g: "m_tcp_ptr e = Some 34" "34 + unat (m_tcp_len e) \<le> s_end (m_sub e)" "unat (m_tcp_len e) < 65516"
      "route_lookup (remote_ip c) w = Some rt" "wf_dev (rt_dev rt)"
      "arp_get_hwaddr (next_hop rt (remote_ip c)) w = Some mac" "length mac = 6"
      "frame = eth_frame mac (dev_hwaddr (rt_dev rt)) ETH_P_IP
        (ipv4_packet (get16 (s_head (m_sub e)) 18) (ucast (s_protocol (m_sub e))) (dev_addr (rt_dev rt)) (remote_ip c)
          (get_bytes (s_head (m_sub e)) 34 (unat (m_tcp_len e))))" "tap_ret w frame \<noteq> - EAGAIN"
    using assms unfolding goes_out_def by auto
  let ?sub = "(m_sub e)\<lparr>s_data := 34, s_len := m_tcp_len e\<rparr>"
  have o: "ip_output (remote_ip c) ?sub w =
      Inr (tap_ret w frame, (ip_out_sub (remote_ip c) rt ?sub)\<lparr>s_data := 0, s_len := s_len ?sub + 34,
        s_head := eth_fill (s_head (ip_out_sub (remote_ip c) rt ?sub)) 0 mac (dev_hwaddr (rt_dev rt)) ETH_P_IP\<rparr>,
        w\<lparr>tap_out := tap_out w @ [frame]\<rparr>)"
    by (rule ip_output_frame [OF g(4-7)]) (use g in simp_all)
  have "\<forall>i \<ge> 34. eth_fill (s_head (ip_out_sub (remote_ip c) rt ?sub)) 0 mac (dev_hwaddr (rt_dev rt)) ETH_P_IP i = s_head (m_sub e) i"
    using g(5,7) by (simp add: ip_out_high)
  moreover have "s_end (ip_out_sub (remote_ip c) rt ?sub) = s_end (m_sub e)" by (simp add: ip_out_sub_def)
  ultimately show ?thesis
    using o g(1,9) by (simp add: resend.simps)
qed

definition once :: "tcp_message \<Rightarrow> bool" where
  "once e \<longleftrightarrow> m_retries e = RETRIES_SENDONCE"

lemma once_sub [simp]: "once (e\<lparr>m_sub := sub\<rparr>) = once e"
  by (simp add: once_def)

lemma after_resend_eq:
  assumes "m_retries e - 1 \<noteq> 0"
  shows "after_resend e w = Inr (if once e then (None, release_msgs 1 w)
    else (Some (e\<lparr>m_retries := if m_retries e = RETRIES_INFINITE then m_retries e else m_retries e - 1\<rparr>), w))"
  using assms by (simp add: after_resend_def once_def release_msgs_def free_sub_def Let_def)

lemma retransmit_loop_all:
  assumes "list_all2 (goes_out w) es frames"
  shows "\<exists>es'. retransmit_loop env es w =
      Inr (Some (es', release_msgs (length (filter once es)) (w\<lparr>tap_out := tap_out w @ frames\<rparr>)))
    \<and> list_all2 resent (filter (\<lambda>e. \<not> once e) es) es'"
  using assms
proof (induction es arbitrary: frames w)
  case Nil
  then show ?case by simp
next
  case (Cons e es)
  then obtain f fs where fs: "frames = f # fs" "goes_out w e f" "list_all2 (goes_out w) es fs"
    by (auto simp: list_all2_Cons1)
  obtain c where c: "tcbs w (m_tcb e) = Some c" and r: "m_retries e - 1 \<noteq> 0" using fs(2) by (auto simp: goes_out_def)
  obtain sub where sub: "m_tcp_ptr e = Some 34"
      "resend env (remote_ip c) e 34 (m_sub e) w = Inr (Some (sub, env, w\<lparr>tap_out := tap_out w @ [f]\<rparr>))"
      "s_end sub = s_end (m_sub e)" "\<forall>i \<ge> 34. s_head sub i = s_head (m_sub e) i"
    using resend_goes_out [OF fs(2) c] by blast
  let ?w = "release_msgs (if once e then 1 else 0) (w\<lparr>tap_out := tap_out w @ [f]\<rparr>)"
  have "list_all2 (goes_out ?w) es fs"
    using fs(3) by (rule list_all2_mono) (subst goes_out_cong [of _ w], simp_all add: release_msgs_def)
  then obtain es' where es': "retransmit_loop env es ?w =
      Inr (Some (es', release_msgs (length (filter once es)) (?w\<lparr>tap_out := tap_out ?w @ fs\<rparr>)))"
      "list_all2 resent (filter (\<lambda>e. \<not> once e) es) es'"
    using Cons.IH by blast
  have w: "release_msgs (length (filter once es)) (?w\<lparr>tap_out := tap_out ?w @ fs\<rparr>)
      = release_msgs (length (filter once (e # es))) (w\<lparr>tap_out := tap_out w @ frames\<rparr>)"
    by (simp add: release_msgs_def fs(1))
  let ?e = "e\<lparr>m_sub := sub, m_retries := if m_retries e = RETRIES_INFINITE then m_retries e else m_retries e - 1\<rparr>"
  have "resent e ?e" using sub by (simp add: resent_def)
  then show ?case
    using c r sub es' w by (cases "once e"; cases "m_retries e = RETRIES_INFINITE") (simp_all add: after_resend_eq)
qed

text \<open>A run of the retransmission thread over messages whose next hops are resolved puts every queued segment on
  the wire, in order and unchanged, drops those to be sent once, keeps the others with their segment
  intact, and schedules its next run in 10 ms.\<close>

theorem retransmit_all:
  assumes "list_all2 (goes_out w) (messages_array w) frames" and "\<not> oom w"
  shows "\<exists>w'. tcp_retransmit_handler env w = Inr (Some w') \<and> tap_out w' = tap_out w @ frames
    \<and> list_all2 resent (filter (\<lambda>e. \<not> once e) (messages_array w)) (messages_array w')
    \<and> timers w' = timers w @ [\<lparr>t_addr = t_next w, t_refcnt = 0, t_expires = tick w + TCP_WAIT_TIME,
        t_cancelled = False, t_handler = Tcp_retransmit_handler\<rparr>]"
proof -
  obtain es' where "retransmit_loop env (messages_array w) w =
      Inr (Some (es', release_msgs (length (filter once (messages_array w))) (w\<lparr>tap_out := tap_out w @ frames\<rparr>)))"
      "list_all2 resent (filter (\<lambda>e. \<not> once e) (messages_array w)) es'"
    using retransmit_loop_all [OF assms(1)] by blast
  then show ?thesis
    using assms(2) by (simp add: tcp_retransmit_handler_def timer_oneshot_def timer_insert_eq timer_get_tick_def release_msgs_def)
qed

definition sample_msg :: tcp_message where
  "sample_msg = tx_msg 0 sample_tcb [1, 2] TCP_ACK RETRIES_INFINITE"

definition sample_msg_frame :: "u8 list" where
  "sample_msg_frame = eth_frame [0xaa, 0xbb, 0xcc, 0xdd, 0xee, 0xff] (dev_hwaddr sample_dev) ETH_P_IP
     (ipv4_packet (get16 (s_head (m_sub sample_msg)) 18) 6 0x0A000004 0x0A000005
       (get_bytes (s_head (m_sub sample_msg)) 34 22))"

lemma sample_msg_goes_out: "goes_out (sample_tcp sample_tcb [sample_msg]) sample_msg sample_msg_frame"
proof -
  let ?w = "sample_tcp sample_tcb [sample_msg]"
  have r: "route_lookup 0x0A000005 ?w = Some (host_route sample_dev)"
      "arp_get_hwaddr 0x0A000005 ?w = Some [0xaa, 0xbb, 0xcc, 0xdd, 0xee, 0xff]"
    by (simp_all add: sample_tcp_def route_lookup_def rt_matches_def lo_route_def host_route_def sample_lo_def
        arp_get_hwaddr_def sample_gw_entry_def)
  have m: "m_tcb sample_msg = 0" "m_tcp_ptr sample_msg = Some 34" "s_end (m_sub sample_msg) = 56"
      "m_tcp_len sample_msg = 22" "s_protocol (m_sub sample_msg) = 6" "m_retries sample_msg = RETRIES_INFINITE"
    by (simp_all add: sample_msg_def tx_msg_fields) (simp_all add: tx_msg_def tcp_sub_simps)
  show ?thesis
    unfolding goes_out_def
    by (intro exI [of _ sample_tcb] exI [of _ "host_route sample_dev"] exI [of _ "[0xaa, 0xbb, 0xcc, 0xdd, 0xee, 0xff]"])
      (simp add: r m sample_msg_frame_def)
qed

theorem retransmit_all_witness:
  "\<exists>w'. tcp_retransmit_handler [] (sample_tcp sample_tcb [sample_msg]) = Inr (Some w') \<and> tap_out w' = [sample_msg_frame]
     \<and> length (messages_array w') = 1"
proof -
  have "\<not> once sample_msg" by (simp add: once_def sample_msg_def tx_msg_fields)
  then show ?thesis
    using retransmit_all [of "sample_tcp sample_tcb [sample_msg]" "[sample_msg_frame]" "[]"] sample_msg_goes_out
    by (auto dest: list_all2_lengthD)
qed

end
