(* ===== verification/Tcp_Recv.thy ===== *)
theory Tcp_Recv
  imports Tcp_Send
begin

text \<open>
  What the receiving side of \<open>Tcp_In\<close> achieves. The receive buffer of a control block is a bounded queue of bytes:
  the locale \<open>byte_fifo\<close> states the contract, its interpretation on the two buffer updates of the code discharges it,
  and its lemma on histories says that what has been read, followed by what is still buffered, is what has
  been stored. On top of that: an established connection delivers a prefix of the peer's stream whatever order,
  loss or repetition the network imposes on the segments.
\<close>

section \<open>The receive buffer as a queue\<close>

definition rcv_contents :: "tcb \<Rightarrow> u8 list" where
  "rcv_contents c = get_bytes (rcv_buff c) 0 (unat (rcv_buff_len c))"

definition rcv_ok :: "tcb \<Rightarrow> bool" where
  "rcv_ok c \<longleftrightarrow> rcv_buff_len c \<le> TCP_RCV_MAX"

text \<open>The buffer updates of \<open>save_data_and_ack\<close> and of \<open>read_bytes\<close>.\<close>

definition rcv_store :: "u8 list \<Rightarrow> tcb \<Rightarrow> tcb" where
  "rcv_store bs c =
     (let n = word_of_nat (min (length bs) (65535 - unat (rcv_buff_len c)))
      in c\<lparr>rcv_buff := put_bytes (rcv_buff c) (unat (rcv_buff_len c)) (take (unat n) bs),
           rcv_nxt := rcv_nxt c + n, rcv_buff_len := rcv_buff_len c + n\<rparr>)"

definition rcv_fetch :: "u32 \<Rightarrow> tcb \<Rightarrow> u8 list \<times> tcb" where
  "rcv_fetch n c =
     (let k = min n (rcv_buff_len c); left = rcv_buff_len c - k
      in (get_bytes (rcv_buff c) 0 (unat k),
          c\<lparr>rcv_buff_len := left,
            rcv_buff := if 0 < left then put_bytes (rcv_buff c) 0 (get_bytes (rcv_buff c) (unat k) (unat left)) else rcv_buff c\<rparr>))"

lemma unat_le_rcv: "rcv_ok c \<longleftrightarrow> unat (rcv_buff_len c) \<le> 65535"
  by (simp add: rcv_ok_def word_le_nat_alt)

lemma length_rcv_contents [simp]: "length (rcv_contents c) = unat (rcv_buff_len c)"
  by (simp add: rcv_contents_def)

lemma get_bytes_put_append:
  "get_bytes (put_bytes m k xs) 0 (k + length xs) = get_bytes m 0 k @ xs"
  by (rule nth_equalityI) (auto simp: put_bytes_def nth_append)

lemma rcv_store_contents:
  assumes "rcv_ok c"
  shows "rcv_contents (rcv_store bs c) = rcv_contents c @ take (65535 - length (rcv_contents c)) bs"
    and "rcv_ok (rcv_store bs c)"
    and "rcv_nxt (rcv_store bs c) = rcv_nxt c + word_of_nat (min (length bs) (65535 - length (rcv_contents c)))"
proof -
  define k where "k = min (length bs) (65535 - unat (rcv_buff_len c))"
  have l: "unat (rcv_buff_len c) \<le> 65535" using assms by (simp add: unat_le_rcv)
  have u: "unat (word_of_nat k :: u32) = k" using l by (simp add: k_def unat_of_nat)
  have s: "unat (rcv_buff_len c + word_of_nat k) = unat (rcv_buff_len c) + k"
    using l u unat_add_small [of "rcv_buff_len c" "word_of_nat k"] by (simp add: k_def)
  have k: "k \<le> 65535 - unat (rcv_buff_len c)" by (simp add: k_def)
  have t: "take k bs = take (65535 - unat (rcv_buff_len c)) bs" by (simp add: k_def min_def)
  have len: "length (take k bs) = k" by (simp add: k_def)
  show "rcv_contents (rcv_store bs c) = rcv_contents c @ take (65535 - length (rcv_contents c)) bs"
    using get_bytes_put_append [of "rcv_buff c" "unat (rcv_buff_len c)" "take k bs"]
    unfolding rcv_contents_def rcv_store_def Let_def k_def [symmetric] u len by (simp add: s t)
  show "rcv_ok (rcv_store bs c)"
    unfolding unat_le_rcv rcv_store_def Let_def k_def [symmetric] using l k by (simp add: s)
  show "rcv_nxt (rcv_store bs c) = rcv_nxt c + word_of_nat (min (length bs) (65535 - length (rcv_contents c)))"
    by (simp add: rcv_store_def Let_def)
qed

lemma unat_min: "unat (min a b :: u32) = min (unat a) (unat b)"
  by (simp add: min_def word_le_nat_alt)

lemma rcv_fetch_contents:
  assumes "rcv_ok c" and "rcv_fetch n c = (bs, c')"
  shows "bs = take (unat n) (rcv_contents c)" and "rcv_contents c' = drop (unat n) (rcv_contents c)" and "rcv_ok c'"
proof -
  let ?k = "min n (rcv_buff_len c)"
  have k: "unat ?k = min (unat n) (unat (rcv_buff_len c))" by (rule unat_min)
  have left: "unat (rcv_buff_len c - ?k) = unat (rcv_buff_len c) - unat ?k"
    by (rule unat_sub) simp
  have sp: "rcv_contents c = get_bytes (rcv_buff c) 0 (unat ?k) @ get_bytes (rcv_buff c) (unat ?k) (unat (rcv_buff_len c) - unat ?k)"
    using get_bytes_split [of "rcv_buff c" 0 "unat ?k" "unat (rcv_buff_len c) - unat ?k"] k by (simp add: rcv_contents_def)
  have bs: "bs = get_bytes (rcv_buff c) 0 (unat ?k)" using assms(2) by (auto simp: rcv_fetch_def Let_def)
  have z: "\<not> 0 < rcv_buff_len c - ?k \<Longrightarrow> unat (rcv_buff_len c) - unat ?k = 0"
    unfolding left [symmetric] by (simp add: word_gt_0)
  have c': "rcv_contents c' = get_bytes (rcv_buff c) (unat ?k) (unat (rcv_buff_len c) - unat ?k)"
    using assms(2) get_put_bytes_same [of "rcv_buff c" 0 "get_bytes (rcv_buff c) (unat ?k) (unat (rcv_buff_len c) - unat ?k)"]
    by (cases "0 < rcv_buff_len c - ?k") (auto simp: rcv_fetch_def Let_def rcv_contents_def left z word_gt_0)
  have t: "take (unat n) (rcv_contents c) = take (unat ?k) (rcv_contents c)" "drop (unat n) (rcv_contents c) = drop (unat ?k) (rcv_contents c)"
    using k by (auto simp: min_def)
  show "bs = take (unat n) (rcv_contents c)" unfolding t bs by (subst sp) simp
  show "rcv_contents c' = drop (unat n) (rcv_contents c)" unfolding t c' by (subst sp) simp
  show "rcv_ok c'" using assms left by (auto simp: rcv_fetch_def Let_def unat_le_rcv)
qed

locale byte_fifo =
  fixes contents :: "'s \<Rightarrow> 'b list"
    and capacity :: nat
    and invar :: "'s \<Rightarrow> bool"
    and put :: "'b list \<Rightarrow> 's \<Rightarrow> 's"
    and fetch :: "'n \<Rightarrow> 's \<Rightarrow> 'b list \<times> 's"
    and amount :: "'n \<Rightarrow> nat"
  assumes put_contents: "invar s \<Longrightarrow> contents (put bs s) = contents s @ take (capacity - length (contents s)) bs"
    and put_invar: "invar s \<Longrightarrow> invar (put bs s)"
    and fetch_contents: "invar s \<Longrightarrow> contents s = fst (fetch n s) @ contents (snd (fetch n s))"
    and fetch_amount: "invar s \<Longrightarrow> length (fst (fetch n s)) = min (amount n) (length (contents s))"
    and fetch_invar: "invar s \<Longrightarrow> invar (snd (fetch n s))"
begin

text \<open>A history of stores (\<open>Inl\<close>) and reads (\<open>Inr\<close>): the bytes accepted, the bytes read, the final state.\<close>

fun history :: "('b list + 'n) list \<Rightarrow> 's \<Rightarrow> 'b list \<times> 'b list \<times> 's" where
  "history [] s = ([], [], s)"
| "history (Inl bs # ops) s =
     (let (acc, got, s') = history ops (put bs s) in (take (capacity - length (contents s)) bs @ acc, got, s'))"
| "history (Inr n # ops) s =
     (let (acc, got, s') = history ops (snd (fetch n s)) in (acc, fst (fetch n s) @ got, s'))"

lemma history_fifo:
  "invar s \<Longrightarrow> history ops s = (acc, got, s') \<Longrightarrow> invar s' \<and> contents s @ acc = got @ contents s'"
proof (induction ops arbitrary: s acc got s')
  case Nil
  then show ?case by simp
next
  case (Cons op ops)
  show ?case
  proof (cases op)
    case (Inl bs)
    obtain acc1 got1 s1 where h: "history ops (put bs s) = (acc1, got1, s1)" using prod_cases3 by blast
    then have "invar s1 \<and> contents (put bs s) @ acc1 = got1 @ contents s1"
      by (rule Cons.IH [OF put_invar [OF Cons.prems(1)]])
    then show ?thesis using Cons.prems(2) Inl h by (auto simp: put_contents [OF Cons.prems(1)])
  next
    case (Inr n)
    obtain acc1 got1 s1 where h: "history ops (snd (fetch n s)) = (acc1, got1, s1)" using prod_cases3 by blast
    then have "invar s1 \<and> contents (snd (fetch n s)) @ acc1 = got1 @ contents s1"
      by (rule Cons.IH [OF fetch_invar [OF Cons.prems(1)]])
    then show ?thesis using Cons.prems(2) Inr h by (auto simp: fetch_contents [OF Cons.prems(1), of n])
  qed
qed

end

interpretation rcv_fifo: byte_fifo rcv_contents 65535 rcv_ok rcv_store rcv_fetch unat
proof
  fix c bs n
  assume c: "rcv_ok c"
  show "rcv_contents (rcv_store bs c) = rcv_contents c @ take (65535 - length (rcv_contents c)) bs"
    and "rcv_ok (rcv_store bs c)" using rcv_store_contents [OF c] by blast+
  obtain b c' where f: "rcv_fetch n c = (b, c')" by (cases "rcv_fetch n c")
  show "rcv_contents c = fst (rcv_fetch n c) @ rcv_contents (snd (rcv_fetch n c))"
    and "length (fst (rcv_fetch n c)) = min (unat n) (length (rcv_contents c))"
    and "rcv_ok (snd (rcv_fetch n c))"
    using rcv_fetch_contents [OF c f] f by (simp_all add: min.commute)
qed

section \<open>Storing and reading\<close>

lemma seg_size_same [simp]: "seg_size c n n = 0"
  by (simp add: seg_size_def word_unat_eq_iff unat_min)

lemma tcp_tx_ctl_ok:
  assumes "tcbs w p = Some c" and "\<not> send_locked c" and "\<not> oom w"
    and "retries = RETRIES_SENDONCE \<or> retries = RETRIES_CONN_MAX \<or> retries = RETRIES_INFINITE"
  shows "tcp_tx_ctl p flags retries w = Inr (tx_world p c [] flags 0 retries w)"
  using assms by (auto simp: tcp_tx_ctl_def tcp_tx_def tcp_tx_loop.simps tcp_tx_round_ok Let_def)

lemma get_bytes_Nil [simp]: "get_bytes m i n = [] \<longleftrightarrow> n = 0"
  by (metis length_0_conv length_get_bytes)

lemma get_bytes_take: "k \<le> n \<Longrightarrow> get_bytes m i k = take k (get_bytes m i n)"
  by (rule nth_equalityI) simp_all

lemma rcv_store_simps [simp]:
  "c_state (rcv_store bs c) = c_state c" "send_locked (rcv_store bs c) = send_locked c" "tcb_locked (rcv_store bs c) = tcb_locked c"
  "snd_una (rcv_store bs c) = snd_una c" "snd_nxt (rcv_store bs c) = snd_nxt c" "snd_wnd (rcv_store bs c) = snd_wnd c"
  by (simp_all add: rcv_store_def Let_def)

lemma save_update:
  assumes "rcv_ok c" and "final = min dlen (TCP_RCV_MAX - rcv_buff_len c)"
  shows "c\<lparr>rcv_buff := put_bytes (rcv_buff c) (unat (rcv_buff_len c)) (get_bytes m a (unat final)),
           rcv_nxt := rcv_nxt c + final, rcv_buff_len := rcv_buff_len c + final\<rparr> = rcv_store (get_bytes m a (unat dlen)) c"
    and "unat final = min (unat dlen) (65535 - unat (rcv_buff_len c))"
proof -
  have s: "unat (TCP_RCV_MAX - rcv_buff_len c) = 65535 - unat (rcv_buff_len c)"
    using assms(1) by (simp add: unat_sub rcv_ok_def)
  show u: "unat final = min (unat dlen) (65535 - unat (rcv_buff_len c))"
    unfolding assms(2) unat_min s ..
  have f: "final = word_of_nat (min (unat dlen) (65535 - unat (rcv_buff_len c)))" unfolding u [symmetric] by simp
  have "get_bytes m a (unat final) = take (unat final) (get_bytes m a (unat dlen))"
    using u by (intro get_bytes_take) simp
  then show "c\<lparr>rcv_buff := put_bytes (rcv_buff c) (unat (rcv_buff_len c)) (get_bytes m a (unat final)),
           rcv_nxt := rcv_nxt c + final, rcv_buff_len := rcv_buff_len c + final\<rparr> = rcv_store (get_bytes m a (unat dlen)) c"
    by (simp add: rcv_store_def Let_def f [symmetric])
qed

text \<open>The message with which new data is acknowledged.\<close>

definition data_ack :: "nat \<Rightarrow> tcb \<Rightarrow> tcp_message" where
  "data_ack p c = tx_msg p c [] TCP_ACK RETRIES_SENDONCE"

lemma save_data_and_ack_ok:
  assumes c: "tcbs w p = Some c" "\<not> send_locked c" "rcv_ok c" and o: "\<not> oom w"
    and sub: "s_payload sub = Some a" "a + unat (s_dlen sub) \<le> s_end sub"
    and c': "c' = rcv_store (get_bytes (s_head sub) a (unat (s_dlen sub))) c"
  shows "\<exists>w'. save_data_and_ack p sub w = Inr w' \<and> tcbs w' = (tcbs w)(p \<mapsto> c') \<and> oom w' = oom w \<and> uaf w' = uaf w
    \<and> anp_sockets_cache w' = anp_sockets_cache w
    \<and> messages_array w' = messages_array w @ (if rcv_contents c' = rcv_contents c then [] else [data_ack p c'])
    \<and> signals w' = signals w @ (if rcv_buff_len c' = TCP_RCV_MAX \<or> s_head sub 47 AND TCP_PSH \<noteq> 0 then [Tcb_cond p] else [])"
proof -
  define final where "final = min (s_dlen sub) (TCP_RCV_MAX - rcv_buff_len c)"
  note upd = save_update [OF c(3) final_def]
  have l: "unat (rcv_buff_len c) \<le> 65535" using c(3) by (simp add: unat_le_rcv)
  have b: "\<not> s_end sub < a + unat final" "\<not> 65535 < unat (rcv_buff_len c) + unat final"
    using sub(2) upd(2) l by (auto simp: min_def)
  have z: "0 < final \<longleftrightarrow> rcv_contents c' \<noteq> rcv_contents c"
  proof -
    have "rcv_contents c' = rcv_contents c \<longleftrightarrow> unat final = 0"
      unfolding c' rcv_store_contents(1) [OF c(3)] upd(2) by (auto simp: min_def)
    then show ?thesis by (simp add: word_gt_0 unat_eq_zero)
  qed
  let ?w = "w\<lparr>tcbs := (tcbs w)(p \<mapsto> c')\<rparr>"
  have u: "\<not> send_locked c'" using c by (simp add: c')
  have t: "tcp_tx_ctl p TCP_ACK RETRIES_SENDONCE ?w = Inr (tx_world p c' [] TCP_ACK 0 RETRIES_SENDONCE ?w)"
    using u o by (intro tcp_tx_ctl_ok) simp_all
  have e: "c'\<lparr>snd_nxt := snd_nxt c'\<rparr> = c'" by simp
  show ?thesis
    unfolding save_data_and_ack_def Let_def
    using c b z upd(1) [of "s_head sub" a] t e
    by (simp add: sub(1) final_def [symmetric] c' [symmetric] data_ack_def)
      (simp add: tx_world_def signal_def)
qed

lemma read_bytes_copy_ok:
  assumes c: "tcbs w p = Some c" "rcv_ok c"
  shows "read_bytes_copy p n w =
    Inr (fst (rcv_fetch n c), w\<lparr>tcbs := (tcbs w)(p \<mapsto> (snd (rcv_fetch n c))\<lparr>tcb_locked := False\<rparr>)\<rparr>)"
proof -
  have m: "min (if rcv_buff_len c < n then rcv_buff_len c else n) (rcv_buff_len c) = min n (rcv_buff_len c)"
    by (auto simp: min_def)
  have "\<not> TCP_RCV_MAX < rcv_buff_len c" using c(2) by (simp add: rcv_ok_def not_less)
  then show ?thesis
    unfolding read_bytes_copy_def Let_def the_tcb_Some [OF c(1)] bindo_simps m
    by (simp add: c(1) rcv_fetch_def Let_def)
qed

lemma rcv_fetch_simps [simp]:
  "c_state (snd (rcv_fetch n c)) = c_state c" "send_locked (snd (rcv_fetch n c)) = send_locked c"
  "tcb_locked (snd (rcv_fetch n c)) = tcb_locked c" "rcv_nxt (snd (rcv_fetch n c)) = rcv_nxt c"
  "snd_una (snd (rcv_fetch n c)) = snd_una c" "snd_nxt (snd (rcv_fetch n c)) = snd_nxt c"
  by (simp_all add: rcv_fetch_def Let_def)

text \<open>Locks are no part of the buffer.\<close>

lemma rcv_locks [simp]:
  "rcv_contents (c\<lparr>tcb_locked := b\<rparr>) = rcv_contents c" "rcv_ok (c\<lparr>tcb_locked := b\<rparr>) = rcv_ok c"
  "rcv_contents (c\<lparr>send_locked := b\<rparr>) = rcv_contents c" "rcv_ok (c\<lparr>send_locked := b\<rparr>) = rcv_ok c"
  by (simp_all add: rcv_contents_def rcv_ok_def)

section \<open>Segments of an established connection\<close>

definition new_ack :: "tcb \<Rightarrow> mem \<Rightarrow> bool" where
  "new_ack c m \<longleftrightarrow> snd_una c < th_ack m \<and> th_ack m \<le> snd_nxt c"

definition est_ack :: "mem \<Rightarrow> tcb \<Rightarrow> tcb" where
  "est_ack m c = (if new_ack c m then c\<lparr>snd_una := th_ack m\<rparr> else c)"

definition keep_msgs :: "nat \<Rightarrow> mem \<Rightarrow> tcb \<Rightarrow> tcp_message list \<Rightarrow> tcp_message list" where
  "keep_msgs p m c es = (if new_ack c m then filter (\<lambda>e. \<not> acked p (est_ack m c) e) es else es)"

lemma keep_msgs_subset: "set (keep_msgs p m c es) \<subseteq> set es"
  by (auto simp: keep_msgs_def)

lemma switch_established:
  assumes c: "tcbs w p = Some c" "c_state c = TCP_ESTABLISHED"
    and e: "new_ack c m \<Longrightarrow> \<forall>e \<in> set (messages_array w). whole p (est_ack m c) e"
  shows "\<exists>w'. tcp_rx_switch p m w = Inr (True, w')
    \<and> tcbs w' = (tcbs w)(p \<mapsto> (est_ack m c)\<lparr>snd_wnd := ucast (th_window m), send_locked := False\<rparr>)
    \<and> messages_array w' = keep_msgs p m c (messages_array w) \<and> oom w' = oom w
    \<and> anp_sockets_cache w' = anp_sockets_cache w \<and> signals w' = signals w @ [Send_cond p]"
proof (cases "new_ack c m")
  case True
  let ?w = "w\<lparr>tcbs := (tcbs w)(p \<mapsto> est_ack m c)\<rparr>"
  have s: "stop_retransmit p ?w = Inr (release_msgs (length (filter (acked p (est_ack m c)) (messages_array w)))
      (?w\<lparr>messages_array := filter (\<lambda>e. \<not> acked p (est_ack m c) e) (messages_array w)\<rparr>))"
    using stop_retransmit_whole [of ?w p "est_ack m c"] e [OF True] by simp
  have u: "c\<lparr>snd_una := th_ack m\<rparr> = est_ack m c" using True by (simp add: est_ack_def)
  have n: "snd_una c < th_ack m" "th_ack m \<le> snd_nxt c" using True by (simp_all add: new_ack_def)
  show ?thesis
    unfolding tcp_rx_switch_def Let_def using c s n True
    by (simp add: u keep_msgs_def) (simp add: release_msgs_def signal_def)
next
  case False
  then show ?thesis
    unfolding tcp_rx_switch_def Let_def using c by (simp add: new_ack_def [symmetric] est_ack_def keep_msgs_def signal_def)
qed

lemma est_ack_simps [simp]:
  "c_state (est_ack m c) = c_state c" "rcv_nxt (est_ack m c) = rcv_nxt c" "rcv_ok (est_ack m c) = rcv_ok c"
  "rcv_contents (est_ack m c) = rcv_contents c" "snd_nxt (est_ack m c) = snd_nxt c" "tcb_locked (est_ack m c) = tcb_locked c"
  by (simp_all add: est_ack_def rcv_ok_def rcv_contents_def)

text \<open>The bytes of the segment that the receive buffer takes.\<close>

definition accepted :: "tcb \<Rightarrow> mem \<Rightarrow> u32 \<Rightarrow> u8 list" where
  "accepted c m segment_len =
     (if th_seq m = rcv_nxt c then take (65535 - length (rcv_contents c)) (get_bytes m 54 (unat segment_len)) else [])"

lemma accepted_0 [simp]: "accepted c m 0 = []"
  by (simp add: accepted_def)

definition est_after :: "tcb \<Rightarrow> mem \<Rightarrow> u32 \<Rightarrow> tcb \<Rightarrow> bool" where
  "est_after c m segment_len c' \<longleftrightarrow>
     c_state c' = TCP_ESTABLISHED \<and> \<not> tcb_locked c' \<and> \<not> send_locked c' \<and> rcv_ok c'
   \<and> snd_una c' = snd_una (est_ack m c) \<and> snd_nxt c' = snd_nxt c \<and> snd_wnd c' = ucast (th_window m)
   \<and> rcv_contents c' = rcv_contents c @ accepted c m segment_len
   \<and> rcv_nxt c' = rcv_nxt c + word_of_nat (length (accepted c m segment_len))"

text \<open>The reader of the connection is woken by data in order that is pushed or fills the receive buffer.\<close>

definition wakes_reader :: "tcb \<Rightarrow> mem \<Rightarrow> u32 \<Rightarrow> bool" where
  "wakes_reader c m segment_len \<longleftrightarrow> segment_len \<noteq> 0 \<and> th_seq m = rcv_nxt c
     \<and> (th_flags m AND TCP_PSH \<noteq> 0 \<or> length (rcv_contents c @ accepted c m segment_len) = 65535)"

lemma text_established:
  assumes c: "tcbs w p = Some c" "c_state c = TCP_ESTABLISHED" "\<not> send_locked c" "rcv_ok c" and o: "\<not> oom w"
    and f: "th_flags (s_head sub) AND TCP_FIN = 0" and s: "54 + unat segment_len \<le> s_end sub"
  shows "\<exists>w' c'. tcp_rx_text p sub segment_len w = Inr w' \<and> tcbs w' = (tcbs w)(p \<mapsto> c')
    \<and> c_state c' = TCP_ESTABLISHED \<and> \<not> tcb_locked c' \<and> \<not> send_locked c' \<and> rcv_ok c'
    \<and> snd_una c' = snd_una c \<and> snd_nxt c' = snd_nxt c \<and> snd_wnd c' = snd_wnd c
    \<and> rcv_contents c' = rcv_contents c @ accepted c (s_head sub) segment_len
    \<and> rcv_nxt c' = rcv_nxt c + word_of_nat (length (accepted c (s_head sub) segment_len))
    \<and> (\<exists>acks. messages_array w' = messages_array w @ acks \<and> set acks \<subseteq> {data_ack p c1 |c1. True})
    \<and> oom w' = oom w \<and> anp_sockets_cache w' = anp_sockets_cache w
    \<and> signals w' = signals w @ (if wakes_reader c (s_head sub) segment_len then [Tcb_cond p] else [])"
proof (cases "segment_len \<noteq> 0 \<and> th_seq (s_head sub) = rcv_nxt c")
  case True
  let ?sub = "sub\<lparr>s_dlen := segment_len, s_payload := Some 54\<rparr>"
  let ?c = "rcv_store (get_bytes (s_head sub) 54 (unat segment_len)) c"
  obtain w1 where w1: "save_data_and_ack p ?sub w = Inr w1" "tcbs w1 = (tcbs w)(p \<mapsto> ?c)" "oom w1 = oom w"
      "anp_sockets_cache w1 = anp_sockets_cache w"
      "messages_array w1 = messages_array w @ (if rcv_contents ?c = rcv_contents c then [] else [data_ack p ?c])"
      "signals w1 = signals w @ (if rcv_buff_len ?c = TCP_RCV_MAX \<or> s_head sub 47 AND TCP_PSH \<noteq> 0 then [Tcb_cond p] else [])"
    using save_data_and_ack_ok [OF c(1,3,4) o, of ?sub 54 ?c] s by auto
  have a: "accepted c (s_head sub) segment_len = take (65535 - length (rcv_contents c)) (get_bytes (s_head sub) 54 (unat segment_len))"
    using True by (simp add: accepted_def)
  note st = rcv_store_contents [OF c(4), of "get_bytes (s_head sub) 54 (unat segment_len)"]
  have "tcp_rx_text p sub segment_len w =
      Inr (w1\<lparr>uaf := uaf w1 + 1, tcbs := (tcbs w1)(p \<mapsto> ?c\<lparr>tcb_locked := False\<rparr>)\<rparr>)"
    using True c w1 f by (simp add: tcp_rx_text_def tcp_rx_fin_def)
  moreover have "length (accepted c (s_head sub) segment_len) = min (unat segment_len) (65535 - length (rcv_contents c))"
    by (simp add: a min.commute)
  moreover have "rcv_buff_len ?c = TCP_RCV_MAX \<longleftrightarrow> length (rcv_contents c @ accepted c (s_head sub) segment_len) = 65535"
    unfolding a st(1) [symmetric] by (simp add: word_unat_eq_iff)
  then have "signals w1 = signals w @ (if wakes_reader c (s_head sub) segment_len then [Tcb_cond p] else [])"
    using True unfolding w1(6) wakes_reader_def by auto
  ultimately show ?thesis
    using st c w1(1-5) by (auto simp: a)
next
  case False
  then have a: "accepted c (s_head sub) segment_len = []" by (auto simp: accepted_def)
  show ?thesis
    using False c f by (cases "segment_len = 0") (auto simp: tcp_rx_text_def tcp_rx_fin_def drop_pkt_def a wakes_reader_def)
qed

text \<open>\<open>tcp_rx\<close> from the lookup of the control block on.\<close>

definition rx_segment :: "nat \<Rightarrow> subuff \<Rightarrow> u32 \<Rightarrow> 'a tcp_state_scheme \<Rightarrow> 'a tcp_state_scheme outcome" where
  "rx_segment p sub segment_len w =
     bindo (lock_tcb p w) (\<lambda>w. bindo (lock_send p w) (\<lambda>w. tcp_rx_locked p sub segment_len w))"

lemma whole_locks [simp]:
  "whole p (c\<lparr>tcb_locked := b\<rparr>) e = whole p c e" "whole p (c\<lparr>send_locked := b\<rparr>) e = whole p c e"
  by (simp_all add: whole_def)

lemma est_ack_locks:
  "est_ack m (c\<lparr>tcb_locked := a, send_locked := b\<rparr>) = (est_ack m c)\<lparr>tcb_locked := a, send_locked := b\<rparr>"
  "keep_msgs p m (c\<lparr>tcb_locked := a, send_locked := b\<rparr>) es = keep_msgs p m c es"
  "new_ack (c\<lparr>tcb_locked := a, send_locked := b\<rparr>) m = new_ack c m"
  by (simp_all add: est_ack_def new_ack_def keep_msgs_def acked_def)

lemma rx_established:
  assumes c: "tcbs w p = Some c" "c_state c = TCP_ESTABLISHED" "\<not> tcb_locked c" "\<not> send_locked c" "rcv_ok c"
    and o: "\<not> oom w"
    and f: "th_flags (s_head sub) AND TCP_ACK \<noteq> 0" "th_flags (s_head sub) AND TCP_FIN = 0"
    and s: "54 + unat segment_len \<le> s_end sub"
    and e: "new_ack c (s_head sub) \<Longrightarrow> \<forall>e \<in> set (messages_array w). whole p (est_ack (s_head sub) c) e"
  shows "\<exists>w' c'. rx_segment p sub segment_len w = Inr w' \<and> tcbs w' = (tcbs w)(p \<mapsto> c') \<and> est_after c (s_head sub) segment_len c'
    \<and> (\<exists>acks. messages_array w' = keep_msgs p (s_head sub) c (messages_array w) @ acks \<and> set acks \<subseteq> {data_ack p c1 |c1. True})
    \<and> oom w' = oom w \<and> anp_sockets_cache w' = anp_sockets_cache w
    \<and> signals w' = signals w @ Send_cond p # (if wakes_reader c (s_head sub) segment_len then [Tcb_cond p] else [])"
proof -
  let ?m = "s_head sub" and ?c = "c\<lparr>tcb_locked := True, send_locked := True\<rparr>"
  let ?w = "w\<lparr>tcbs := (tcbs w)(p \<mapsto> ?c)\<rparr>"
  let ?c1 = "(est_ack ?m ?c)\<lparr>snd_wnd := ucast (th_window ?m), send_locked := False\<rparr>"
  have l: "rx_segment p sub segment_len w = tcp_rx_locked p sub segment_len ?w"
    using c by (simp add: rx_segment_def)
  obtain w1 where w1: "tcp_rx_switch p ?m ?w = Inr (True, w1)" "tcbs w1 = (tcbs w)(p \<mapsto> ?c1)"
      "messages_array w1 = keep_msgs p ?m c (messages_array w)" "oom w1 = oom w" "anp_sockets_cache w1 = anp_sockets_cache w"
      "signals w1 = signals w @ [Send_cond p]"
    using switch_established [of ?w p ?c ?m] c e by (auto simp: est_ack_locks)
  have r: "rcv_ok ?c1" "rcv_contents ?c1 = rcv_contents c" "accepted ?c1 ?m segment_len = accepted c ?m segment_len"
      "wakes_reader ?c1 ?m segment_len = wakes_reader c ?m segment_len"
    using c(5) by (simp_all add: rcv_ok_def rcv_contents_def accepted_def est_ack_def wakes_reader_def)
  have t: "tcp_rx_locked p sub segment_len ?w = tcp_rx_text p sub segment_len w1"
    using c f w1(1) by (simp add: tcp_rx_locked_def)
  obtain w' c' where w': "tcp_rx_text p sub segment_len w1 = Inr w'" "tcbs w' = (tcbs w)(p \<mapsto> c')"
      "c_state c' = TCP_ESTABLISHED" "\<not> tcb_locked c'" "\<not> send_locked c'" "rcv_ok c'"
      "snd_una c' = snd_una ?c1" "snd_nxt c' = snd_nxt ?c1" "snd_wnd c' = snd_wnd ?c1"
      "rcv_contents c' = rcv_contents c @ accepted c ?m segment_len"
      "rcv_nxt c' = rcv_nxt ?c1 + word_of_nat (length (accepted c ?m segment_len))"
      "\<exists>acks. messages_array w' = messages_array w1 @ acks \<and> set acks \<subseteq> {data_ack p c1 |c1. True}"
      "oom w' = oom w1" "anp_sockets_cache w' = anp_sockets_cache w1"
      "signals w' = signals w1 @ (if wakes_reader c ?m segment_len then [Tcb_cond p] else [])"
    using text_established [of w1 p ?c1 sub segment_len] w1(2,4) c(2) r o f(2) s by auto
  have "est_after c ?m segment_len c'"
    unfolding est_after_def using w' by (simp add: est_ack_locks)
  then show ?thesis using l t w' w1 by auto
qed

section \<open>The stream\<close>

text \<open>What happens to a connection while it receives: segments arrive, the application reads. The bytes read, in
  order, are the result; a read that has to wait reads nothing.\<close>

datatype rx_event = Segment subuff u32 | Read u32

fun rx_run :: "nat \<Rightarrow> rx_event list \<Rightarrow> 'a tcp_state_scheme \<Rightarrow> (u8 list \<times> 'a tcp_state_scheme) outcome" where
  "rx_run p [] w = Inr ([], w)"
| "rx_run p (Segment sub segment_len # evs) w = bindo (rx_segment p sub segment_len w) (rx_run p evs)"
| "rx_run p (Read n # evs) w =
     bindo (read_bytes p n w) (\<lambda>(r, w). bindo (rx_run p evs w) (\<lambda>(got, w).
       Inr ((case r of Bytes bs \<Rightarrow> bs | Read_waiting \<Rightarrow> []) @ got, w)))"

text \<open>A data segment of the peer: any piece of its stream \<open>S\<close>, which starts at sequence number \<open>s0\<close>.\<close>

definition piece :: "u8 list \<Rightarrow> u32 \<Rightarrow> subuff \<Rightarrow> u32 \<Rightarrow> bool" where
  "piece S s0 sub segment_len \<longleftrightarrow>
     th_flags (s_head sub) AND TCP_ACK \<noteq> 0 \<and> th_flags (s_head sub) AND TCP_FIN = 0
   \<and> 54 + unat segment_len \<le> s_end sub
   \<and> (\<exists>off. off + unat segment_len \<le> length S \<and> th_seq (s_head sub) = s0 + word_of_nat off
        \<and> get_bytes (s_head sub) 54 (unat segment_len) = take (unat segment_len) (drop off S))"

text \<open>No acknowledgement in the segment ends inside a message of the connection that is still queued.\<close>

definition clean_ack :: "nat \<Rightarrow> subuff \<Rightarrow> tcp_message \<Rightarrow> bool" where
  "clean_ack p sub e \<longleftrightarrow> (m_tcb e = p \<longrightarrow> m_tcp_ptr e = Some 34
     \<and> (msg_seq e < th_ack (s_head sub) \<longrightarrow> msg_seq e + m_tcp_data_len e \<le> th_ack (s_head sub)))"

definition peer_event :: "u8 list \<Rightarrow> u32 \<Rightarrow> nat \<Rightarrow> tcp_message list \<Rightarrow> rx_event \<Rightarrow> bool" where
  "peer_event S s0 p es ev \<longleftrightarrow>
     (case ev of Segment sub n \<Rightarrow> piece S s0 sub n \<and> (\<forall>e \<in> set es. clean_ack p sub e) | Read n \<Rightarrow> True)"

definition in_stream :: "u8 list \<Rightarrow> u32 \<Rightarrow> nat \<Rightarrow> u8 list \<Rightarrow> tcb \<Rightarrow> bool" where
  "in_stream S s0 k got c \<longleftrightarrow>
     c_state c = TCP_ESTABLISHED \<and> \<not> tcb_locked c \<and> \<not> send_locked c \<and> rcv_ok c
   \<and> k \<le> length S \<and> got @ rcv_contents c = take k S \<and> rcv_nxt c = s0 + word_of_nat k"

lemma offset_unique:
  assumes "s0 + word_of_nat a = (s0 + word_of_nat b :: u32)" and "a < 4294967296" and "b < 4294967296"
  shows "a = b"
proof -
  have "(word_of_nat a :: u32) = word_of_nat b" using assms(1) by (simp only: add_left_cancel)
  then show ?thesis using assms(2,3) by (simp add: word_unat_eq_iff unat_of_nat)
qed

lemma accepted_in_stream:
  assumes i: "in_stream S s0 k got c" and p: "piece S s0 sub n" and l: "length S < 4294967296"
    and a: "est_after c (s_head sub) n c'"
  shows "in_stream S s0 (k + length (accepted c (s_head sub) n)) got c'"
proof -
  let ?a = "accepted c (s_head sub) n"
  have "?a = take (length ?a) (drop k S) \<and> k + length ?a \<le> length S"
  proof (cases "th_seq (s_head sub) = rcv_nxt c")
    case True
    obtain off where off: "off + unat n \<le> length S" "th_seq (s_head sub) = s0 + word_of_nat off"
        "get_bytes (s_head sub) 54 (unat n) = take (unat n) (drop off S)"
      using p unfolding piece_def by blast
    have "s0 + word_of_nat off = s0 + word_of_nat k" using True off(2) i unfolding in_stream_def by simp
    then have k: "off = k" using l off(1) i by (intro offset_unique [of s0]) (auto simp: in_stream_def)
    have "?a = take (min (65535 - length (rcv_contents c)) (unat n)) (drop k S)"
      using True off(3) k by (simp add: accepted_def)
    then show ?thesis using off(1) k by (auto simp: min_def)
  next
    case False
    then show ?thesis using i by (simp add: accepted_def in_stream_def)
  qed
  then have s: "take k S @ ?a = take (k + length ?a) S" "k + length ?a \<le> length S" by (auto simp: take_add)
  have "got @ rcv_contents c @ ?a = take k S @ ?a" using i by (simp add: in_stream_def flip: append_assoc)
  then show ?thesis
    using i a s unfolding in_stream_def est_after_def by (simp add: add.assoc)
qed

lemma data_ack_clean: "clean_ack p sub (data_ack p c)"
  by (simp add: clean_ack_def data_ack_def tx_msg_fields) (simp add: tx_msg_def tcp_sub_simps order_less_imp_le)

lemma peer_event_mono:
  "peer_event S s0 p es ev \<Longrightarrow> set es' \<subseteq> set es \<union> {data_ack p c1 |c1. True} \<Longrightarrow> peer_event S s0 p es' ev"
  using data_ack_clean unfolding peer_event_def by (cases ev) fastforce+

lemma clean_ack_whole: "clean_ack p sub e \<Longrightarrow> new_ack c (s_head sub) \<Longrightarrow> whole p (est_ack (s_head sub) c) e"
  by (auto simp: clean_ack_def whole_def est_ack_def)

lemma read_in_stream:
  assumes i: "in_stream S s0 k got c" and c: "tcbs w p = Some c"
  shows "\<exists>r w' c'. read_bytes p n w = Inr (r, w') \<and> tcbs w' = (tcbs w)(p \<mapsto> c') \<and> oom w' = oom w
    \<and> messages_array w' = messages_array w
    \<and> in_stream S s0 k (got @ (case r of Bytes bs \<Rightarrow> bs | Read_waiting \<Rightarrow> [])) c'"
proof (cases "rcv_buff_len c = 0")
  case True
  then show ?thesis using i c by (auto simp: read_bytes_def in_stream_def)
next
  case False
  let ?c = "c\<lparr>tcb_locked := True\<rparr>"
  have ok: "rcv_ok ?c" using i by (simp add: in_stream_def)
  have r: "read_bytes p n w = Inr (Bytes (fst (rcv_fetch n ?c)),
      w\<lparr>tcbs := (tcbs w)(p \<mapsto> (snd (rcv_fetch n ?c))\<lparr>tcb_locked := False\<rparr>)\<rparr>)"
    using i c False read_bytes_copy_ok [of "w\<lparr>tcbs := (tcbs w)(p \<mapsto> ?c)\<rparr>" p ?c n] ok
    by (simp add: read_bytes_def in_stream_def)
  have "rcv_contents c = fst (rcv_fetch n ?c) @ rcv_contents (snd (rcv_fetch n ?c))" "rcv_ok (snd (rcv_fetch n ?c))"
    using rcv_fifo.fetch_contents [OF ok, of n] rcv_fifo.fetch_invar [OF ok, of n] by simp_all
  then show ?thesis
    using i r by (intro exI [of _ "Bytes (fst (rcv_fetch n ?c))"] exI
      [of _ "w\<lparr>tcbs := (tcbs w)(p \<mapsto> (snd (rcv_fetch n ?c))\<lparr>tcb_locked := False\<rparr>)\<rparr>"]
      exI [of _ "(snd (rcv_fetch n ?c))\<lparr>tcb_locked := False\<rparr>"]) (simp add: in_stream_def)
qed

lemma segment_in_stream:
  assumes "tcbs w p = Some c" and "in_stream S s0 k got c" and "\<not> oom w" and "length S < 4294967296"
    and "piece S s0 sub n" and "\<forall>e \<in> set (messages_array w). clean_ack p sub e"
  shows "\<exists>w1 c1. rx_segment p sub n w = Inr w1 \<and> tcbs w1 = (tcbs w)(p \<mapsto> c1) \<and> oom w1 = oom w
    \<and> set (messages_array w1) \<subseteq> set (messages_array w) \<union> {data_ack p c1 |c1. True}
    \<and> in_stream S s0 (k + length (accepted c (s_head sub) n)) got c1"
proof -
  have st: "c_state c = TCP_ESTABLISHED" "\<not> tcb_locked c" "\<not> send_locked c" "rcv_ok c"
    using assms(2) by (simp_all add: in_stream_def)
  have fl: "th_flags (s_head sub) AND TCP_ACK \<noteq> 0" "th_flags (s_head sub) AND TCP_FIN = 0" "54 + unat n \<le> s_end sub"
    using assms(5) by (simp_all add: piece_def)
  obtain w1 c1 acks where w1: "rx_segment p sub n w = Inr w1" "tcbs w1 = (tcbs w)(p \<mapsto> c1)" "est_after c (s_head sub) n c1"
      "messages_array w1 = keep_msgs p (s_head sub) c (messages_array w) @ acks" "set acks \<subseteq> {data_ack p c1 |c1. True}" "oom w1 = oom w"
    using rx_established [OF assms(1) st assms(3) fl] assms(6) clean_ack_whole by blast
  have "set (messages_array w1) \<subseteq> set (messages_array w) \<union> {data_ack p c1 |c1. True}"
    using w1(5) keep_msgs_subset [of p "s_head sub" c "messages_array w"] unfolding w1(4) set_append by blast
  then show ?thesis using w1(1,2,6) accepted_in_stream [OF assms(2,5,4) w1(3)] by blast
qed

lemma rx_run_stream:
  assumes "tcbs w p = Some c" and "in_stream S s0 k got c" and "\<not> oom w" and "length S < 4294967296"
    and "\<forall>ev \<in> set evs. peer_event S s0 p (messages_array w) ev"
  shows "\<exists>more w' k' c'. rx_run p evs w = Inr (more, w') \<and> tcbs w' p = Some c' \<and> k \<le> k' \<and> in_stream S s0 k' (got @ more) c'"
  using assms
proof (induction evs arbitrary: w c k got)
  case Nil
  then show ?case by auto
next
  case (Cons ev evs)
  show ?case
  proof (cases ev)
    case (Segment sub n)
    have ev: "piece S s0 sub n" "\<forall>e \<in> set (messages_array w). clean_ack p sub e"
      using Cons.prems(5) Segment by (simp_all add: peer_event_def)
    obtain w1 c1 where w1: "rx_segment p sub n w = Inr w1" "tcbs w1 = (tcbs w)(p \<mapsto> c1)" "oom w1 = oom w"
        "set (messages_array w1) \<subseteq> set (messages_array w) \<union> {data_ack p c1 |c1. True}"
        "in_stream S s0 (k + length (accepted c (s_head sub) n)) got c1"
      using segment_in_stream [OF Cons.prems(1-4) ev] by blast
    have "peer_event S s0 p (messages_array w1) ev'" if "ev' \<in> set evs" for ev'
      by (rule peer_event_mono [OF _ w1(4)]) (use that Cons.prems(5) in \<open>simp only: list.set_intros\<close>)
    then obtain more w' k' c' where "rx_run p evs w1 = Inr (more, w')" "tcbs w' p = Some c'"
        "k + length (accepted c (s_head sub) n) \<le> k'" "in_stream S s0 k' (got @ more) c'"
      using Cons.IH [of w1 c1 "k + length (accepted c (s_head sub) n)" got] w1(2,3,5) Cons.prems(3,4) by auto
    then show ?thesis using Segment w1(1) by (auto intro!: exI [of _ k'])
  next
    case (Read n)
    obtain r w1 c1 where w1: "read_bytes p n w = Inr (r, w1)" "tcbs w1 = (tcbs w)(p \<mapsto> c1)" "oom w1 = oom w"
        "messages_array w1 = messages_array w" "in_stream S s0 k (got @ (case r of Bytes bs \<Rightarrow> bs | Read_waiting \<Rightarrow> [])) c1"
      using read_in_stream [OF Cons.prems(2,1), of n] by blast
    then obtain more w' k' c' where "rx_run p evs w1 = Inr (more, w')" "tcbs w' p = Some c'" "k \<le> k'"
        "in_stream S s0 k' ((got @ (case r of Bytes bs \<Rightarrow> bs | Read_waiting \<Rightarrow> [])) @ more) c'"
      using Cons.IH [of w1 c1 k "got @ (case r of Bytes bs \<Rightarrow> bs | Read_waiting \<Rightarrow> [])"] Cons.prems(3-5) by auto
    then show ?thesis using Read w1(1) by (auto intro!: exI [of _ k'])
  qed
qed

text \<open>C1. Whatever pieces of the peer's stream arrive, in whatever order, however often and with whatever losses, and
  however the application's reads fall between them: no step fails, and the bytes the application has
  read, followed by those waiting in the buffer, are a prefix of the peer's stream, up to the byte that
  \<open>rcv_nxt\<close> asks for next.\<close>

theorem established_stream:
  assumes "tcbs w p = Some c" and "c_state c = TCP_ESTABLISHED" and "\<not> tcb_locked c" and "\<not> send_locked c"
    and "rcv_buff_len c = 0" and "\<not> oom w" and "length S < 2 ^ 32"
    and "\<forall>ev \<in> set evs. peer_event S (rcv_nxt c) p (messages_array w) ev"
  shows "\<exists>got w' c' k. rx_run p evs w = Inr (got, w') \<and> tcbs w' p = Some c' \<and> k \<le> length S
    \<and> got @ rcv_contents c' = take k S \<and> rcv_nxt c' = rcv_nxt c + word_of_nat k"
proof -
  have "in_stream S (rcv_nxt c) 0 [] c"
    using assms(2-5) by (simp add: in_stream_def rcv_ok_def rcv_contents_def)
  then obtain got w' k c' where "rx_run p evs w = Inr (got, w')" "tcbs w' p = Some c'" "in_stream S (rcv_nxt c) k ([] @ got) c'"
    using rx_run_stream [OF assms(1) _ assms(6), of S "rcv_nxt c" 0 "[]" evs] assms(7,8) by auto
  then show ?thesis by (auto simp: in_stream_def)
qed

text \<open>Two bytes at sequence number 500, twice, and a read.\<close>

definition sample_data_sub :: subuff where
  "sample_data_sub = rx_sub 1522 (replicate 38 0 @ [0xf4, 1, 0, 0, 0xe8, 3, 0, 0, 0x50, 0x10, 0xff, 0xff, 0, 0, 0, 0, 7, 8])"

lemma sample_data_bytes:
  "th_seq (s_head sample_data_sub) = 500" "th_ack (s_head sample_data_sub) = 1000"
  "th_flags (s_head sample_data_sub) = 0x10" "get_bytes (s_head sample_data_sub) 54 2 = [7, 8]" "s_end sample_data_sub = 1522"
  by (simp_all add: sample_data_sub_def rx_sub_def put_bytes_def get_bytes_def get32_def le32_def nth_append)

theorem established_stream_witness:
  "\<exists>got w' c' k. rx_run 0 [Segment sample_data_sub 2, Segment sample_data_sub 2, Read 1] (sample_tcp sample_tcb []) = Inr (got, w')
     \<and> tcbs w' 0 = Some c' \<and> got @ rcv_contents c' = take k [7, 8] \<and> rcv_nxt c' = 500 + word_of_nat k"
proof -
  have "piece [7, 8] 500 sample_data_sub 2"
    by (simp add: piece_def sample_data_bytes)
  then have "\<forall>ev \<in> set [Segment sample_data_sub 2, Segment sample_data_sub 2, Read 1].
      peer_event [7, 8] (rcv_nxt sample_tcb) 0 (messages_array (sample_tcp sample_tcb [])) ev"
    by (simp add: peer_event_def)
  then show ?thesis
    using established_stream [of "sample_tcp sample_tcb []" 0 sample_tcb "[7, 8]"
        "[Segment sample_data_sub 2, Segment sample_data_sub 2, Read 1]"]
    unfolding sample_tcp_simps sample_tcb_simps by fastforce
qed

section \<open>Waking the application\<close>

text \<open>C21. Who is woken by a segment on an established connection: always a thread that waits to send, and a thread that waits to receive if and only if the segment carries the next data in order
  and is pushed or fills the receive buffer. Data without the PSH flag is stored and acknowledged, and the reader sleeps on.\<close>

theorem segment_wakes:
  assumes "tcbs w p = Some c" and "c_state c = TCP_ESTABLISHED" and "\<not> tcb_locked c" and "\<not> send_locked c" and "rcv_ok c" and "\<not> oom w"
    and "th_flags (s_head sub) AND TCP_ACK \<noteq> 0" and "th_flags (s_head sub) AND TCP_FIN = 0" and "54 + unat segment_len \<le> s_end sub"
    and "\<forall>e \<in> set (messages_array w). clean_ack p sub e"
  shows "\<exists>w' c'. rx_segment p sub segment_len w = Inr w' \<and> tcbs w' p = Some c'
    \<and> rcv_contents c' = rcv_contents c @ accepted c (s_head sub) segment_len
    \<and> signals w' = signals w @ Send_cond p #
        (if segment_len \<noteq> 0 \<and> th_seq (s_head sub) = rcv_nxt c \<and> (th_flags (s_head sub) AND TCP_PSH \<noteq> 0 \<or> length (rcv_contents c') = 65535)
         then [Tcb_cond p] else [])"
proof -
  obtain w' c' where r: "rx_segment p sub segment_len w = Inr w'" "tcbs w' = (tcbs w)(p \<mapsto> c')" "est_after c (s_head sub) segment_len c'"
      "signals w' = signals w @ Send_cond p # (if wakes_reader c (s_head sub) segment_len then [Tcb_cond p] else [])"
    using rx_established [OF assms(1-9)] assms(10) clean_ack_whole by blast
  moreover have "rcv_contents c' = rcv_contents c @ accepted c (s_head sub) segment_len" using r(3) by (simp only: est_after_def)
  ultimately show ?thesis
    by (intro exI [of _ w'] exI [of _ c']) (simp only: wakes_reader_def fun_upd_same simp_thms)
qed

text \<open>Two bytes without PSH: they are in the buffer, and only the sender is woken.\<close>

theorem segment_wakes_witness:
  "\<exists>w' c'. rx_segment 0 sample_data_sub 2 (sample_tcp sample_tcb []) = Inr w' \<and> tcbs w' 0 = Some c' \<and> rcv_contents c' = [7, 8]
     \<and> signals w' = [Send_cond 0]"
proof -
  have r: "rcv_ok sample_tcb" "rcv_contents sample_tcb = []" by (simp_all add: rcv_ok_def rcv_contents_def)
  then have "accepted sample_tcb (s_head sample_data_sub) 2 = [7, 8]" by (simp add: accepted_def sample_data_bytes)
  then show ?thesis
    using segment_wakes [of "sample_tcp sample_tcb []" 0 sample_tcb sample_data_sub 2] r
    by (auto simp: sample_data_bytes simp del: length_rcv_contents)
qed

end
