(* ===== verification/Evolve.thy ===== *)
theory Evolve
  imports Stack_Rx Tcp_Recv
begin

text \<open>
  How the operations of the stack may change the connections. \<open>tcp_edge\<close> is the state diagram that the code
  implements, as a step relation; \<open>conn_le\<close> says that a control block has moved along it, has kept its identity (addresses,
  ports, initial sequence number) and a receive buffer within bounds; \<open>evolves\<close> lifts it to the whole stack. The
  predicate \<open>evo\<close> says that a computation, if it does not fault, lets its state evolve; its rules follow the
  structure of the code and are collected in \<open>evo_rules\<close>. The last section states what an application of \<open>tcp_rx\<close>
  can do to the connections.
\<close>

section \<open>The state diagram\<close>

inductive tcp_edge :: "tcp_states \<Rightarrow> tcp_states \<Rightarrow> bool" where
  syn_ack: "tcp_edge TCP_SYN_SENT TCP_ESTABLISHED"
| syn: "tcp_edge TCP_SYN_SENT TCP_SYN_RECEIVED"
| ack: "tcp_edge TCP_SYN_RECEIVED TCP_ESTABLISHED"
| close: "tcp_edge TCP_ESTABLISHED TCP_FIN_WAIT_1"
| ack_fin: "tcp_edge TCP_FIN_WAIT_1 TCP_FIN_WAIT_2"
| fin: "tcp_edge TCP_FIN_WAIT_2 TCP_TIME_WAIT"
| timeout: "tcp_edge TCP_TIME_WAIT TCP_CLOSED"

code_pred tcp_edge .

inductive_simps tcp_edge_from [simp]:
  "tcp_edge TCP_LISTEN s" "tcp_edge TCP_SYN_SENT s" "tcp_edge TCP_SYN_RECEIVED s" "tcp_edge TCP_ESTABLISHED s"
  "tcp_edge TCP_FIN_WAIT_1 s" "tcp_edge TCP_FIN_WAIT_2 s" "tcp_edge TCP_CLOSED s" "tcp_edge TCP_CLOSE_WAIT s"
  "tcp_edge TCP_CLOSING s" "tcp_edge TCP_LAST_ACK s" "tcp_edge TCP_TIME_WAIT s"

abbreviation tcp_path :: "tcp_states \<Rightarrow> tcp_states \<Rightarrow> bool" where
  "tcp_path \<equiv> tcp_edge\<^sup>*\<^sup>*"

lemma tcp_edge_path [intro]: "tcp_edge a b \<Longrightarrow> tcp_path a b"
  by (rule r_into_rtranclp)

text \<open>A closed connection stays closed; one that waits for the time-out can only be closed.\<close>

lemma tcp_path_closing:
  assumes "tcp_path a b" and "a = TCP_TIME_WAIT \<or> a = TCP_CLOSED"
  shows "b = TCP_TIME_WAIT \<or> b = TCP_CLOSED"
  using assms by (induction rule: rtranclp_induct) auto

text \<open>The order of the states along the diagram.\<close>

fun phase :: "tcp_states \<Rightarrow> nat" where
  "phase TCP_LISTEN = 0"
| "phase TCP_SYN_SENT = 1"
| "phase TCP_SYN_RECEIVED = 2"
| "phase TCP_ESTABLISHED = 3"
| "phase TCP_FIN_WAIT_1 = 4"
| "phase TCP_FIN_WAIT_2 = 5"
| "phase TCP_TIME_WAIT = 6"
| "phase TCP_CLOSED = 7"
| "phase TCP_CLOSE_WAIT = 8"
| "phase TCP_CLOSING = 9"
| "phase TCP_LAST_ACK = 10"

lemma phase_inject: "phase a = phase b \<longleftrightarrow> a = b"
  by (cases a; cases b) simp_all

instantiation tcp_states :: linorder
begin

definition less_eq_tcp_states :: "tcp_states \<Rightarrow> tcp_states \<Rightarrow> bool" where
  "less_eq_tcp_states a b \<longleftrightarrow> phase a \<le> phase b"

definition less_tcp_states :: "tcp_states \<Rightarrow> tcp_states \<Rightarrow> bool" where
  "less_tcp_states a b \<longleftrightarrow> phase a < phase b"

instance
  by standard (auto simp: less_eq_tcp_states_def less_tcp_states_def phase_inject [symmetric])

end

lemma tcp_edge_less: "tcp_edge a b \<Longrightarrow> a < b"
  by (cases rule: tcp_edge.cases) (auto simp: less_tcp_states_def)

lemma tcp_path_mono: "tcp_path a b \<Longrightarrow> a \<le> b"
  by (induction rule: rtranclp_induct) (auto dest: tcp_edge_less)

lemma tcp_path_antisym: "tcp_path a b \<Longrightarrow> tcp_path b a \<Longrightarrow> a = b"
  by (auto dest!: tcp_path_mono)

definition unused :: "tcp_states \<Rightarrow> bool" where
  "unused s \<longleftrightarrow> s \<in> {TCP_CLOSE_WAIT, TCP_CLOSING, TCP_LAST_ACK}"

lemma tcp_path_unused: "tcp_path a b \<Longrightarrow> unused b \<Longrightarrow> unused a"
  by (induction rule: converse_rtranclp_induct) (auto simp: unused_def elim: tcp_edge.cases)

section \<open>Evolution of connections\<close>

definition conn_le :: "tcb \<Rightarrow> tcb \<Rightarrow> bool" where
  "conn_le c c' \<longleftrightarrow> tcp_path (c_state c) (c_state c') \<and> (rcv_ok c \<longrightarrow> rcv_ok c')
     \<and> local_port c' = local_port c \<and> remote_port c' = remote_port c
     \<and> local_ip c' = local_ip c \<and> remote_ip c' = remote_ip c \<and> iss c' = iss c"

lemma conn_le_refl [simp]: "conn_le c c"
  by (simp add: conn_le_def)

lemma conn_le_trans: "conn_le a b \<Longrightarrow> conn_le b c \<Longrightarrow> conn_le a c"
  by (auto simp: conn_le_def)

lemma conn_le_updates [simp]:
  "conn_le c (c\<lparr>tcb_locked := b\<rparr>)" "conn_le c (c\<lparr>send_locked := b\<rparr>)" "conn_le c (c\<lparr>snd_una := x\<rparr>)"
  "conn_le c (c\<lparr>snd_nxt := x\<rparr>)" "conn_le c (c\<lparr>snd_wnd := x\<rparr>)" "conn_le c (c\<lparr>rcv_nxt := x\<rparr>)" "conn_le c (bump_nxt c f)"
  "conn_le c (c\<lparr>c_state := s\<rparr>) \<longleftrightarrow> tcp_path (c_state c) s"
  by (simp_all add: conn_le_def rcv_ok_def bump_nxt_def)

text \<open>The callbacks that are set or running and will close a connection.\<close>

definition closes :: "'a tcp_state_scheme \<Rightarrow> nat set" where
  "closes w = {p. Close_connection p \<in> t_handler ` set (timers w) \<union> set (spawned w)}"

definition ending :: "'a tcp_state_scheme \<Rightarrow> nat \<Rightarrow> bool" where
  "ending w p \<longleftrightarrow> (\<exists>c. tcbs w p = Some c \<and> (c_state c = TCP_TIME_WAIT \<or> c_state c = TCP_CLOSED))"

definition owners :: "'a tcp_state_scheme \<Rightarrow> nat set" where
  "owners w = m_tcb ` set (messages_array w)"

definition evolves :: "'a tcp_state_scheme \<Rightarrow> 'a tcp_state_scheme \<Rightarrow> bool" where
  "evolves w w' \<longleftrightarrow> anp_sockets_cache w' = anp_sockets_cache w \<and> fd_in_use w' = fd_in_use w \<and> tcb_next w' = tcb_next w
     \<and> (\<forall>p. rel_option conn_le (tcbs w p) (tcbs w' p))
     \<and> owners w' \<subseteq> owners w \<union> dom (tcbs w)
     \<and> closes w' \<subseteq> closes w \<union> {p. ending w' p}"

lemma evolves_refl [simp]: "evolves w w"
  by (simp add: evolves_def rel_option_reflI)

lemma rel_option_dom: "\<forall>p. rel_option R (f p) (g p) \<Longrightarrow> dom g = dom f"
  by (auto simp: dom_def rel_option_iff split: option.splits) (metis not_None_eq)+

lemma ending_mono:
  assumes "\<forall>p. rel_option conn_le (tcbs w p) (tcbs w' p)" and "ending w p"
  shows "ending w' p"
proof -
  obtain c where c: "tcbs w p = Some c" "c_state c = TCP_TIME_WAIT \<or> c_state c = TCP_CLOSED"
    using assms(2) by (auto simp: ending_def)
  then obtain c' where "tcbs w' p = Some c'" "conn_le c c'"
    using assms(1) [THEN spec, of p] by (auto simp: option_rel_Some1)
  then show ?thesis using c(2) tcp_path_closing [of "c_state c" "c_state c'"] by (auto simp: ending_def conn_le_def)
qed

lemma evolves_trans [trans]:
  assumes "evolves a b" and "evolves b c"
  shows "evolves a c"
proof -
  have r: "\<forall>p. rel_option conn_le (tcbs a p) (tcbs b p)" "\<forall>p. rel_option conn_le (tcbs b p) (tcbs c p)"
    using assms by (simp_all add: evolves_def)
  have "rel_option conn_le (tcbs a p) (tcbs c p)" for p
    using r(1) [THEN spec, of p] r(2) [THEN spec, of p] by (auto simp: option_rel_Some1 option_rel_Some2 rel_option_iff
      intro: conn_le_trans split: option.splits)
  moreover have "dom (tcbs b) = dom (tcbs a)" using r(1) by (rule rel_option_dom)
  moreover have "{p. ending b p} \<subseteq> {p. ending c p}" using ending_mono [OF r(2)] by blast
  ultimately show ?thesis using assms unfolding evolves_def by (simp add: subset_iff) blast
qed

section \<open>Computations that let the state evolve\<close>

definition evo :: "('x \<Rightarrow> 'a tcp_state_scheme) \<Rightarrow> 'x outcome \<Rightarrow> 'a tcp_state_scheme \<Rightarrow> bool" where
  "evo st m w \<longleftrightarrow> (\<forall>x. m = Inr x \<longrightarrow> evolves w (st x))"

named_theorems evo_rules \<open>how the constructs of the code let the state evolve\<close>

lemma evoD: "evo st m w \<Longrightarrow> m = Inr x \<Longrightarrow> evolves w (st x)"
  by (simp add: evo_def)

lemma evo_Inl [evo_rules]: "evo st (Inl e) w"
  by (simp add: evo_def)

lemma evo_Inr [evo_rules]: "evolves w (st x) \<Longrightarrow> evo st (Inr x) w"
  by (simp add: evo_def)

lemma evo_bind [evo_rules]:
  "evo (\<lambda>w. w) r w \<Longrightarrow> (\<And>w1. r = Inr w1 \<Longrightarrow> evo st (f w1) w1) \<Longrightarrow> evo st (bindo r f) w"
  by (auto simp: evo_def intro: evolves_trans)

lemma evo_bind_pair [evo_rules]:
  "evo snd r w \<Longrightarrow> (\<And>a w1. r = Inr (a, w1) \<Longrightarrow> evo st (g a w1) w1) \<Longrightarrow> evo st (bindo r (case_prod g)) w"
  by (fastforce simp: evo_def intro: evolves_trans)

lemma evo_the_tcb [evo_rules]:
  "(\<And>c. tcbs w p = Some c \<Longrightarrow> evo st (f c) w) \<Longrightarrow> evo st (bindo (the_tcb p w) f) w"
  by (cases "tcbs w p") (simp_all add: evo_def)

text \<open>Lookups that leave the state alone.\<close>

lemma evo_lookup_tcb [evo_rules]: "(\<And>x. evo st (f x) w) \<Longrightarrow> evo st (bindo (r :: nat option outcome) f) w"
  by (cases r) (simp_all add: evo_def)

lemma evo_lookup_dev [evo_rules]: "(\<And>x. evo st (f x) w) \<Longrightarrow> evo st (bindo (r :: anp_netdev option outcome) f) w"
  by (cases r) (simp_all add: evo_def)

lemma evo_lookup_bool [evo_rules]: "(\<And>x. evo st (f x) w) \<Longrightarrow> evo st (bindo (r :: bool outcome) f) w"
  by (cases r) (simp_all add: evo_def)

lemma evo_if [evo_rules]:
  "(b \<Longrightarrow> evo st x w) \<Longrightarrow> (\<not> b \<Longrightarrow> evo st y w) \<Longrightarrow> evo st (if b then x else y) w"
  by simp

lemma evo_case_option [evo_rules]:
  "(r = None \<Longrightarrow> evo st x w) \<Longrightarrow> (\<And>a. r = Some a \<Longrightarrow> evo st (y a) w) \<Longrightarrow> evo st (case r of None \<Rightarrow> x | Some a \<Rightarrow> y a) w"
  by (simp split: option.split)

lemma evo_case_state [evo_rules]:
  "(s = TCP_LISTEN \<Longrightarrow> evo st a1 w) \<Longrightarrow>
   (s = TCP_SYN_SENT \<Longrightarrow> evo st a2 w) \<Longrightarrow>
   (s = TCP_SYN_RECEIVED \<Longrightarrow> evo st a3 w) \<Longrightarrow>
   (s = TCP_ESTABLISHED \<Longrightarrow> evo st a4 w) \<Longrightarrow>
   (s = TCP_FIN_WAIT_1 \<Longrightarrow> evo st a5 w) \<Longrightarrow>
   (s = TCP_FIN_WAIT_2 \<Longrightarrow> evo st a6 w) \<Longrightarrow>
   (s = TCP_CLOSED \<Longrightarrow> evo st a7 w) \<Longrightarrow>
   (s = TCP_CLOSE_WAIT \<Longrightarrow> evo st a8 w) \<Longrightarrow>
   (s = TCP_CLOSING \<Longrightarrow> evo st a9 w) \<Longrightarrow>
   (s = TCP_LAST_ACK \<Longrightarrow> evo st a10 w) \<Longrightarrow>
   (s = TCP_TIME_WAIT \<Longrightarrow> evo st a11 w) \<Longrightarrow>
   evo st (case s of TCP_LISTEN \<Rightarrow> a1 | TCP_SYN_SENT \<Rightarrow> a2 | TCP_SYN_RECEIVED \<Rightarrow> a3 | TCP_ESTABLISHED \<Rightarrow> a4 | TCP_FIN_WAIT_1 \<Rightarrow> a5 | TCP_FIN_WAIT_2 \<Rightarrow> a6 | TCP_CLOSED \<Rightarrow> a7 | TCP_CLOSE_WAIT \<Rightarrow> a8 | TCP_CLOSING \<Rightarrow> a9 | TCP_LAST_ACK \<Rightarrow> a10 | TCP_TIME_WAIT \<Rightarrow> a11) w"
  by (cases s) simp_all

lemma evo_trans: "evolves w w1 \<Longrightarrow> evo st m w1 \<Longrightarrow> evo st m w"
  by (auto simp: evo_def intro: evolves_trans)

text \<open>Changes outside the connections.\<close>

lemma evolves_other [simp]:
  "evolves w (signal v w)" "evolves w (free_sub s w)" "evolves w (w\<lparr>uaf := n\<rparr>)" "evolves w (w\<lparr>errno := i\<rparr>)"
  "evolves w (w\<lparr>live_subs := a\<rparr>)" "evolves w (w\<lparr>live_subs := a, live_bufs := b\<rparr>)" "evolves w ((free_sub s w)\<lparr>uaf := n\<rparr>)"
  "evolves w (w\<lparr>arp_cache := ca\<rparr>)" "evolves w (w\<lparr>tap_out := fr\<rparr>)" "evolves w (free_struct_only s w)"
  by (simp_all add: evolves_def owners_def closes_def signal_def free_sub_def free_struct_only_def rel_option_reflI)

lemma evolves_tcbs:
  "tcbs w p = Some c \<Longrightarrow> conn_le c c' \<Longrightarrow> evolves w (w\<lparr>tcbs := (tcbs w)(p \<mapsto> c')\<rparr>)"
  by (auto simp: evolves_def owners_def closes_def rel_option_reflI)

lemma evo_upd [evo_rules]:
  "(\<And>c. tcbs w p = Some c \<Longrightarrow> conn_le c (f c)) \<Longrightarrow> evo (\<lambda>w. w) (upd_tcb p f w) w"
  by (cases "tcbs w p") (simp_all add: evo_def evolves_tcbs)

lemma evo_locks [evo_rules]:
  "evo (\<lambda>w. w) (lock_tcb p w) w" "evo (\<lambda>w. w) (unlock_tcb p w) w" "evo (\<lambda>w. w) (lock_send p w) w" "evo (\<lambda>w. w) (unlock_send p w) w"
  unfolding lock_tcb_def lock_send_def unlock_tcb_def unlock_send_def by (intro evo_rules conn_le_updates)+

lemma evo_signalled [evo_rules]:
  "evo (\<lambda>w. w) (unlock_tcb p (signal v w)) w" "evo (\<lambda>w. w) (unlock_send p (signal v w)) w"
  by (rule evo_trans [OF evolves_other(1)]; rule evo_rules)+

section \<open>Sending\<close>

lemma add_msg_evolves: "tcbs w p \<noteq> None \<Longrightarrow> evolves w (add_msg_to_arr p sub retries w)"
  by (auto simp: add_msg_to_arr_def evolves_def owners_def closes_def rel_option_reflI)

lemma queued_evolves:
  assumes "tcbs w p = Some c"
  shows "evolves w (add_msg_to_arr p sub retries
    (w\<lparr>live_subs := a, live_bufs := b, tcbs := (tcbs w)(p \<mapsto> (bump_nxt c flags)\<lparr>snd_nxt := x\<rparr>)\<rparr>))"
proof -
  let ?w = "w\<lparr>live_subs := a, live_bufs := b\<rparr>"
  have "conn_le c ((bump_nxt c flags)\<lparr>snd_nxt := x\<rparr>)" by (simp add: conn_le_def rcv_ok_def bump_nxt_def)
  then have "evolves ?w (?w\<lparr>tcbs := (tcbs ?w)(p \<mapsto> (bump_nxt c flags)\<lparr>snd_nxt := x\<rparr>)\<rparr>)"
    using assms by (intro evolves_tcbs [of _ _ c]) simp_all
  then have "evolves w (w\<lparr>live_subs := a, live_bufs := b, tcbs := (tcbs w)(p \<mapsto> (bump_nxt c flags)\<lparr>snd_nxt := x\<rparr>)\<rparr>)"
    using evolves_trans [OF evolves_other(6)] by simp
  then show ?thesis by (rule evolves_trans) (simp add: add_msg_evolves)
qed

lemma evo_tcp_tx_round: "evo (\<lambda>x. snd (snd x)) (tcp_tx_round p data n k flags retries w) w"
  unfolding tcp_tx_round_def Let_def create_tcp_packet_eq
  by (intro evo_rules)
    (auto simp: evo_def dest!: evoD [OF evo_locks(4)] intro: evolves_trans [OF queued_evolves])

lemma tcp_tx_loop_evolves: "tcp_tx_loop p data n k flags retries w = Inr (r, w') \<Longrightarrow> evolves w w'"
proof (induction p data n k flags retries w rule: tcp_tx_loop.induct)
  case (1 p data n k flags retries w)
  show ?case
  proof (cases "k \<le> n")
    case True
    obtain t j w1 where t: "tcp_tx_round p data n k flags retries w = Inr (t, j, w1)"
      using "1.prems" True by (cases "tcp_tx_round p data n k flags retries w")
        (auto simp: tcp_tx_loop.simps [of p data n k])
    have e: "evolves w w1" using evoD [OF evo_tcp_tx_round t] by simp
    show ?thesis
    proof (cases t)
      case Tx_more
      then have "evolves w1 w'" using "1.IH" [OF True] t "1.prems" True by (simp add: tcp_tx_loop.simps [of p data n k])
      with e show ?thesis by (rule evolves_trans)
    qed (use e t True "1.prems" in \<open>simp_all add: tcp_tx_loop.simps [of p data n k]\<close>)
  qed (use "1.prems" in \<open>simp add: tcp_tx_loop.simps [of p data n k]\<close>)
qed

lemma evo_tcp_tx_loop [evo_rules]: "evo snd (tcp_tx_loop p data n k flags retries w) w"
  by (auto simp: evo_def intro: tcp_tx_loop_evolves)

lemma evo_tcp_tx [evo_rules]: "evo snd (tcp_tx p data n flags retries w) w"
  unfolding tcp_tx_def by (intro evo_rules) simp

lemma evo_tcp_tx_resume [evo_rules]: "evo snd (tcp_tx_resume p data n k flags retries w) w"
  unfolding tcp_tx_resume_def by (intro evo_rules)

lemma evo_tcp_tx_ctl [evo_rules]: "evo (\<lambda>w. w) (tcp_tx_ctl p flags retries w) w"
  unfolding tcp_tx_ctl_def by (intro evo_rules) simp

lemma core_evolves:
  "tcbs w' = tcbs w \<Longrightarrow> messages_array w' = messages_array w \<Longrightarrow> anp_sockets_cache w' = anp_sockets_cache w \<Longrightarrow>
   fd_in_use w' = fd_in_use w \<Longrightarrow> tcb_next w' = tcb_next w \<Longrightarrow> closes w' = closes w \<Longrightarrow> evolves w w'"
  by (simp add: evolves_def owners_def rel_option_reflI)

lemma stop_retransmit_msg_same:
  assumes "stop_retransmit_msg p e w = Inr (kept, w')"
  shows "tcbs w' = tcbs w \<and> messages_array w' = messages_array w \<and> map_option m_tcb kept \<in> {None, Some (m_tcb e)} \<and> evolves w w'"
proof -
  obtain c ptr where c: "tcbs w p = Some c" "m_tcp_ptr e = Some ptr"
    using assms by (cases "tcbs w p"; cases "m_tcp_ptr e") (simp_all add: stop_retransmit_msg_def)
  then have "tcbs w' = tcbs w \<and> messages_array w' = messages_array w \<and> anp_sockets_cache w' = anp_sockets_cache w
     \<and> fd_in_use w' = fd_in_use w \<and> tcb_next w' = tcb_next w \<and> timers w' = timers w \<and> spawned w' = spawned w
     \<and> map_option m_tcb kept \<in> {None, Some (m_tcb e)}"
    using assms unfolding stop_retransmit_msg_def Let_def create_tcp_packet_eq
    by (simp add: free_sub_def split: if_split_asm) (elim conjE; hypsubst; simp add: fun_upd_idem)+
  then show ?thesis using core_evolves [of w' w] by (simp add: closes_def)
qed

lemma stop_retransmit_loop_same:
  "stop_retransmit_loop p es w = Inr (es', w') \<Longrightarrow>
   tcbs w' = tcbs w \<and> messages_array w' = messages_array w \<and> m_tcb ` set es' \<subseteq> m_tcb ` set es \<and> evolves w w'"
proof (induction es arbitrary: w es')
  case (Cons e es)
  obtain kept w1 rest where k: "(if m_tcb e = p then stop_retransmit_msg p e w else Inr (Some e, w)) = Inr (kept, w1)"
      "stop_retransmit_loop p es w1 = Inr (rest, w')" "es' = (case kept of None \<Rightarrow> rest | Some e \<Rightarrow> e # rest)"
    using Cons.prems by auto
  have "tcbs w1 = tcbs w \<and> messages_array w1 = messages_array w \<and> map_option m_tcb kept \<in> {None, Some (m_tcb e)} \<and> evolves w w1"
    using k(1) stop_retransmit_msg_same [of p e w kept w1] by (cases "m_tcb e = p") auto
  then show ?case using Cons.IH [OF k(2)] k(3) evolves_trans [of w w1 w'] by (cases kept) auto
qed simp

lemma evolves_messages: "m_tcb ` set es \<subseteq> owners w \<Longrightarrow> evolves w (w\<lparr>messages_array := es\<rparr>)"
  by (auto simp: evolves_def owners_def closes_def rel_option_reflI)

lemma stop_retransmit_same:
  assumes "stop_retransmit p w = Inr w'"
  shows "tcbs w' = tcbs w \<and> evolves w w'"
proof -
  obtain es w1 where e: "stop_retransmit_loop p (messages_array w) w = Inr (es, w1)" "w' = w1\<lparr>messages_array := es\<rparr>"
    using assms by (auto simp: stop_retransmit_def)
  have "m_tcb ` set es \<subseteq> owners w1" "evolves w w1" "tcbs w1 = tcbs w"
    using stop_retransmit_loop_same [OF e(1)] by (simp_all add: owners_def)
  then show ?thesis using evolves_trans [OF _ evolves_messages] unfolding e(2) by simp
qed

lemma evo_stop_retransmit [evo_rules]: "evo (\<lambda>w. w) (stop_retransmit p w) w"
  by (simp add: evo_def stop_retransmit_same)

section \<open>Receiving\<close>

lemma evo_save_data_and_ack [evo_rules]: "evo (\<lambda>w. w) (save_data_and_ack p sub w) w"
proof -
  have "conn_le c (c\<lparr>rcv_buff := b, rcv_nxt := x, rcv_buff_len := rcv_buff_len c + k\<rparr>)"
    if "unat (rcv_buff_len c) + unat k \<le> 65535" for c b x k
    using that unat_add_small [of "rcv_buff_len c" k] by (simp add: conn_le_def unat_le_rcv)
  then show ?thesis
    unfolding save_data_and_ack_def Let_def
    by (intro evo_rules) (auto simp: not_less intro: evolves_trans [OF evolves_other(1) evolves_other(2)])
qed

lemma evo_read_bytes_copy [evo_rules]: "evo snd (read_bytes_copy p n w) w"
proof -
  have "conn_le c (c\<lparr>rcv_buff_len := rcv_buff_len c - k, rcv_buff := b\<rparr>)" if "k \<le> rcv_buff_len c" for c k b
    using that unat_sub [OF that] by (auto simp: conn_le_def unat_le_rcv)
  then show ?thesis
    unfolding read_bytes_copy_def Let_def by (intro evo_rules) simp_all
qed

lemma evo_read_bytes [evo_rules]: "evo snd (read_bytes p n w) w"
  unfolding read_bytes_def by (intro evo_rules) simp_all

lemma evo_read_bytes_resume [evo_rules]: "evo snd (read_bytes_resume p n w) w"
  unfolding read_bytes_resume_def by (intro evo_rules)

lemma evo_drop_pkt [evo_rules]: "evo (\<lambda>w. w) (drop_pkt p sub a b w) w"
  unfolding drop_pkt_def by (intro evo_rules) simp_all

lemma evo_tcp_rx_syn_sent:
  assumes "tcbs w p = Some c" and "c_state c = TCP_SYN_SENT"
  shows "evo (\<lambda>w. w) (tcp_rx_syn_sent p sub w) w"
proof -
  have s: "conn_le c1 (c1\<lparr>rcv_nxt := a, irs := b, snd_una := d\<rparr>)" for c1 a b d by (simp add: conn_le_def rcv_ok_def)
  have t: "conn_le c1 (c1\<lparr>snd_wnd := a, c_state := TCP_ESTABLISHED\<rparr>)" "conn_le c1 (c1\<lparr>c_state := TCP_SYN_RECEIVED, snd_nxt := b\<rparr>)"
    if "c_state c1 = TCP_SYN_SENT" for c1 a b
    using that by (auto simp: conn_le_def rcv_ok_def)
  show ?thesis
    unfolding tcp_rx_syn_sent_def Let_def
    by (intro evo_rules)
      (use assms in \<open>auto simp: s dest!: stop_retransmit_same intro!: t\<close>)
qed

lemma evo_timer_close: "ending w p \<Longrightarrow> evo (\<lambda>w. w) (timer_oneshot n (Close_connection p) w) w"
  by (auto simp: evo_def timer_oneshot_def timer_insert_eq evolves_def owners_def closes_def ending_def rel_option_reflI
      split: if_splits)

lemma evo_timer_other [evo_rules]:
  "evo (\<lambda>w. w) (timer_oneshot n (Icmp_reply_handler info) w) w" "evo (\<lambda>w. w) (timer_oneshot n Tcp_retransmit_handler w) w"
  by (auto simp: evo_def timer_oneshot_def timer_insert_eq evolves_def owners_def closes_def rel_option_reflI split: if_splits)

lemma ending_evolves: "evolves w w' \<Longrightarrow> ending w p \<Longrightarrow> ending w' p"
  using ending_mono by (auto simp: evolves_def)

lemma upd_tcb_InrD: "upd_tcb p f w = Inr w' \<Longrightarrow> \<exists>c. tcbs w p = Some c \<and> w' = w\<lparr>tcbs := (tcbs w)(p \<mapsto> f c)\<rparr>"
  by (cases "tcbs w p") auto

lemma evo_tcp_rx_switch [evo_rules]: "evo snd (tcp_rx_switch p m w) w"
proof -
  have t: "conn_le c (c\<lparr>c_state := TCP_ESTABLISHED, snd_wnd := a\<rparr>)" if "c_state c = TCP_SYN_RECEIVED" for c a
    using that by (auto simp: conn_le_def rcv_ok_def)
  show ?thesis
    unfolding tcp_rx_switch_def Let_def
    by (intro evo_rules evo_case_state) (auto dest!: stop_retransmit_same intro!: t)
qed

text \<open>The last part of \<open>tcp_rx_fin\<close>: acknowledge the FIN, set the timer.\<close>

lemma evo_time_wait:
  assumes "ending w p"
  shows "evo (\<lambda>w. w) (bindo (tcp_tx_ctl p TCP_ACK RETRIES_SENDONCE w) (\<lambda>w. bindo (unlock_tcb p w) (\<lambda>w.
    timer_oneshot TCP_WAIT_TIME (Close_connection p) w))) w"
  by (intro evo_rules evo_timer_close)
    (use assms in \<open>auto dest!: evoD [OF evo_tcp_tx_ctl] evoD [OF evo_locks(2)] intro: ending_evolves\<close>)

lemma evo_tcp_rx_fin_step:
  assumes "tcbs w p = Some c"
  shows "evo (\<lambda>w. w) (bindo (upd_tcb p (\<lambda>c. c\<lparr>rcv_nxt := rcv_nxt c + 1\<rparr>) w) (\<lambda>w.
    if c_state c = TCP_FIN_WAIT_1 \<or> c_state c = TCP_FIN_WAIT_2 then
      bindo (upd_tcb p (c_state_update (\<lambda>_. TCP_TIME_WAIT)) w) (\<lambda>w.
      bindo (tcp_tx_ctl p TCP_ACK RETRIES_SENDONCE w) (\<lambda>w.
      bindo (unlock_tcb p w) (\<lambda>w.
        timer_oneshot TCP_WAIT_TIME (Close_connection p) w)))
    else Inr w)) w"
proof -
  have p: "tcp_path TCP_FIN_WAIT_2 TCP_TIME_WAIT" "tcp_path TCP_FIN_WAIT_1 TCP_TIME_WAIT"
    by (auto, rule rtranclp_trans [of _ _ TCP_FIN_WAIT_2], auto)
  let ?c = "c\<lparr>rcv_nxt := rcv_nxt c + 1\<rparr>" and ?c' = "c\<lparr>rcv_nxt := rcv_nxt c + 1, c_state := TCP_TIME_WAIT\<rparr>"
  let ?w = "w\<lparr>tcbs := (tcbs w)(p \<mapsto> ?c)\<rparr>" and ?w' = "w\<lparr>tcbs := (tcbs w)(p \<mapsto> ?c')\<rparr>"
  have w: "evolves w ?w" using assms by (simp add: evolves_tcbs)
  have "evolves ?w ?w'" "ending ?w' p" if "c_state c = TCP_FIN_WAIT_1 \<or> c_state c = TCP_FIN_WAIT_2"
    using that p evolves_tcbs [of ?w p ?c ?c'] by (auto simp: conn_le_def rcv_ok_def ending_def)
  then show ?thesis
    using assms evolves_trans [OF w, of ?w'] evo_trans [OF _ evo_time_wait, of w ?w' p] w by (auto intro: evo_Inr)
qed

lemma evo_tcp_rx_fin [evo_rules]: "evo (\<lambda>w. w) (tcp_rx_fin p sub freed w) w"
proof -
  have l: "evo (\<lambda>w. w) (let w = (if freed then w\<lparr>uaf := uaf w + 1\<rparr> else w) in f w) w"
    if "\<And>w. tcbs w p = Some c \<Longrightarrow> evo (\<lambda>w. w) (f w) w" "tcbs w p = Some c" for f c
    using that(1) [of w] evo_trans [OF evolves_other(3) that(1), of "uaf w + 1" w] that(2) by simp
  show ?thesis
    unfolding tcp_rx_fin_def
    by (rule evo_the_tcb, rule evo_if, rule evo_rules, rule l, rule evo_if)
      (rule evo_tcp_rx_fin_step evo_rules | assumption)+
qed

lemma evo_tcp_rx_text [evo_rules]: "evo (\<lambda>w. w) (tcp_rx_text p sub n w) w"
  unfolding tcp_rx_text_def Let_def by (intro evo_rules)

lemma evo_tcp_rx_locked [evo_rules]: "evo (\<lambda>w. w) (tcp_rx_locked p sub n w) w"
  unfolding tcp_rx_locked_def by (intro evo_rules) (auto intro: evo_tcp_rx_syn_sent)

lemma evo_rx_segment [evo_rules]: "evo (\<lambda>w. w) (rx_segment p sub n w) w"
  unfolding rx_segment_def by (intro evo_rules)

lemma evo_tcp_rx [evo_rules]: "evo (\<lambda>w. w) (tcp_rx sub w) w"
  unfolding tcp_rx_def tcp_rx_lookup_def Let_def by (intro evo_rules)

section \<open>The other components\<close>

lemma netdev_transmit_tap:
  "netdev_transmit sub hw et w = Inr (rc, sub', w') \<Longrightarrow> \<exists>fr. w' = w\<lparr>tap_out := fr\<rparr>"
  by (auto simp: netdev_transmit_def tdev_write_def Let_def split: option.splits if_splits)

lemma evo_netdev_transmit: "evo (\<lambda>x. snd (snd x)) (netdev_transmit sub hw et w) w"
  by (auto simp: evo_def dest!: netdev_transmit_tap)

lemma evo_bind_triple [evo_rules]:
  "evo (\<lambda>x. snd (snd x)) r w \<Longrightarrow> (\<And>a b w1. r = Inr (a, b, w1) \<Longrightarrow> evo st (g a b w1) w1) \<Longrightarrow>
   evo st (bindo r (\<lambda>(a, b, w). g a b w)) w"
  by (cases r) (auto simp: evo_def intro: evolves_trans)

lemma evo_arp_request [evo_rules]: "evo snd (arp_request src dst dev w) w"
proof -
  have "evo snd (alloc_arp_sub w) w" by (simp add: alloc_arp_sub_def alloc_sub_def evo_def)
  then show ?thesis
    unfolding arp_request_def Let_def by (intro evo_rules evo_netdev_transmit) simp_all
qed

lemma evo_ip_output: "evo (\<lambda>x. snd (snd x)) (ip_output dst sub w) w"
proof -
  have "evo (\<lambda>x. snd (snd x)) (dst_neigh_output sub w) w" for sub
    unfolding dst_neigh_output_def Let_def
    by (auto split: option.split intro!: evo_rules evo_netdev_transmit)
  then show ?thesis unfolding ip_output_def Let_def by (intro evo_rules) simp_all
qed

lemma evo_icmp_reply_handler [evo_rules]: "evo (\<lambda>w. w) (icmp_reply_handler info w) w"
  unfolding icmp_reply_handler_def Let_def by (intro evo_rules evo_ip_output) simp_all

lemma evo_icmp_rx [evo_rules]: "evo (\<lambda>w. w) (icmp_rx sub w) w"
proof -
  have "evo (\<lambda>w. w) (icmp_reply sub w) w"
    unfolding icmp_reply_def Let_def by (intro evo_rules) simp_all
  then show ?thesis unfolding icmp_rx_def Let_def by (intro evo_rules) simp_all
qed

lemma evo_arp_reply [evo_rules]: "evo (\<lambda>w. w) (arp_reply sub dev w) w"
  unfolding arp_reply_def Let_def by (intro evo_rules evo_netdev_transmit) simp_all

lemma evo_arp_rx [evo_rules]: "evo (\<lambda>w. w) (arp_rx sub w) w"
proof -
  have "evo (\<lambda>w. w) (process_arp_entry d w) w" for d
    by (auto simp: process_arp_entry_def evo_def split: option.splits if_splits)
  then show ?thesis unfolding arp_rx_def Let_def by (intro evo_rules) simp_all
qed

lemma evo_ip_rx [evo_rules]: "evo (\<lambda>w. w) (ip_rx sub w) w"
  unfolding ip_rx_def Let_def by (intro evo_rules) simp_all

lemma evo_process_packet [evo_rules]: "evo (\<lambda>w. w) (process_packet sub w) w"
  unfolding process_packet_def Let_def by (intro evo_rules) simp_all

section \<open>The retransmission thread and the timer\<close>

lemma ip_output_same:
  assumes "ip_output d s w = Inr (r, s', w')"
  shows "evolves w w' \<and> messages_array w' = messages_array w"
proof -
  have "messages_array w' = messages_array w"
    using assms by (auto simp: ip_output_def dst_neigh_output_def arp_request_def alloc_arp_sub_def alloc_sub_def
        free_sub_def Let_def split: option.splits if_splits dest!: netdev_transmit_tap)
  then show ?thesis using evoD [OF evo_ip_output assms] by simp
qed

lemma resend_same:
  "resend env dst e ptr sub w = Inr (Some (sub', env', w')) \<Longrightarrow> evolves w w' \<and> messages_array w' = messages_array w"
proof (induction env arbitrary: sub w)
  case Nil
  then show ?case by (auto simp: resend.simps [of "[]"] dest: ip_output_same split: sum.splits if_splits)
next
  case (Cons cache env)
  obtain r s w1 where o: "ip_output dst (sub\<lparr>s_data := int ptr, s_len := m_tcp_len e\<rparr>) w = Inr (r, s, w1)"
    using Cons.prems by (auto simp: resend.simps [of "cache # env"] split: sum.splits)
  have w1: "evolves w w1 \<and> messages_array w1 = messages_array w" by (rule ip_output_same [OF o])
  show ?case
  proof (cases "r = - EAGAIN")
    case True
    then have "resend env dst e ptr s (w1\<lparr>arp_cache := cache\<rparr>) = Inr (Some (sub', env', w'))"
      using Cons.prems o by (simp add: resend.simps [of "cache # env"])
    then have "evolves (w1\<lparr>arp_cache := cache\<rparr>) w'" "messages_array w' = messages_array w1"
      using Cons.IH by auto
    then show ?thesis using w1 evolves_trans [OF evolves_other(8), of cache w1 w'] evolves_trans by simp blast
  next
    case False
    then show ?thesis using Cons.prems o w1 by (simp add: resend.simps [of "cache # env"])
  qed
qed

lemma after_resend_same:
  assumes "after_resend e w = Inr (kept, w')"
  shows "evolves w w' \<and> messages_array w' = messages_array w \<and> map_option m_tcb kept \<in> {None, Some (m_tcb e)}"
proof -
  have "evo snd (after_resend e w) w"
    unfolding after_resend_def Let_def by (intro evo_rules) simp_all
  moreover have "messages_array w' = messages_array w \<and> map_option m_tcb kept \<in> {None, Some (m_tcb e)}"
    using assms unfolding after_resend_def Let_def lock_tcb_def unlock_tcb_def
    by (cases "tcbs w (m_tcb e)") (auto split: if_splits dest!: upd_tcb_InrD)
  ultimately show ?thesis using assms by (auto dest: evoD)
qed

lemma retransmit_loop_same:
  "retransmit_loop env es w = Inr (Some (es', w')) \<Longrightarrow>
   evolves w w' \<and> messages_array w' = messages_array w \<and> m_tcb ` set es' \<subseteq> m_tcb ` set es"
proof (induction es arbitrary: env w es')
  case (Cons e es)
  obtain dst ptr sub env1 w1 kept w2 rest where
    r: "resend env dst e ptr (m_sub e) w = Inr (Some (sub, env1, w1))"
       "after_resend (e\<lparr>m_sub := sub\<rparr>) w1 = Inr (kept, w2)" "retransmit_loop env1 es w2 = Inr (Some (rest, w'))"
       "es' = (case kept of None \<Rightarrow> rest | Some e \<Rightarrow> e # rest)"
    using Cons.prems by (force split: option.splits)
  have "m_tcb ` set es' \<subseteq> insert (m_tcb e) (m_tcb ` set rest)"
    using after_resend_same [OF r(2)] r(4) by (cases kept) auto
  then have "m_tcb ` set es' \<subseteq> m_tcb ` set (e # es)" using Cons.IH [OF r(3)] by auto
  moreover have "evolves w w'"
    using resend_same [OF r(1)] after_resend_same [OF r(2)] Cons.IH [OF r(3)] evolves_trans [of w w1 w2] evolves_trans [of w w2 w']
    by blast
  ultimately show ?case using resend_same [OF r(1)] after_resend_same [OF r(2)] Cons.IH [OF r(3)] by simp
qed simp

lemma tcp_retransmit_handler_evolves:
  assumes "tcp_retransmit_handler env w = Inr (Some w')"
  shows "evolves w w'"
proof -
  obtain es w1 where r: "retransmit_loop env (messages_array w) w = Inr (Some (es, w1))"
      "timer_oneshot TCP_WAIT_TIME Tcp_retransmit_handler (w1\<lparr>messages_array := es\<rparr>) = Inr w'"
    using assms by (auto simp: tcp_retransmit_handler_def split: option.splits)
  have "evolves w w1" "m_tcb ` set es \<subseteq> owners w1"
    using retransmit_loop_same [OF r(1)] by (simp_all add: owners_def)
  then have "evolves w (w1\<lparr>messages_array := es\<rparr>)" using evolves_messages evolves_trans by blast
  then show ?thesis using evoD [OF evo_timer_other(2) r(2)] evolves_trans by blast
qed

text \<open>A tick may start callbacks but sets none.\<close>

lemma tick_timers_handlers:
  "t_handler ` set (fst (tick_timers busy now ts)) \<union> set (snd (tick_timers busy now ts)) \<subseteq> t_handler ` set ts"
  by (induction ts) (auto simp: split_def Let_def)

lemma timers_round_evolves: "evolves w (timers_round busy w)"
proof -
  have "closes (timers_round busy w) \<subseteq> closes w"
    using tick_timers_handlers [of busy "tick w + 10" "timers w"]
    by (auto simp: closes_def timers_round_def timers_tick_def split_def Let_def)
  then show ?thesis
    by (auto simp: evolves_def owners_def timers_round_def timers_tick_def split_def Let_def rel_option_reflI)
qed

section \<open>Calls on a descriptor\<close>

lemma evo_with_socket [evo_rules]:
  "(\<And>sock. get_anp_socket fd w = Some sock \<Longrightarrow> evo snd (body sock w) w) \<Longrightarrow> evo snd (with_socket fd body w) w"
  unfolding with_socket_def fail_def by (intro evo_rules) simp_all

lemma evo_fail [evo_rules]: "evo snd (fail e w) w"
  by (simp add: fail_def evo_def)

lemma evo_send [evo_rules]: "evo snd (send fd buf w) w"
  unfolding send_def by (intro evo_rules) simp_all

lemma evo_recv [evo_rules]: "evo snd (recv fd n w) w"
  unfolding recv_def by (intro evo_rules) simp_all

lemma evo_connect_resume [evo_rules]: "evo snd (connect_resume p w) w"
  unfolding connect_resume_def by (intro evo_rules) simp_all

lemma lock_tcb_InrD:
  "lock_tcb p w = Inr w' \<Longrightarrow> \<exists>c. tcbs w p = Some c \<and> \<not> tcb_locked c \<and> w' = w\<lparr>tcbs := (tcbs w)(p \<mapsto> c\<lparr>tcb_locked := True\<rparr>)\<rparr>"
  by (cases "tcbs w p") (auto simp: lock_tcb_def split: if_splits)

lemma evo_close [evo_rules]: "evo snd (close fd w) w"
  unfolding close_def by (intro evo_rules) (auto dest!: lock_tcb_InrD)

text \<open>The closing callback takes the last edge, if the connection is in the state in which the callback was set.\<close>

lemma evo_close_connection:
  assumes "ending w p"
  shows "evo (\<lambda>w. w) (close_connection p w) w"
proof -
  have "tcp_path TCP_TIME_WAIT TCP_CLOSED" by (rule tcp_edge_path) simp
  with assms show ?thesis
    unfolding close_connection_def ending_def
    by (intro evo_rules) (auto dest!: lock_tcb_InrD stop_retransmit_same)
qed

section \<open>What a received segment can do\<close>


lemma sample_ack_lookup:
  "tcp_rx_lookup sample_ack_segment (sample_tcp sample_tcb []) =
   rx_segment 0 (sample_ack_segment\<lparr>s_head := tcp_hdr_to_host (s_head sample_ack_segment)\<rparr>) 0 (sample_tcp sample_tcb [])"
proof -
  have "get16 (tcp_hdr_to_host m) 34 = ntohs (get16 m 34)" "get16 (tcp_hdr_to_host m) 36 = ntohs (get16 m 36)"
    "get32 (tcp_hdr_to_host m) 26 = get32 m 26" "get32 (tcp_hdr_to_host m) 30 = ntohl (get32 m 30)" for m
    by (simp_all add: tcp_hdr_to_host_def Let_def byte_simps)
  moreover have "get_tcb 49155 0x0400000A 43211 0x0A000005 (sample_tcp sample_tcb []) = Inr (Some 0)"
    by (simp add: get_tcb_def sample_tcp_def sample_tcb_def)
  moreover have "IP_PAYLOAD_LEN (s_head sample_ack_segment) = 20" by (simp add: IP_PAYLOAD_LEN_def sample_ack_fields)
  ultimately show ?thesis
    by (simp add: tcp_rx_lookup_def Let_def sample_ack_fields sample_addrs bswap16_def le16_def rx_segment_def)
qed


end
