(* ===== verification/Tcp_States.thy ===== *)
theory Tcp_States
  imports Evolve
begin

text \<open>
  The life of a connection: the handshake that \<open>connect\<close> starts and \<open>tcp_rx\<close> completes, the exchange with which
  \<open>close\<close> ends it, and the places where the code loses a connection: a FIN that arrives while the
  connection is established, and a FIN that arrives after the acknowledgement of the own one.
  \<open>rx_segment\<close> (from \<open>Tcp_Recv\<close>) is \<open>tcp_rx\<close> from the lookup of the control block on.
\<close>

section \<open>Opening\<close>

text \<open>The descriptor is one of the library's and belongs to the socket.\<close>

definition open_sock :: "int \<Rightarrow> anp_socket \<Rightarrow> 'a tcp_state_scheme \<Rightarrow> bool" where
  "open_sock fd sock w \<longleftrightarrow> FD_START_VAL \<le> fd \<and> fd < FD_START_VAL + int FD_COUNT
     \<and> fd_in_use w (nat (fd - FD_START_VAL)) \<and> get_anp_socket fd w = Some sock"

lemma with_open_sock: "open_sock fd sock w \<Longrightarrow> with_socket fd body w = body sock w"
  by (simp add: open_sock_def with_socket_def is_anp_sockfd_def fd_index_def)

lemma find_set_conn_info:
  "find_socket (set_conn_info fd q socks) fd = map_option (sk_conn_info_update (\<lambda>_. q)) (find_socket socks fd)"
  by (induction socks) (simp_all add: set_conn_info_def)

text \<open>The control block that \<open>connect\<close> fills in before it sends the SYN, and as it leaves it.\<close>

definition new_conn :: "u16 \<Rightarrow> u16 \<Rightarrow> u32 \<Rightarrow> u32 \<Rightarrow> rtentry \<Rightarrow> tcb" where
  "new_conn port sin_port s_addr rnd rt =
     zero_tcb\<lparr>local_port := port, remote_port := ntohs sin_port, remote_ip := ntohl s_addr,
       local_ip := ntohl (dev_addr (rt_dev rt)), c_state := TCP_SYN_SENT, iss := rnd, snd_una := rnd - 1, snd_nxt := rnd\<rparr>"

lemma tx_msg_locks [simp]:
  "tx_msg p (c\<lparr>send_locked := b\<rparr>) seg flags retries = tx_msg p c seg flags retries"
  "tx_msg p (c\<lparr>tcb_locked := b\<rparr>) seg flags retries = tx_msg p c seg flags retries"
  "tx_msg p (c\<lparr>c_state := st\<rparr>) seg flags retries = tx_msg p c seg flags retries"
  by (simp_all add: tx_msg_def)

lemma new_conn_simps [simp]:
  "(new_conn a b d rnd rt)\<lparr>snd_nxt := k, c_state := TCP_SYN_SENT\<rparr> = (new_conn a b d rnd rt)\<lparr>snd_nxt := k\<rparr>"
  "zero_tcb\<lparr>local_port := a, remote_port := ntohs b, remote_ip := ntohl d,
      local_ip := ntohl (dev_addr (rt_dev rt)), c_state := TCP_CLOSED, iss := rnd, snd_una := rnd - 1, snd_nxt := rnd,
      irs := 0, rcv_nxt := 0, rcv_buff_len := 0\<rparr> = (new_conn a b d rnd rt)\<lparr>c_state := TCP_CLOSED\<rparr>"
  "\<not> tcb_locked (new_conn a b d rnd rt)" "\<not> send_locked (new_conn a b d rnd rt)"
  "snd_nxt (new_conn a b d rnd rt) = rnd" "snd_una (new_conn a b d rnd rt) = rnd - 1" "iss (new_conn a b d rnd rt) = rnd"
  "c_state (new_conn a b d rnd rt) = TCP_SYN_SENT" "rcv_buff_len (new_conn a b d rnd rt) = 0"
  "local_port (new_conn a b d rnd rt) = a" "remote_port (new_conn a b d rnd rt) = ntohs b"
  "remote_ip (new_conn a b d rnd rt) = ntohl d" "local_ip (new_conn a b d rnd rt) = ntohl (dev_addr (rt_dev rt))"
  by (simp_all add: new_conn_def zero_tcb_def)

text \<open>Everything but the control blocks, the queue of messages and the counts of the heap.\<close>

definition env_same :: "'a tcp_state_scheme \<Rightarrow> 'a tcp_state_scheme \<Rightarrow> bool" where
  "env_same w w' \<longleftrightarrow> anp_sockets_cache w' = anp_sockets_cache w \<and> fd_in_use w' = fd_in_use w \<and> tcb_next w' = tcb_next w
     \<and> oom w' = oom w \<and> available_port w' = available_port w \<and> routes w' = routes w \<and> arp_cache w' = arp_cache w
     \<and> timers w' = timers w \<and> tick w' = tick w \<and> t_next w' = t_next w \<and> tap_out w' = tap_out w \<and> signals w' = signals w
     \<and> spawned w' = spawned w"

lemma tcp_tx_ctl_world:
  assumes "tcbs w p = Some c" and "\<not> send_locked c" and "\<not> oom w"
    and "retries = RETRIES_SENDONCE \<or> retries = RETRIES_CONN_MAX"
  shows "\<exists>w'. tcp_tx_ctl p flags retries w = Inr w' \<and> tcbs w' = (tcbs w)(p \<mapsto> bump_nxt c flags)
    \<and> messages_array w' = messages_array w @ [tx_msg p c [] flags retries] \<and> env_same w w'"
  using assms by (auto simp: tcp_tx_ctl_ok tx_world_def env_same_def)

lemma stop_retransmit_world:
  assumes "tcbs w p = Some c" and "\<forall>e \<in> set (messages_array w). whole p c e"
  shows "\<exists>w'. stop_retransmit p w = Inr w' \<and> tcbs w' = tcbs w
    \<and> messages_array w' = filter (\<lambda>e. \<not> acked p c e) (messages_array w) \<and> env_same w w'"
  using stop_retransmit_whole [OF assms] by (simp add: release_msgs_def env_same_def)

lemma connect_ok:
  assumes "open_sock fd sock w" and "\<not> oom w" and "route_lookup (ntohl s_addr) w = Some rt"
  shows "\<exists>w' c. connect fd sin_port s_addr rnd w = Inr (Wait_tcb (tcb_next w), w')
    \<and> c = new_conn (available_port w + 1) sin_port s_addr rnd rt
    \<and> tcbs w' = (tcbs w)(tcb_next w \<mapsto> c\<lparr>snd_nxt := rnd + 1\<rparr>)
    \<and> messages_array w' = messages_array w @ [tx_msg (tcb_next w) c [] TCP_SYN RETRIES_CONN_MAX]
    \<and> anp_sockets_cache w' = set_conn_info fd (Some (tcb_next w)) (anp_sockets_cache w)
    \<and> oom w' = oom w \<and> tcb_next w' = tcb_next w + 1 \<and> signals w' = signals w \<and> fd_in_use w' = fd_in_use w
    \<and> timers w' = timers w \<and> spawned w' = spawned w"
proof -
  let ?p = "tcb_next w"
  let ?c = "new_conn (available_port w + 1) sin_port s_addr rnd rt"
  let ?c0 = "?c\<lparr>c_state := TCP_CLOSED, tcb_locked := True\<rparr>"
  let ?w = "w\<lparr>tcb_next := ?p + 1, anp_sockets_cache := set_conn_info fd (Some ?p) (anp_sockets_cache w),
    available_port := available_port w + 1, tcbs := (tcbs w)(?p \<mapsto> ?c0)\<rparr>"
  have r: "route_lookup (ntohl s_addr) (w\<lparr>tcb_next := ?p + 1, anp_sockets_cache := a, available_port := b\<rparr>) = Some rt" for a b
    using assms(3) by (simp add: route_lookup_def)
  obtain w' where w': "tcp_tx_ctl ?p TCP_SYN RETRIES_CONN_MAX ?w = Inr w'" "tcbs w' = (tcbs w)(?p \<mapsto> bump_nxt ?c0 TCP_SYN)"
      "messages_array w' = messages_array w @ [tx_msg ?p ?c [] TCP_SYN RETRIES_CONN_MAX]" "env_same ?w w'"
    using tcp_tx_ctl_world [of ?w ?p ?c0 RETRIES_CONN_MAX TCP_SYN] assms(2) by auto
  show ?thesis
    unfolding connect_def with_open_sock [OF assms(1)] Let_def get_port_eq
    using assms(2) r w' by (simp add: env_same_def bump_nxt_def)
qed
definition msg_flags :: "tcp_message \<Rightarrow> u8" where
  "msg_flags e = s_head (m_sub e) 47"

definition msg_ack :: "tcp_message \<Rightarrow> u32" where
  "msg_ack e = ntohl (get32 (s_head (m_sub e)) 42)"

lemma ctl_msg_fields [simp]:
  "m_tcb (tx_msg p c [] flags retries) = p" "m_tcp_ptr (tx_msg p c [] flags retries) = Some 34"
  "msg_seq (tx_msg p c [] flags retries) = snd_nxt c" "msg_data (tx_msg p c [] flags retries) = []"
  "m_tcp_data_len (tx_msg p c [] flags retries) = 0" "m_retries (tx_msg p c [] flags retries) = retries"
  "msg_flags (tx_msg p c [] flags retries) = flags" "msg_ack (tx_msg p c [] flags retries) = rcv_nxt c"
  using tx_msg_fields [of "[]" p c flags retries] tcp_sub_fields [of "[]" c flags]
  by (simp_all add: msg_flags_def msg_ack_def tx_msg_def tcp_sub_simps unat_eq_zero)

lemma rx_syn_ack:
  assumes c: "tcbs w p = Some c" "c_state c = TCP_SYN_SENT" "\<not> tcb_locked c" "\<not> send_locked c" and o: "\<not> oom w"
    and f: "th_flags (s_head sub) AND TCP_SYN \<noteq> 0" "th_flags (s_head sub) AND TCP_ACK \<noteq> 0"
    and a: "snd_una c \<le> th_ack (s_head sub)" "th_ack (s_head sub) \<le> snd_nxt c" "iss c < th_ack (s_head sub)"
    and e: "\<forall>e \<in> set (messages_array w). whole p (c\<lparr>snd_una := th_ack (s_head sub)\<rparr>) e"
    and c': "c' = c\<lparr>rcv_nxt := th_seq (s_head sub) + 1, irs := th_seq (s_head sub), snd_una := th_ack (s_head sub),
      snd_wnd := ucast (th_window (s_head sub)), c_state := TCP_ESTABLISHED\<rparr>"
  shows "\<exists>w'. rx_segment p sub n w = Inr w' \<and> tcbs w' = (tcbs w)(p \<mapsto> c')
    \<and> messages_array w' = filter (\<lambda>e. \<not> acked p c' e) (messages_array w) @ [tx_msg p c' [] TCP_ACK RETRIES_SENDONCE]
    \<and> signals w' = signals w @ [Tcb_cond p] \<and> anp_sockets_cache w' = anp_sockets_cache w"
proof -
  let ?m = "s_head sub"
  let ?l = "c\<lparr>tcb_locked := True, send_locked := True\<rparr>"
  let ?c1 = "?l\<lparr>rcv_nxt := th_seq ?m + 1, irs := th_seq ?m, snd_una := th_ack ?m\<rparr>"
  let ?w1 = "w\<lparr>tcbs := (tcbs w)(p \<mapsto> ?c1)\<rparr>"
  let ?c3 = "?c1\<lparr>snd_wnd := ucast (th_window ?m), c_state := TCP_ESTABLISHED, send_locked := False\<rparr>"
  have ak: "acked p ?c1 = acked p c'" by (simp add: fun_eq_iff acked_def c')
  have x: "tx_msg p ?c3 [] TCP_ACK RETRIES_SENDONCE = tx_msg p c' [] TCP_ACK RETRIES_SENDONCE"
    by (simp add: tx_msg_def tcp_sub_def tcp_fill_def c')
  have y: "?c3\<lparr>tcb_locked := False\<rparr> = c'" using c(3,4) by (cases c) (simp add: c')
  obtain w2 where s: "stop_retransmit p ?w1 = Inr w2" "tcbs w2 = (tcbs w)(p \<mapsto> ?c1)"
      "messages_array w2 = filter (\<lambda>e. \<not> acked p c' e) (messages_array w)" "env_same ?w1 w2"
    using stop_retransmit_world [of ?w1 p ?c1] e by (auto simp: whole_def ak)
  let ?w3 = "w2\<lparr>tcbs := (tcbs w)(p \<mapsto> ?c3)\<rparr>"
  obtain w4 where t: "tcp_tx_ctl p TCP_ACK RETRIES_SENDONCE ?w3 = Inr w4" "tcbs w4 = (tcbs w)(p \<mapsto> ?c3)"
      "messages_array w4 = messages_array w2 @ [tx_msg p ?c3 [] TCP_ACK RETRIES_SENDONCE]" "env_same ?w3 w4"
    using tcp_tx_ctl_world [of ?w3 p ?c3 RETRIES_SENDONCE TCP_ACK] o s(4) by (auto simp: env_same_def)
  have z: "c'\<lparr>tcb_locked := False\<rparr> = c'" using c(3) by (simp add: c')
  have "rx_segment p sub n w = Inr ((signal (Tcb_cond p) w4)\<lparr>tcbs := (tcbs w)(p \<mapsto> c')\<rparr>)"
    unfolding rx_segment_def tcp_rx_locked_def tcp_rx_syn_sent_def Let_def
    using c f a s(1,2) t(1,2) y z by simp
  then show ?thesis using s(3,4) t(3,4) unfolding x by (simp add: signal_def env_same_def)
qed

lemma connect_resume_Some:
  "tcbs w p = Some c \<Longrightarrow> \<not> tcb_locked c \<Longrightarrow>
   connect_resume p w = Inr (Ret (if c_state c \<noteq> TCP_ESTABLISHED then - 1 else 0), w\<lparr>tcbs := (tcbs w)(p \<mapsto> c)\<rparr>)"
  by (simp add: connect_resume_def)

text \<open>C4. The three-way handshake. \<open>connect\<close> on an open socket queues one SYN with the initial sequence number, to be sent
  at most ten times, and waits; when the peer's SYN-ACK for that number arrives, the connection is established with
  both sides' numbers synchronised and the peer's window, the SYN is no longer retransmitted, the ACK is queued in
  its place, the waiting thread is woken and \<open>connect\<close> returns 0.\<close>

theorem handshake:
  assumes "open_sock fd sock w" and "\<not> oom w" and "route_lookup (ntohl s_addr) w = Some rt"
    and "0 < rnd" and "rnd < 2 ^ 31" and "\<forall>e \<in> set (messages_array w). m_tcb e < tcb_next w"
    and "th_flags (s_head sub) AND TCP_SYN \<noteq> 0" and "th_flags (s_head sub) AND TCP_ACK \<noteq> 0"
    and "th_ack (s_head sub) = rnd + 1"
  shows "\<exists>w1 syn w2 ack w3 c. connect fd sin_port s_addr rnd w = Inr (Wait_tcb (tcb_next w), w1)
    \<and> messages_array w1 = messages_array w @ [syn] \<and> msg_seq syn = rnd \<and> msg_flags syn = TCP_SYN \<and> m_retries syn = 10
    \<and> rx_segment (tcb_next w) sub n w1 = Inr w2 \<and> Tcb_cond (tcb_next w) \<in> set (signals w2)
    \<and> connect_resume (tcb_next w) w2 = Inr (Ret 0, w3) \<and> tcbs w3 = (tcbs w)(tcb_next w \<mapsto> c)
    \<and> c_state c = TCP_ESTABLISHED \<and> snd_una c = rnd + 1 \<and> snd_nxt c = rnd + 1
    \<and> rcv_nxt c = th_seq (s_head sub) + 1 \<and> snd_wnd c = ucast (th_window (s_head sub)) \<and> rcv_buff_len c = 0
    \<and> \<not> tcb_locked c \<and> \<not> send_locked c
    \<and> messages_array w3 = messages_array w @ [ack] \<and> msg_flags ack = TCP_ACK \<and> msg_seq ack = rnd + 1
    \<and> msg_ack ack = th_seq (s_head sub) + 1 \<and> m_retries ack = RETRIES_SENDONCE"
proof -
  let ?p = "tcb_next w" and ?m = "s_head sub"
  define c0 where "c0 = new_conn (available_port w + 1) sin_port s_addr rnd rt"
  obtain w1 where w1: "connect fd sin_port s_addr rnd w = Inr (Wait_tcb ?p, w1)"
      "tcbs w1 = (tcbs w)(?p \<mapsto> c0\<lparr>snd_nxt := rnd + 1\<rparr>)"
      "messages_array w1 = messages_array w @ [tx_msg ?p c0 [] TCP_SYN RETRIES_CONN_MAX]" "oom w1 = oom w"
    using connect_ok [OF assms(1-3)] unfolding c0_def by blast
  have u: "0 < unat rnd" "unat rnd < 2147483648" using assms(4,5) by (simp_all add: word_less_nat_alt)
  have "unat (rnd + 1) = unat rnd + 1" using u by (simp add: unat_word_ariths)
  moreover have "unat (rnd - 1) = unat rnd - 1" using u by (simp add: unat_sub word_le_nat_alt)
  ultimately have r: "rnd < rnd + 1" "rnd - 1 \<le> rnd + 1" by (simp_all add: word_less_nat_alt word_le_nat_alt)
  let ?c = "c0\<lparr>snd_nxt := rnd + 1, rcv_nxt := th_seq ?m + 1, irs := th_seq ?m, snd_una := th_ack ?m,
      snd_wnd := ucast (th_window ?m), c_state := TCP_ESTABLISHED\<rparr>"
  have e: "\<forall>e \<in> set (messages_array w1). whole ?p (c0\<lparr>snd_nxt := rnd + 1, snd_una := th_ack ?m\<rparr>) e"
    using assms(6,9) r by (auto simp: whole_def w1(3) c0_def)
  obtain w2 where w2: "rx_segment ?p sub n w1 = Inr w2" "tcbs w2 = (tcbs w1)(?p \<mapsto> ?c)"
      "messages_array w2 = filter (\<lambda>e. \<not> acked ?p ?c e) (messages_array w1) @ [tx_msg ?p ?c [] TCP_ACK RETRIES_SENDONCE]"
      "signals w2 = signals w1 @ [Tcb_cond ?p]"
    using rx_syn_ack [of w1 ?p "c0\<lparr>snd_nxt := rnd + 1\<rparr>" sub ?c n] w1(2,4) assms(2,7,8,9) r e by (auto simp: c0_def)
  have k: "filter (\<lambda>e. \<not> acked ?p ?c e) (messages_array w1) = messages_array w"
    using assms(6,9) r by (auto simp: w1(3) acked_def c0_def filter_id_conv)
  have "connect_resume ?p w2 = Inr (Ret 0, w2\<lparr>tcbs := (tcbs w2)(?p \<mapsto> ?c)\<rparr>)"
    using connect_resume_Some [of w2 ?p ?c] w2(2) by (simp add: c0_def)
  then show ?thesis
    using w1 w2 k assms(9) by (auto simp: c0_def intro!: exI [of _ w1] exI [of _ w2])
qed

definition sample_syn_ack :: subuff where
  "sample_syn_ack = rx_sub 1522 (replicate 38 0 @ [0xf3, 1, 0, 0, 0xe8, 3, 0, 0, 0x50, 0x12, 0xff, 0xff, 0, 0, 0, 0])"

lemma sample_syn_ack_simps [simp]:
  "th_seq (s_head sample_syn_ack) = 499" "th_ack (s_head sample_syn_ack) = 1000"
  "th_flags (s_head sample_syn_ack) = 0x12" "th_window (s_head sample_syn_ack) = 65535"
  by (simp_all add: sample_syn_ack_def rx_sub_def put_bytes_def get32_def le32_def get16_def le16_def nth_append)

lemma sample_open [simp]:
  "open_sock 1000000 \<lparr>sk_fd = 1000000, sk_type = 1, sk_protocol = 0, sk_domain = 2, sk_conn_info = Some 0\<rparr> (sample_tcp c ms)"
  by (simp add: open_sock_def get_anp_socket_def sample_tcp_def)

lemma sample_tcp_route: "route_lookup 0x0A000005 (sample_tcp c ms) = Some (host_route sample_dev)"
  by (simp add: route_lookup_def sample_tcp_def rt_matches_def lo_route_def host_route_def sample_lo_def sample_dev_def)

theorem handshake_witness:
  "\<exists>w1 w2 w3 c. connect 1000000 0x5000 (htonl 0x0A000005) 999 (sample_tcp sample_tcb []) = Inr (Wait_tcb 1, w1)
     \<and> rx_segment 1 sample_syn_ack 0 w1 = Inr w2 \<and> connect_resume 1 w2 = Inr (Ret 0, w3) \<and> tcbs w3 1 = Some c
     \<and> c_state c = TCP_ESTABLISHED \<and> snd_nxt c = 1000 \<and> rcv_nxt c = 500"
proof -
  have n: "tcb_next (sample_tcp sample_tcb []) = 1" by (simp add: sample_tcp_def)
  show ?thesis
    using handshake [OF sample_open, of sample_tcb "[]" "htonl 0x0A000005" "host_route sample_dev" 999 sample_syn_ack "0x5000" 0]
    unfolding n by (auto simp: sample_tcp_route)
qed

section \<open>Closing\<close>

lemma close_ok:
  assumes "open_sock fd sock w" and "sk_conn_info sock = Some p" and "tcbs w p = Some c" and "c_state c = TCP_ESTABLISHED"
    and "\<not> tcb_locked c" and "\<not> send_locked c" and "\<not> oom w"
  shows "\<exists>w'. close fd w = Inr (Wait_tcb p, w') \<and> tcbs w' = (tcbs w)(p \<mapsto> c\<lparr>c_state := TCP_FIN_WAIT_1, snd_nxt := snd_nxt c + 1\<rparr>)
    \<and> messages_array w' = messages_array w @ [tx_msg p c [] TCP_FINACK RETRIES_SENDONCE] \<and> env_same w w'"
proof -
  let ?c = "c\<lparr>tcb_locked := True, c_state := TCP_FIN_WAIT_1\<rparr>"
  let ?w = "w\<lparr>tcbs := (tcbs w)(p \<mapsto> ?c)\<rparr>"
  obtain w' where w': "tcp_tx_ctl p TCP_FINACK RETRIES_SENDONCE ?w = Inr w'" "tcbs w' = (tcbs w)(p \<mapsto> bump_nxt ?c TCP_FINACK)"
      "messages_array w' = messages_array w @ [tx_msg p c [] TCP_FINACK RETRIES_SENDONCE]" "env_same ?w w'"
    using tcp_tx_ctl_world [of ?w p ?c RETRIES_SENDONCE TCP_FINACK] assms(6,7) by auto
  have "(bump_nxt ?c TCP_FINACK)\<lparr>tcb_locked := False\<rparr> = c\<lparr>c_state := TCP_FIN_WAIT_1, snd_nxt := snd_nxt c + 1\<rparr>"
    using assms(5) by (cases c) (simp add: bump_nxt_def)
  then show ?thesis
    unfolding close_def with_open_sock [OF assms(1)] using assms(2-5) w' by (simp add: env_same_def)
qed

text \<open>The timer that ends the connection.\<close>

definition close_timer :: "nat \<Rightarrow> 'a tcp_state_scheme \<Rightarrow> callback timer" where
  "close_timer p w = \<lparr>t_addr = t_next w, t_refcnt = 0, t_expires = tick w + TCP_WAIT_TIME, t_cancelled = False,
     t_handler = Close_connection p\<rparr>"

lemma rx_fin_wait_1:
  assumes c: "tcbs w p = Some c" "c_state c = TCP_FIN_WAIT_1" "\<not> tcb_locked c" "\<not> send_locked c" and o: "\<not> oom w"
    and f: "th_flags (s_head sub) AND TCP_ACK \<noteq> 0" "th_flags (s_head sub) AND TCP_FIN \<noteq> 0"
    and c': "c' = c\<lparr>rcv_nxt := rcv_nxt c + 1, c_state := TCP_TIME_WAIT\<rparr>"
  shows "\<exists>w'. rx_segment p sub 0 w = Inr w' \<and> tcbs w' = (tcbs w)(p \<mapsto> c')
    \<and> messages_array w' = messages_array w @ [tx_msg p c' [] TCP_ACK RETRIES_SENDONCE]
    \<and> timers w' = timers w @ [close_timer p w] \<and> oom w' = oom w \<and> anp_sockets_cache w' = anp_sockets_cache w
    \<and> fd_in_use w' = fd_in_use w \<and> signals w' = signals w"
proof -
  let ?c = "c'\<lparr>tcb_locked := True\<rparr>"
  let ?w = "w\<lparr>tcbs := (tcbs w)(p \<mapsto> ?c)\<rparr>"
  obtain w1 where w1: "tcp_tx_ctl p TCP_ACK RETRIES_SENDONCE ?w = Inr w1" "tcbs w1 = (tcbs w)(p \<mapsto> ?c)"
      "messages_array w1 = messages_array w @ [tx_msg p c' [] TCP_ACK RETRIES_SENDONCE]" "env_same ?w w1"
    using tcp_tx_ctl_world [of ?w p ?c RETRIES_SENDONCE TCP_ACK] o c(4) by (auto simp: c')
  have x: "c\<lparr>tcb_locked := True, send_locked := False, rcv_nxt := rcv_nxt c + 1, c_state := TCP_TIME_WAIT\<rparr> = ?c"
    "c'\<lparr>tcb_locked := False\<rparr> = c'"
    using c(3,4) by (cases c; simp add: c')+
  have "rx_segment p sub 0 w = timer_oneshot TCP_WAIT_TIME (Close_connection p) (w1\<lparr>tcbs := (tcbs w)(p \<mapsto> c')\<rparr>)"
    unfolding rx_segment_def tcp_rx_locked_def tcp_rx_switch_def tcp_rx_text_def tcp_rx_fin_def Let_def
    using c f w1(1,2) x by simp
  then show ?thesis
    using w1(3,4) o
    by (simp add: timer_oneshot_def timer_insert_eq timer_get_tick_def env_same_def close_timer_def)
qed

lemma close_connection_ok:
  assumes c: "tcbs w p = Some c" "\<not> tcb_locked c" and e: "\<forall>e \<in> set (messages_array w). whole p c e"
  shows "\<exists>w'. close_connection p w = Inr w' \<and> tcbs w' = (tcbs w)(p \<mapsto> c\<lparr>c_state := TCP_CLOSED\<rparr>)
    \<and> messages_array w' = filter (\<lambda>e. \<not> acked p c e) (messages_array w) \<and> signals w' = signals w @ [Tcb_cond p]
    \<and> oom w' = oom w \<and> anp_sockets_cache w' = anp_sockets_cache w \<and> fd_in_use w' = fd_in_use w"
proof -
  let ?c = "c\<lparr>tcb_locked := True\<rparr>"
  obtain w1 where w1: "stop_retransmit p (w\<lparr>tcbs := (tcbs w)(p \<mapsto> ?c)\<rparr>) = Inr w1" "tcbs w1 = (tcbs w)(p \<mapsto> ?c)"
      "messages_array w1 = filter (\<lambda>e. \<not> acked p ?c e) (messages_array w)" "env_same (w\<lparr>tcbs := (tcbs w)(p \<mapsto> ?c)\<rparr>) w1"
    using stop_retransmit_world [of "w\<lparr>tcbs := (tcbs w)(p \<mapsto> ?c)\<rparr>" p ?c] e by auto
  have "c\<lparr>c_state := TCP_CLOSED, tcb_locked := False\<rparr> = c\<lparr>c_state := TCP_CLOSED\<rparr>" using c(2) by simp
  then show ?thesis
    using c w1 by (simp add: close_connection_def env_same_def acked_def) (simp add: signal_def)
qed

lemma close_resume_ok:
  assumes "tcbs w p = Some c" and "\<not> tcb_locked c" and "c_state c = TCP_CLOSED"
  shows "close_resume fd p w = Inr (Ret 0, w\<lparr>tcbs := (tcbs w)(p := None),
    anp_sockets_cache := set_conn_info fd None (anp_sockets_cache w), uaf := uaf w + 1\<rparr>)"
  using assms by (simp add: close_resume_def)

lemma get_set_conn_info:
  assumes "get_anp_socket fd w = Some sock" and "anp_sockets_cache w' = set_conn_info fd q (anp_sockets_cache w)"
  shows "get_anp_socket fd w' = Some (sock\<lparr>sk_conn_info := q\<rparr>)"
  using assms by (simp add: get_anp_socket_def find_set_conn_info)

lemma close_sequence:
  assumes "open_sock fd sock w" and "sk_conn_info sock = Some p" and "tcbs w p = Some c" and "c_state c = TCP_ESTABLISHED"
    and "\<not> tcb_locked c" and "\<not> send_locked c" and "\<not> oom w" and "\<forall>e \<in> set (messages_array w). whole p c e"
    and "th_flags (s_head sub) AND TCP_ACK \<noteq> 0" and "th_flags (s_head sub) AND TCP_FIN \<noteq> 0"
  shows "\<exists>w1 w2 w3 w4 fin ack. close fd w = Inr (Wait_tcb p, w1) \<and> messages_array w1 = messages_array w @ [fin]
    \<and> m_tcb fin = p \<and> msg_flags fin = TCP_FINACK \<and> msg_seq fin = snd_nxt c
    \<and> rx_segment p sub 0 w1 = Inr w2 \<and> map_option c_state (tcbs w2 p) = Some TCP_TIME_WAIT
    \<and> messages_array w2 = messages_array w1 @ [ack] \<and> msg_flags ack = TCP_ACK \<and> msg_ack ack = rcv_nxt c + 1
    \<and> timers w2 = timers w1 @ [close_timer p w1]
    \<and> close_connection p w2 = Inr w3 \<and> last (signals w3) = Tcb_cond p
    \<and> close_resume fd p w3 = Inr (Ret 0, w4) \<and> tcbs w4 = (tcbs w)(p := None)
    \<and> get_anp_socket fd w4 = Some (sock\<lparr>sk_conn_info := None\<rparr>) \<and> fd_in_use w4 = fd_in_use w
    \<and> messages_array w4 = filter (\<lambda>e. \<not> (m_tcb e = p \<and> msg_seq e < snd_una c)) (messages_array w @ [fin, ack])"
proof -
  let ?c1 = "c\<lparr>c_state := TCP_FIN_WAIT_1, snd_nxt := snd_nxt c + 1\<rparr>"
  let ?c2 = "?c1\<lparr>rcv_nxt := rcv_nxt c + 1, c_state := TCP_TIME_WAIT\<rparr>"
  let ?fin = "tx_msg p c [] TCP_FINACK RETRIES_SENDONCE" and ?ack = "tx_msg p ?c2 [] TCP_ACK RETRIES_SENDONCE"
  obtain w1 where w1: "close fd w = Inr (Wait_tcb p, w1)" "tcbs w1 = (tcbs w)(p \<mapsto> ?c1)"
      "messages_array w1 = messages_array w @ [?fin]" "env_same w w1"
    using close_ok [OF assms(1-7)] by blast
  obtain w2 where w2: "rx_segment p sub 0 w1 = Inr w2" "tcbs w2 = (tcbs w)(p \<mapsto> ?c2)"
      "messages_array w2 = messages_array w1 @ [?ack]" "timers w2 = timers w1 @ [close_timer p w1]"
      "anp_sockets_cache w2 = anp_sockets_cache w1" "fd_in_use w2 = fd_in_use w1"
    using rx_fin_wait_1 [of w1 p ?c1 sub ?c2] w1(2,4) assms(5-7,9,10) by (auto simp: env_same_def)
  have e: "\<forall>e \<in> set (messages_array w2). whole p ?c2 e"
    using assms(8) unfolding w2(3) w1(3) by (auto simp: whole_def)
  obtain w3 where w3: "close_connection p w2 = Inr w3" "tcbs w3 = (tcbs w2)(p \<mapsto> ?c2\<lparr>c_state := TCP_CLOSED\<rparr>)"
      "messages_array w3 = filter (\<lambda>e. \<not> acked p ?c2 e) (messages_array w2)" "signals w3 = signals w2 @ [Tcb_cond p]"
      "anp_sockets_cache w3 = anp_sockets_cache w2" "fd_in_use w3 = fd_in_use w2"
    using close_connection_ok [of w2 p ?c2] w2(2) e assms(5) by auto
  let ?w4 = "w3\<lparr>tcbs := (tcbs w3)(p := None), anp_sockets_cache := set_conn_info fd None (anp_sockets_cache w3), uaf := uaf w3 + 1\<rparr>"
  have w4: "close_resume fd p w3 = Inr (Ret 0, ?w4)"
    using close_resume_ok [of w3 p "?c2\<lparr>c_state := TCP_CLOSED\<rparr>"] w3(2) assms(5) by simp
  have "get_anp_socket fd ?w4 = Some (sock\<lparr>sk_conn_info := None\<rparr>)"
    using assms(1) w3(5) w2(5) w1(4) by (intro get_set_conn_info [of fd w]) (simp_all add: open_sock_def env_same_def)
  moreover have "(\<lambda>e. \<not> acked p ?c2 e) = (\<lambda>e. \<not> (m_tcb e = p \<and> msg_seq e < snd_una c))" by (simp add: acked_def fun_eq_iff)
  ultimately show ?thesis
    using w1(1-3) w1(4) [unfolded env_same_def] w2 w3 w4
    by (intro exI [of _ w1] exI [of _ w2] exI [of _ w3] exI [of _ ?w4] exI [of _ ?fin] exI [of _ ?ack]) simp
qed

text \<open>C12. An orderly close. \<open>close\<close> on an established connection queues one FIN-ACK and waits; the peer's FIN with
  the acknowledgement leads to \<^verbatim>\<open>TIME_WAIT\<close>, acknowledges the FIN and sets a timer of ten ticks; its callback
  closes the connection and wakes the caller; \<open>close\<close> returns 0, the control block is gone and the socket has
  no connection, but its descriptor stays taken.\<close>

theorem orderly_close:
  assumes "open_sock fd sock w" and "sk_conn_info sock = Some p" and "tcbs w p = Some c" and "c_state c = TCP_ESTABLISHED"
    and "\<not> tcb_locked c" and "\<not> send_locked c" and "\<not> oom w" and "\<forall>e \<in> set (messages_array w). whole p c e"
    and "th_flags (s_head sub) AND TCP_ACK \<noteq> 0" and "th_flags (s_head sub) AND TCP_FIN \<noteq> 0"
  shows "\<exists>w1 w2 w3 w4 fin ack. close fd w = Inr (Wait_tcb p, w1) \<and> messages_array w1 = messages_array w @ [fin]
    \<and> m_tcb fin = p \<and> msg_flags fin = TCP_FINACK \<and> msg_seq fin = snd_nxt c
    \<and> rx_segment p sub 0 w1 = Inr w2 \<and> map_option c_state (tcbs w2 p) = Some TCP_TIME_WAIT
    \<and> messages_array w2 = messages_array w1 @ [ack] \<and> msg_flags ack = TCP_ACK \<and> msg_ack ack = rcv_nxt c + 1
    \<and> timers w2 = timers w1 @ [close_timer p w1]
    \<and> close_connection p w2 = Inr w3 \<and> last (signals w3) = Tcb_cond p
    \<and> close_resume fd p w3 = Inr (Ret 0, w4) \<and> tcbs w4 = (tcbs w)(p := None)
    \<and> get_anp_socket fd w4 = Some (sock\<lparr>sk_conn_info := None\<rparr>) \<and> fd_in_use w4 = fd_in_use w
    \<and> messages_array w4 = filter (\<lambda>e. \<not> (m_tcb e = p \<and> msg_seq e < snd_una c)) (messages_array w @ [fin, ack])"
  by (rule close_sequence [OF assms])

definition sample_fin :: subuff where
  "sample_fin = rx_sub 1522 (replicate 38 0 @ [0xf4, 1, 0, 0, 0xe9, 3, 0, 0, 0x50, 0x11, 0xff, 0xff, 0, 0, 0, 0])"

lemma sample_fin_simps [simp]:
  "th_seq (s_head sample_fin) = 500" "th_ack (s_head sample_fin) = 1001" "th_flags (s_head sample_fin) = 0x11"
  "s_end sample_fin = 1522"
  by (simp_all add: sample_fin_def rx_sub_def put_bytes_def get32_def le32_def nth_append)

theorem orderly_close_witness:
  "\<exists>w1 w2 w3 w4. close 1000000 (sample_tcp sample_tcb []) = Inr (Wait_tcb 0, w1) \<and> rx_segment 0 sample_fin 0 w1 = Inr w2
     \<and> close_connection 0 w2 = Inr w3 \<and> close_resume 1000000 0 w3 = Inr (Ret 0, w4) \<and> tcbs w4 0 = None"
  using orderly_close [OF sample_open, of 0 sample_tcb "[]" sample_tcb sample_fin] by auto



section \<open>Connections that get stuck\<close>

lemma rx_fin_established:
  assumes c: "tcbs w p = Some c" "c_state c = TCP_ESTABLISHED" "\<not> tcb_locked c" "\<not> send_locked c" "rcv_ok c" and o: "\<not> oom w"
    and f: "th_flags (s_head sub) AND TCP_ACK \<noteq> 0" "th_flags (s_head sub) AND TCP_FIN \<noteq> 0"
    and s: "54 + unat n \<le> s_end sub" "n = 0 \<or> th_seq (s_head sub) = rcv_nxt c"
    and e: "new_ack c (s_head sub) \<Longrightarrow> \<forall>e \<in> set (messages_array w). whole p (est_ack (s_head sub) c) e"
  shows "\<exists>w' c'. rx_segment p sub n w = Inr w' \<and> tcbs w' = (tcbs w)(p \<mapsto> c') \<and> c_state c' = TCP_ESTABLISHED \<and> tcb_locked c'
    \<and> rcv_contents c' = rcv_contents c @ accepted c (s_head sub) n \<and> anp_sockets_cache w' = anp_sockets_cache w
    \<and> rcv_nxt c' = rcv_nxt c + word_of_nat (length (accepted c (s_head sub) n)) + 1"
proof -
  let ?m = "s_head sub" and ?c = "c\<lparr>tcb_locked := True, send_locked := True\<rparr>"
  let ?w = "w\<lparr>tcbs := (tcbs w)(p \<mapsto> ?c)\<rparr>"
  let ?c1 = "(est_ack ?m ?c)\<lparr>snd_wnd := ucast (th_window ?m), send_locked := False\<rparr>"
  obtain w1 where w1: "tcp_rx_switch p ?m ?w = Inr (True, w1)" "tcbs w1 = (tcbs w)(p \<mapsto> ?c1)" "oom w1 = oom w"
      "anp_sockets_cache w1 = anp_sockets_cache w"
    using switch_established [of ?w p ?c ?m] c e by (auto simp: est_ack_locks)
  have r: "rcv_ok ?c1" "rcv_contents ?c1 = rcv_contents c" "rcv_nxt ?c1 = rcv_nxt c"
    using c(5) by (simp_all add: rcv_ok_def rcv_contents_def est_ack_def)
  have t: "rx_segment p sub n w = tcp_rx_text p sub n w1"
    using c f w1(1) by (simp add: rx_segment_def tcp_rx_locked_def)
  show ?thesis
  proof (cases "n = 0")
    case True
    have "tcp_rx_text p sub n w1 = Inr (w1\<lparr>tcbs := (tcbs w)(p \<mapsto> ?c1\<lparr>rcv_nxt := rcv_nxt c + 1\<rparr>)\<rparr>)"
      using True c f w1 r(3) by (simp add: tcp_rx_text_def tcp_rx_fin_def Let_def)
    then show ?thesis
      using t True w1 c(2) r
      by (intro exI [of _ "w1\<lparr>tcbs := (tcbs w)(p \<mapsto> ?c1\<lparr>rcv_nxt := rcv_nxt c + 1\<rparr>)\<rparr>"] exI [of _ "?c1\<lparr>rcv_nxt := rcv_nxt c + 1\<rparr>"])
        (simp add: rcv_contents_def est_ack_locks)
  next
    case False
    let ?sub = "sub\<lparr>s_dlen := n, s_payload := Some 54\<rparr>"
    let ?c2 = "rcv_store (get_bytes ?m 54 (unat n)) ?c1"
    obtain w2 where w2: "save_data_and_ack p ?sub w1 = Inr w2" "tcbs w2 = (tcbs w1)(p \<mapsto> ?c2)"
        "anp_sockets_cache w2 = anp_sockets_cache w1"
      using save_data_and_ack_ok [of w1 p ?c1 ?sub 54 ?c2] w1 r(1) o s(1) by auto
    have a: "accepted c ?m n = take (65535 - length (rcv_contents c)) (get_bytes ?m 54 (unat n))"
      using False s(2) by (simp add: accepted_def)
    note st = rcv_store_contents [OF r(1), of "get_bytes ?m 54 (unat n)", unfolded r(2,3)]
    let ?c3 = "?c2\<lparr>rcv_nxt := rcv_nxt ?c2 + 1\<rparr>"
    have "tcp_rx_text p sub n w1 = Inr (w2\<lparr>uaf := uaf w2 + 1, tcbs := (tcbs w)(p \<mapsto> ?c3)\<rparr>)"
      using False s(2) c f w1 w2 r(3) by (simp add: tcp_rx_text_def tcp_rx_fin_def Let_def)
    moreover have "rcv_contents ?c3 = rcv_contents ?c2" by (simp add: rcv_contents_def)
    moreover have "length (accepted c ?m n) = min (unat n) (65535 - length (rcv_contents c))" by (simp add: a min.commute)
    ultimately show ?thesis
      using t st w1(4) w2(3) c(2)
      by (intro exI [of _ "w2\<lparr>uaf := uaf w2 + 1, tcbs := (tcbs w)(p \<mapsto> ?c3)\<rparr>"] exI [of _ ?c3]) (simp add: a est_ack_locks)
  qed
qed



lemma rx_ack_fin_wait_1:
  assumes "tcbs w p = Some c" and "c_state c = TCP_FIN_WAIT_1" and "\<not> tcb_locked c" and "\<not> send_locked c"
    and "th_flags (s_head sub) AND TCP_ACK \<noteq> 0" and "th_flags (s_head sub) AND TCP_FIN = 0"
  shows "rx_segment p sub 0 w = Inr (w\<lparr>tcbs := (tcbs w)(p \<mapsto> c\<lparr>c_state := TCP_FIN_WAIT_2\<rparr>)\<rparr>)"
proof -
  have "c\<lparr>tcb_locked := True, send_locked := True, c_state := TCP_FIN_WAIT_2, send_locked := False, tcb_locked := False\<rparr>
      = c\<lparr>c_state := TCP_FIN_WAIT_2\<rparr>" using assms(3,4) by (cases c) simp
  then show ?thesis
    unfolding rx_segment_def tcp_rx_locked_def tcp_rx_switch_def tcp_rx_text_def tcp_rx_fin_def Let_def
    using assms by simp
qed

lemma rx_fin_wait_2:
  assumes c: "tcbs w p = Some c" "c_state c = TCP_FIN_WAIT_2" "\<not> tcb_locked c" "\<not> send_locked c"
  shows "\<exists>w'. rx_segment p sub n w = Inr w' \<and> tcbs w' = tcbs w \<and> messages_array w' = messages_array w
    \<and> timers w' = timers w \<and> signals w' = signals w"
proof -
  have "c\<lparr>tcb_locked := True, send_locked := True, tcb_locked := False, send_locked := False\<rparr> = c"
    using c(3,4) by (cases c) simp
  then have "rx_segment p sub n w = Inr (free_sub sub (w\<lparr>tcbs := (tcbs w)(p \<mapsto> c)\<rparr>))"
    unfolding rx_segment_def tcp_rx_locked_def tcp_rx_switch_def drop_pkt_def Let_def using c by simp
  moreover have "(tcbs w)(p \<mapsto> c) = tcbs w" using c(1) by (simp add: fun_upd_idem)
  ultimately show ?thesis by (simp add: free_sub_def)
qed

lemma rx_run_fin_wait_2:
  assumes "tcbs w p = Some c" and "c_state c = TCP_FIN_WAIT_2" and "\<not> tcb_locked c" and "\<not> send_locked c"
    and "\<forall>ev \<in> set evs. \<exists>sub n. ev = Segment sub n"
  shows "\<exists>w'. rx_run p evs w = Inr ([], w') \<and> tcbs w' = tcbs w \<and> messages_array w' = messages_array w
    \<and> timers w' = timers w \<and> signals w' = signals w"
  using assms
proof (induction evs arbitrary: w)
  case (Cons ev evs)
  obtain sub n where ev: "ev = Segment sub n" using Cons.prems(5) by auto
  obtain w1 where w1: "rx_segment p sub n w = Inr w1" "tcbs w1 = tcbs w" "messages_array w1 = messages_array w"
      "timers w1 = timers w" "signals w1 = signals w"
    using rx_fin_wait_2 [OF Cons.prems(1-4)] by blast
  show ?case using Cons.IH [of w1] Cons.prems w1 ev by simp
qed simp

text \<open>C35. The usual way to close fails: when the peer acknowledges the FIN before it sends its own, the connection
  enters \<^verbatim>\<open>FIN_WAIT_2\<close>, and every further segment, the peer's FIN included, is dropped without an
  answer; no timer is set and the thread that waits in \<open>close\<close> is never woken.\<close>

theorem close_never_returns:
  assumes "open_sock fd sock w" and "sk_conn_info sock = Some p" and "tcbs w p = Some c" and "c_state c = TCP_ESTABLISHED"
    and "\<not> tcb_locked c" and "\<not> send_locked c" and "\<not> oom w"
    and "th_flags (s_head sub) AND TCP_ACK \<noteq> 0" and "th_flags (s_head sub) AND TCP_FIN = 0"
    and "\<forall>ev \<in> set evs. \<exists>sub n. ev = Segment sub n"
  shows "\<exists>w1 w2. close fd w = Inr (Wait_tcb p, w1) \<and> rx_run p (Segment sub 0 # evs) w1 = Inr ([], w2)
    \<and> map_option c_state (tcbs w2 p) = Some TCP_FIN_WAIT_2 \<and> signals w2 = signals w \<and> timers w2 = timers w
    \<and> messages_array w2 = messages_array w1"
proof -
  let ?c = "c\<lparr>c_state := TCP_FIN_WAIT_1, snd_nxt := snd_nxt c + 1\<rparr>" and ?c' = "c\<lparr>snd_nxt := snd_nxt c + 1, c_state := TCP_FIN_WAIT_2\<rparr>"
  obtain w1 where w1: "close fd w = Inr (Wait_tcb p, w1)" "tcbs w1 = (tcbs w)(p \<mapsto> ?c)" "env_same w w1"
    using close_ok [OF assms(1-7)] by blast
  let ?w2 = "w1\<lparr>tcbs := (tcbs w)(p \<mapsto> ?c')\<rparr>"
  have "rx_segment p sub 0 w1 = Inr ?w2"
    using rx_ack_fin_wait_1 [of w1 p ?c sub] w1(2) assms(5,6,8,9) by simp
  moreover obtain w2 where "rx_run p evs ?w2 = Inr ([], w2)" "tcbs w2 = (tcbs w)(p \<mapsto> ?c')" "messages_array w2 = messages_array w1"
      "timers w2 = timers w1" "signals w2 = signals w1"
    using rx_run_fin_wait_2 [of ?w2 p ?c' evs] assms(5,6,10) by auto
  ultimately show ?thesis using w1(1,3) by (simp add: env_same_def)
qed

theorem close_never_returns_witness:
  "\<exists>w1 w2. close 1000000 (sample_tcp sample_tcb []) = Inr (Wait_tcb 0, w1)
     \<and> rx_run 0 [Segment sample_data_sub 0, Segment sample_fin 0] w1 = Inr ([], w2)
     \<and> map_option c_state (tcbs w2 0) = Some TCP_FIN_WAIT_2 \<and> signals w2 = []"
  using close_never_returns [OF sample_open, of 0 sample_tcb "[]" sample_tcb sample_data_sub "[Segment sample_fin 0]"]
  by (auto simp: sample_data_bytes)

end
