(* ===== verification/System.thy ===== *)
theory System
  imports Tcp_States
begin

text \<open>
  The whole stack as a transition system: the calls of the application, the resumption of calls that wait on a
  condition variable, received frames, ticks of the timer thread, the callbacks it starts, and changes of the
  allocator's fortune, in any order. A state is the state of the library together with the calls that wait. An
  operation that faults has no successor. Waiting calls may be resumed at any time, as condition
  variables allow spurious wake-ups. The locale \<open>transition_system\<close> carries the induction over reachable states.
\<close>

section \<open>Transition systems\<close>

locale transition_system =
  fixes start :: "'s \<Rightarrow> bool"
    and move :: "'s \<Rightarrow> 's \<Rightarrow> bool"
    and invar :: "'s \<Rightarrow> bool"
  assumes start_invar: "start s \<Longrightarrow> invar s"
    and move_invar: "invar s \<Longrightarrow> move s t \<Longrightarrow> invar t"
begin

lemma moves_invar: "move\<^sup>*\<^sup>* s t \<Longrightarrow> invar s \<Longrightarrow> invar t"
  by (induction rule: rtranclp_induct) (auto intro: move_invar)

lemma reachable_invar: "start s \<Longrightarrow> move\<^sup>*\<^sup>* s t \<Longrightarrow> invar t"
  using moves_invar start_invar by blast

text \<open>A relation that every move from a good state respects holds along every run from a reachable state.\<close>

lemma reachable_rel:
  assumes "start s" and "move\<^sup>*\<^sup>* s t" and "move\<^sup>*\<^sup>* t u"
    and "\<And>x. R x x" and "\<And>x y z. R x y \<Longrightarrow> R y z \<Longrightarrow> R x z" and "\<And>x y. invar x \<Longrightarrow> move x y \<Longrightarrow> R x y"
  shows "R t u"
  using assms(3)
proof (induction rule: rtranclp_induct)
  case (step x y)
  have "invar x" using reachable_invar [OF assms(1)] assms(2) step.hyps(1) by (metis rtranclp_trans)
  then show ?case using assms(5) [OF step.IH] assms(6) [OF _ step.hyps(2)] by blast
qed (rule assms(4))

end

section \<open>The stack in motion\<close>

datatype pending = Connecting nat | Closing int nat | Sending nat "u8 list" u32 | Receiving nat u32

type_synonym sys = "tcp_state \<times> pending list"

inductive sys_step :: "sys \<Rightarrow> sys \<Rightarrow> bool" where
  call_socket: "socket d t pr w = Inr (r, w') \<Longrightarrow> sys_step (w, cs) (w', cs)"
| call_connect: "connect fd sp ad rnd w = Inr (r, w') \<Longrightarrow>
    sys_step (w, cs) (w', (case r of Wait_tcb p \<Rightarrow> Connecting p # cs | _ \<Rightarrow> cs))"
| wake_connect: "Connecting p \<in> set cs \<Longrightarrow> connect_resume p w = Inr (r, w') \<Longrightarrow>
    sys_step (w, cs) (w', remove1 (Connecting p) cs)"
| call_send: "send fd buf w = Inr (r, w') \<Longrightarrow>
    sys_step (w, cs) (w', (case r of Wait_send p n \<Rightarrow> Sending p buf n # cs | _ \<Rightarrow> cs))"
| wake_send: "Sending p buf n \<in> set cs \<Longrightarrow>
    tcp_tx_resume p buf (word_of_nat (length buf)) n TCP_ACK RETRIES_INFINITE w = Inr (r, w') \<Longrightarrow>
    sys_step (w, cs) (w', (case r of Waiting k \<Rightarrow> [Sending p buf k] | Sent k \<Rightarrow> []) @ remove1 (Sending p buf n) cs)"
| call_recv: "recv fd n w = Inr (r, w') \<Longrightarrow>
    sys_step (w, cs) (w', (case r of Wait_tcb p \<Rightarrow> Receiving p (word_of_nat n) # cs | _ \<Rightarrow> cs))"
| wake_recv: "Receiving p n \<in> set cs \<Longrightarrow> read_bytes_resume p n w = Inr (bs, w') \<Longrightarrow>
    sys_step (w, cs) (w', remove1 (Receiving p n) cs)"
| call_close: "close fd w = Inr (r, w') \<Longrightarrow>
    sys_step (w, cs) (w', (case r of Wait_tcb p \<Rightarrow> Closing fd p # cs | _ \<Rightarrow> cs))"
| wake_close: "Closing fd p \<in> set cs \<Longrightarrow> close_resume fd p w = Inr (r, w') \<Longrightarrow>
    sys_step (w, cs) (w', remove1 (Closing fd p) cs)"
| frames: "netdev_rx_loop rs w = Inr w' \<Longrightarrow> sys_step (w, cs) (w', cs)"
| round: "sys_step (w, cs) (timers_round busy w, cs)"
| callback: "cb \<in> set (spawned w) \<Longrightarrow> run_callback env cb (w\<lparr>spawned := remove1 cb (spawned w)\<rparr>) = Inr (Some w') \<Longrightarrow>
    sys_step (w, cs) (w', cs)"
| memory: "sys_step (w, cs) (w\<lparr>oom := b\<rparr>, cs)"

definition sys_init :: "sys \<Rightarrow> bool" where
  "sys_init s \<longleftrightarrow> (\<exists>ret w. init_anp_netstack (loaded ret) = Inr w \<and> s = (w, []))"

section \<open>The invariant\<close>

text \<open>Every socket has a descriptor of its own that is marked as taken, and a connection of its own that is alive.\<close>

definition socks_ok :: "tcp_state \<Rightarrow> bool" where
  "socks_ok w \<longleftrightarrow> distinct (map sk_fd (anp_sockets_cache w))
     \<and> (\<forall>s \<in> set (anp_sockets_cache w). FD_START_VAL \<le> sk_fd s \<and> sk_fd s < FD_START_VAL + int FD_COUNT
          \<and> fd_in_use w (nat (sk_fd s - FD_START_VAL)))
     \<and> (\<forall>s \<in> set (anp_sockets_cache w). \<forall>p. sk_conn_info s = Some p \<longrightarrow> p \<in> dom (tcbs w))
     \<and> (\<forall>s \<in> set (anp_sockets_cache w). \<forall>t \<in> set (anp_sockets_cache w). \<forall>p.
          sk_conn_info s = Some p \<and> sk_conn_info t = Some p \<longrightarrow> sk_fd s = sk_fd t)"

definition tcbs_ok :: "tcp_state \<Rightarrow> bool" where
  "tcbs_ok w \<longleftrightarrow> (\<forall>p c. tcbs w p = Some c \<longrightarrow> p < tcb_next w \<and> rcv_ok c \<and> \<not> unused (c_state c))"

definition msgs_ok :: "tcp_state \<Rightarrow> bool" where
  "msgs_ok w \<longleftrightarrow> (\<forall>p \<in> owners w. p < tcb_next w)"

text \<open>A callback that will close a connection finds it in \<^verbatim>\<open>TIME_WAIT\<close> or closed.\<close>

definition closes_ok :: "tcp_state \<Rightarrow> bool" where
  "closes_ok w \<longleftrightarrow> (\<forall>p \<in> closes w. p < tcb_next w \<and> (p \<in> dom (tcbs w) \<longrightarrow> ending w p))"

definition calls_ok :: "tcp_state \<Rightarrow> pending list \<Rightarrow> bool" where
  "calls_ok w cs \<longleftrightarrow> (\<forall>fd p. Closing fd p \<in> set cs \<longrightarrow> p < tcb_next w
     \<and> (\<forall>s \<in> set (anp_sockets_cache w). sk_conn_info s = Some p \<longrightarrow> sk_fd s = fd))"

definition sys_ok :: "sys \<Rightarrow> bool" where
  "sys_ok s \<longleftrightarrow> (case s of (w, cs) \<Rightarrow> socks_ok w \<and> tcbs_ok w \<and> msgs_ok w \<and> closes_ok w \<and> calls_ok w cs)"

lemma sys_ok_pair: "sys_ok (w, cs) \<longleftrightarrow> socks_ok w \<and> tcbs_ok w \<and> msgs_ok w \<and> closes_ok w \<and> calls_ok w cs"
  by (simp add: sys_ok_def)

lemma evolves_rel: "evolves w w' \<Longrightarrow> tcbs w' p = Some c' \<Longrightarrow> \<exists>c. tcbs w p = Some c \<and> conn_le c c'"
  unfolding evolves_def by (metis option_rel_Some2)

lemma evolves_dom: "evolves w w' \<Longrightarrow> dom (tcbs w') = dom (tcbs w)"
  unfolding evolves_def using rel_option_dom by blast

text \<open>Control blocks only move forward, and the address of a freed one is not used again.\<close>

definition advances :: "tcp_state \<Rightarrow> tcp_state \<Rightarrow> bool" where
  "advances w w' \<longleftrightarrow> tcb_next w \<le> tcb_next w'
     \<and> (\<forall>p c'. p < tcb_next w \<and> tcbs w' p = Some c' \<longrightarrow> (\<exists>c. tcbs w p = Some c \<and> conn_le c c'))"

lemma advances_refl: "advances w w"
  by (auto simp: advances_def)

lemma advances_trans: "advances a b \<Longrightarrow> advances b c \<Longrightarrow> advances a c"
  unfolding advances_def by (meson conn_le_trans le_trans less_le_trans)

lemma evolves_sys_ok:
  assumes e: "evolves w w'" and ok: "sys_ok (w, cs)"
  shows "sys_ok (w', cs) \<and> advances w w'"
proof -
  have same: "anp_sockets_cache w' = anp_sockets_cache w" "fd_in_use w' = fd_in_use w" "tcb_next w' = tcb_next w"
    using e by (simp_all add: evolves_def)
  have t: "p < tcb_next w" if "p \<in> dom (tcbs w)" for p using ok that by (auto simp: sys_ok_pair tcbs_ok_def)
  have "socks_ok w'" using ok unfolding sys_ok_pair socks_ok_def same evolves_dom [OF e] by blast
  moreover have "tcbs_ok w'"
    unfolding tcbs_ok_def
  proof (intro allI impI)
    fix p c' assume "tcbs w' p = Some c'"
    then obtain c where "tcbs w p = Some c" "conn_le c c'" using evolves_rel [OF e] by blast
    then show "p < tcb_next w' \<and> rcv_ok c' \<and> \<not> unused (c_state c')"
      using ok same(3) tcp_path_unused by (auto simp: sys_ok_pair tcbs_ok_def conn_le_def)
  qed
  moreover have "msgs_ok w'"
    using e ok t unfolding msgs_ok_def sys_ok_pair evolves_def by (metis Un_iff subsetD)
  moreover have "closes_ok w'"
    unfolding closes_ok_def
  proof (intro ballI)
    fix p assume "p \<in> closes w'"
    then have "p \<in> closes w \<or> ending w' p" using e by (auto simp: evolves_def)
    then show "p < tcb_next w' \<and> (p \<in> dom (tcbs w') \<longrightarrow> ending w' p)"
    proof
      assume "p \<in> closes w"
      then show ?thesis
        using ok same(3) evolves_dom [OF e] ending_evolves [OF e] by (auto simp: sys_ok_pair closes_ok_def)
    next
      assume "ending w' p"
      then show ?thesis using t [of p] same(3) evolves_dom [OF e] by (auto simp: ending_def)
    qed
  qed
  moreover have "calls_ok w' cs" using ok unfolding calls_ok_def sys_ok_pair same by blast
  moreover have "advances w w'" using evolves_rel [OF e] same(3) by (simp add: advances_def)
  ultimately show ?thesis by (simp add: sys_ok_pair)
qed

section \<open>Steps that open or end connections\<close>

lemma scan_fd_free: "scan_fd used i = Some j \<Longrightarrow> j < FD_COUNT \<and> \<not> used j"
  by (induction used i rule: scan_fd.induct) (auto simp: scan_fd.simps split: if_splits)

lemma socket_sys_ok:
  assumes r: "socket d t pr w = Inr (r, w')" and ok: "sys_ok (w, cs)"
  shows "sys_ok (w', cs) \<and> advances w w'"
proof (cases "is_socket_supported d t pr \<and> \<not> oom w \<and> scan_fd (fd_in_use w) 0 \<noteq> None")
  case False
  then have "evolves w w'"
    using r by (auto simp: socket_def fail_def get_next_fd_def split: if_splits option.splits)
  then show ?thesis using evolves_sys_ok ok by blast
next
  case True
  then obtain i where i: "scan_fd (fd_in_use w) 0 = Some i" by auto
  let ?s = "\<lparr>sk_fd = int i + FD_START_VAL, sk_type = t, sk_protocol = pr, sk_domain = d, sk_conn_info = None\<rparr>"
  have w': "w' = w\<lparr>fd_in_use := (fd_in_use w)(i := True), anp_sockets_cache := anp_sockets_cache w @ [?s]\<rparr>"
    using r True i by (auto simp: socket_def get_next_fd_def)
  have f: "i < FD_COUNT" "\<not> fd_in_use w i" using scan_fd_free [OF i] by auto
  have "fd_in_use w (nat (x - FD_START_VAL))" if "x \<in> sk_fd ` set (anp_sockets_cache w)" for x
    using ok that by (auto simp: sys_ok_pair socks_ok_def)
  from this [of "int i + FD_START_VAL"] have "int i + FD_START_VAL \<notin> sk_fd ` set (anp_sockets_cache w)"
    using f(2) by auto
  then have "socks_ok w'" using ok f(1) unfolding w' by (auto simp: sys_ok_pair socks_ok_def)
  then show ?thesis
    using ok unfolding w' by (simp add: sys_ok_pair tcbs_ok_def msgs_ok_def owners_def closes_ok_def closes_def ending_def calls_ok_def advances_def)
qed

lemma set_conn_infoD:
  "s \<in> set (set_conn_info fd q socks) \<Longrightarrow>
   \<exists>s0 \<in> set socks. sk_fd s = sk_fd s0 \<and> sk_conn_info s = (if sk_fd s0 = fd then q else sk_conn_info s0)"
  by (auto simp: set_conn_info_def)

lemma map_fd_set_conn_info [simp]: "map sk_fd (set_conn_info fd q socks) = map sk_fd socks"
  by (induction socks) (simp_all add: set_conn_info_def)

text \<open>A connection with a fresh control block.\<close>

lemma fresh_conn_sys_ok:
  assumes ok: "sys_ok (w, cs)"
    and w': "tcb_next w' = tcb_next w + 1" "anp_sockets_cache w' = set_conn_info fd (Some (tcb_next w)) (anp_sockets_cache w)"
      "fd_in_use w' = fd_in_use w" "tcbs w' = (tcbs w)(tcb_next w \<mapsto> c)" "owners w' \<subseteq> insert (tcb_next w) (owners w)"
      "closes w' = closes w"
    and c: "rcv_ok c" "\<not> unused (c_state c)"
  shows "sys_ok (w', cs) \<and> advances w w'"
proof -
  have old: "p < tcb_next w" if "p \<in> dom (tcbs w)" for p using ok that by (auto simp: sys_ok_pair tcbs_ok_def)
  have conn: "\<exists>s0 \<in> set (anp_sockets_cache w). sk_fd s = sk_fd s0
      \<and> sk_conn_info s = (if sk_fd s0 = fd then Some (tcb_next w) else sk_conn_info s0)"
    if "s \<in> set (anp_sockets_cache w')" for s using set_conn_infoD that unfolding w'(2) by blast
  have live: "p < tcb_next w" if "s \<in> set (anp_sockets_cache w)" "sk_conn_info s = Some p" for s p
    using ok that old by (auto simp: sys_ok_pair socks_ok_def)
  have "socks_ok w'"
    unfolding socks_ok_def
  proof (intro conjI ballI allI impI; (elim conjE)?)
    show "distinct (map sk_fd (anp_sockets_cache w'))" using ok by (simp add: w'(2) sys_ok_pair socks_ok_def)
  next
    fix s assume "s \<in> set (anp_sockets_cache w')"
    from conn [OF this] obtain s0 where s0: "s0 \<in> set (anp_sockets_cache w)" "sk_fd s = sk_fd s0"
      "sk_conn_info s = (if sk_fd s0 = fd then Some (tcb_next w) else sk_conn_info s0)" by blast
    show "FD_START_VAL \<le> sk_fd s" "sk_fd s < FD_START_VAL + int FD_COUNT" "fd_in_use w' (nat (sk_fd s - FD_START_VAL))"
      using ok s0(1) unfolding s0(2) w'(3) sys_ok_pair socks_ok_def by blast+
    show "p \<in> dom (tcbs w')" if "sk_conn_info s = Some p" for p
      using ok s0 that by (auto simp: w'(4) sys_ok_pair socks_ok_def split: if_splits)
    fix t p assume "t \<in> set (anp_sockets_cache w')" and e: "sk_conn_info s = Some p" "sk_conn_info t = Some p"
    from conn [OF this(1)] obtain t0 where t0: "t0 \<in> set (anp_sockets_cache w)" "sk_fd t = sk_fd t0"
      "sk_conn_info t = (if sk_fd t0 = fd then Some (tcb_next w) else sk_conn_info t0)" by blast
    show "sk_fd s = sk_fd t"
    proof (cases "sk_fd s0 = fd \<or> sk_fd t0 = fd")
      case True
      then show ?thesis using s0 t0 e live [OF s0(1), of p] live [OF t0(1), of p] by (metis less_irrefl option.inject)
    next
      case False
      then show ?thesis using s0 t0 e ok unfolding sys_ok_pair socks_ok_def by (metis (no_types, lifting))
    qed
  qed
  moreover have "tcbs_ok w'" using ok c unfolding sys_ok_pair tcbs_ok_def w' by (auto simp: less_Suc_eq split: if_splits)
  moreover have "msgs_ok w'" using ok w'(5) unfolding sys_ok_pair msgs_ok_def w'(1) by (fastforce simp: less_Suc_eq)
  moreover have "closes_ok w'"
    using ok unfolding sys_ok_pair closes_ok_def w'(1,6) by (auto simp: ending_def w'(4) less_Suc_eq split: if_splits)
  moreover have "calls_ok w' cs"
    unfolding calls_ok_def
  proof (intro allI impI conjI ballI)
    fix fd' p assume p: "Closing fd' p \<in> set cs"
    then show "p < tcb_next w'" using ok unfolding sys_ok_pair calls_ok_def w'(1) by fastforce
    fix s assume s: "s \<in> set (anp_sockets_cache w')" "sk_conn_info s = Some p"
    have "p < tcb_next w" using ok p unfolding sys_ok_pair calls_ok_def by blast
    then show "sk_fd s = fd'" using conn [OF s(1)] s(2) ok p unfolding sys_ok_pair calls_ok_def by (auto split: if_splits)
  qed
  moreover have "advances w w'" by (simp add: advances_def w'(1,4))
  ultimately show ?thesis by (simp add: sys_ok_pair)
qed

text \<open>A control block that is freed: no socket refers to it any more.\<close>

lemma freed_conn_sys_ok:
  assumes ok: "sys_ok (w, cs)"
    and w': "tcb_next w' = tcb_next w" "tcbs w' = (tcbs w)(p := None)" "owners w' = owners w" "closes w' = closes w"
    and fd: "\<And>s. s \<in> set (anp_sockets_cache w') \<Longrightarrow> fd_in_use w' (nat (sk_fd s - FD_START_VAL))"
    and s: "distinct (map sk_fd (anp_sockets_cache w'))"
      "\<And>s. s \<in> set (anp_sockets_cache w') \<Longrightarrow> sk_conn_info s \<noteq> Some p
        \<and> (\<exists>s0 \<in> set (anp_sockets_cache w). sk_fd s = sk_fd s0 \<and> (sk_conn_info s = sk_conn_info s0 \<or> sk_conn_info s = None))"
  shows "sys_ok (w', cs) \<and> advances w w'"
proof -
  have "socks_ok w'"
    unfolding socks_ok_def
  proof (intro conjI ballI allI impI; (elim conjE)?)
    fix s1 assume "s1 \<in> set (anp_sockets_cache w')"
    from s(2) [OF this] fd [OF this] obtain s0 where s0: "sk_conn_info s1 \<noteq> Some p" "s0 \<in> set (anp_sockets_cache w)"
      "sk_fd s1 = sk_fd s0" "sk_conn_info s1 = sk_conn_info s0 \<or> sk_conn_info s1 = None"
      "fd_in_use w' (nat (sk_fd s1 - FD_START_VAL))" by blast
    show "FD_START_VAL \<le> sk_fd s1" "sk_fd s1 < FD_START_VAL + int FD_COUNT"
      using ok s0(2) unfolding s0(3) sys_ok_pair socks_ok_def by blast+
    show "fd_in_use w' (nat (sk_fd s1 - FD_START_VAL))" by (rule s0(5))
    show "q \<in> dom (tcbs w')" if "sk_conn_info s1 = Some q" for q
      using ok s0 that by (auto simp: w'(2) sys_ok_pair socks_ok_def)
    fix t q assume "t \<in> set (anp_sockets_cache w')" and e: "sk_conn_info s1 = Some q" "sk_conn_info t = Some q"
    from s(2) [OF this(1)] obtain t0 where "t0 \<in> set (anp_sockets_cache w)" "sk_fd t = sk_fd t0"
      "sk_conn_info t = sk_conn_info t0 \<or> sk_conn_info t = None" by blast
    with s0 e ok show "sk_fd s1 = sk_fd t" unfolding sys_ok_pair socks_ok_def by (metis option.distinct(1))
  qed (rule s(1))
  moreover have "tcbs_ok w'" using ok unfolding sys_ok_pair tcbs_ok_def w' by (auto split: if_splits)
  moreover have "msgs_ok w'" using ok unfolding sys_ok_pair msgs_ok_def w'(1,3) by blast
  moreover have "closes_ok w'"
    using ok unfolding sys_ok_pair closes_ok_def w'(1,4) by (auto simp: ending_def w'(2) split: if_splits)
  moreover have "calls_ok w' cs"
    using ok s(2) unfolding sys_ok_pair calls_ok_def w'(1) by (metis option.distinct(1))
  moreover have "advances w w'" by (auto simp: advances_def w'(1,2))
  ultimately show ?thesis by (simp add: sys_ok_pair)
qed

lemma sock_fd_unique:
  "socks_ok w \<Longrightarrow> s \<in> set (anp_sockets_cache w) \<Longrightarrow> t \<in> set (anp_sockets_cache w) \<Longrightarrow> sk_fd s = sk_fd t \<Longrightarrow> s = t"
  unfolding socks_ok_def by (metis distinct_map inj_onD)

lemma close_resume_sys_ok:
  assumes r: "close_resume fd p w = Inr (r, w')" and ok: "sys_ok (w, cs)" and c: "Closing fd p \<in> set cs"
  shows "sys_ok (w', cs) \<and> advances w w'"
proof -
  obtain c w1 where w1: "lock_tcb p w = Inr w1" "tcbs w p = Some c" "w1 = w\<lparr>tcbs := (tcbs w)(p \<mapsto> c\<lparr>tcb_locked := True\<rparr>)\<rparr>"
    using r by (auto simp: close_resume_def dest: lock_tcb_InrD)
  show ?thesis
  proof (cases "c_state c = TCP_CLOSED")
    case False
    then have "unlock_tcb p w1 = Inr w'" using r w1 by (simp add: close_resume_def)
    then have "evolves w w'" using evoD [OF evo_locks(1) w1(1)] evoD [OF evo_locks(2)] evolves_trans by blast
    then show ?thesis using evolves_sys_ok ok by blast
  next
    case True
    then have w': "w' = w\<lparr>tcbs := (tcbs w)(p := None), anp_sockets_cache := set_conn_info fd None (anp_sockets_cache w), uaf := uaf w + 1\<rparr>"
      using r w1 by (simp add: close_resume_def)
    have cl: "sk_fd s = fd" if "s \<in> set (anp_sockets_cache w)" "sk_conn_info s = Some p" for s
      using ok c that unfolding sys_ok_pair calls_ok_def by blast
    have d: "sk_conn_info s \<noteq> Some p \<and> (\<exists>s0 \<in> set (anp_sockets_cache w). sk_fd s = sk_fd s0 \<and> (sk_conn_info s = sk_conn_info s0 \<or> sk_conn_info s = None))"
      if "s \<in> set (anp_sockets_cache w')" for s
    proof -
      have "s \<in> set (set_conn_info fd None (anp_sockets_cache w))" using that by (simp add: w')
      from set_conn_infoD [OF this] show ?thesis using cl by (metis option.distinct(1))
    qed
    show ?thesis
    proof (rule freed_conn_sys_ok [OF ok _ _ _ _ _ _ d])
      show "fd_in_use w' (nat (sk_fd s - FD_START_VAL))" if s: "s \<in> set (anp_sockets_cache w')" for s
      proof -
        obtain s0 where "s0 \<in> set (anp_sockets_cache w)" "sk_fd s = sk_fd s0" using d [OF s] by blast
        then show ?thesis using ok by (simp add: w' sys_ok_pair socks_ok_def)
      qed
      show "distinct (map sk_fd (anp_sockets_cache w'))" using ok by (simp add: w' sys_ok_pair socks_ok_def)
    qed (simp_all add: w' owners_def closes_def)
  qed
qed

lemma free_anp_socket_sys_ok:
  assumes r: "free_anp_socket sock w = Inr w'" and ok: "sys_ok (w, cs)" and m: "sock \<in> set (anp_sockets_cache w)"
  shows "sys_ok (w', cs) \<and> advances w w'"
proof -
  let ?i = "nat (sk_fd sock - FD_START_VAL)" and ?l = "remove1 sock (anp_sockets_cache w)"
  let ?w = "w\<lparr>fd_in_use := (fd_in_use w)(?i := False), anp_sockets_cache := ?l\<rparr>"
  have w': "w' = (case sk_conn_info sock of None \<Rightarrow> ?w | Some p \<Rightarrow> ?w\<lparr>tcbs := (tcbs w)(p := None)\<rparr>)"
    using r by (auto simp: free_anp_socket_def free_fd_entry_def fd_index_def Let_def split: if_splits option.splits)
  have so: "socks_ok w" using ok by (simp add: sys_ok_pair)
  have dist: "distinct (map sk_fd (anp_sockets_cache w))" using so by (simp add: socks_ok_def)
  have l: "s \<in> set (anp_sockets_cache w) \<and> s \<noteq> sock" if "s \<in> set ?l" for s
    using that dist by (simp add: distinct_map)
  have fd: "((fd_in_use w)(?i := False)) (nat (sk_fd s - FD_START_VAL))" if "s \<in> set ?l" for s
  proof -
    have "sk_fd s \<noteq> sk_fd sock" using sock_fd_unique [OF so] l [OF that] m by blast
    moreover have "FD_START_VAL \<le> sk_fd s" "FD_START_VAL \<le> sk_fd sock" "fd_in_use w (nat (sk_fd s - FD_START_VAL))"
      using so l [OF that] m unfolding socks_ok_def by blast+
    ultimately show ?thesis by (simp add: eq_nat_nat_iff)
  qed
  have other: "sk_conn_info s \<noteq> Some p" if "s \<in> set ?l" "sk_conn_info sock = Some p" for s p
    using l [OF that(1)] that(2) sock_fd_unique [OF so] so m unfolding socks_ok_def by (metis (no_types, lifting))
  have d: "distinct (map sk_fd ?l)" using dist by (simp add: distinct_map inj_on_def)
  define q where "q = (case sk_conn_info sock of None \<Rightarrow> tcb_next w | Some p \<Rightarrow> p)"
  have n: "tcb_next w \<notin> dom (tcbs w)" using ok by (auto simp: sys_ok_pair tcbs_ok_def)
  have q: "sk_conn_info s \<noteq> Some q" if "s \<in> set ?l" for s
    using other [OF that] l [OF that] n so unfolding q_def socks_ok_def by (cases "sk_conn_info sock") auto
  have c: "anp_sockets_cache w' = ?l" "fd_in_use w' = (fd_in_use w)(?i := False)" "tcb_next w' = tcb_next w"
      "owners w' = owners w" "closes w' = closes w"
    by (simp_all add: w' owners_def closes_def split: option.splits)
  have t: "tcbs w' = (tcbs w)(q := None)"
    using n by (cases "sk_conn_info sock") (simp_all add: w' q_def fun_upd_idem domIff)
  show ?thesis
  proof (rule freed_conn_sys_ok [OF ok c(3) t c(4,5)])
    show "distinct (map sk_fd (anp_sockets_cache w'))" using d by (simp add: c(1))
    fix s assume "s \<in> set (anp_sockets_cache w')"
    then have s: "s \<in> set ?l" by (simp add: c(1))
    show "fd_in_use w' (nat (sk_fd s - FD_START_VAL))" using fd [OF s] by (simp add: c(2))
    show "sk_conn_info s \<noteq> Some q \<and> (\<exists>s0 \<in> set (anp_sockets_cache w). sk_fd s = sk_fd s0 \<and> (sk_conn_info s = sk_conn_info s0 \<or> sk_conn_info s = None))"
      using q [OF s] l [OF s] by blast
  qed
qed

lemma get_anp_socketD: "get_anp_socket fd w = Some sock \<Longrightarrow> sock \<in> set (anp_sockets_cache w) \<and> sk_fd sock = fd"
proof -
  have "find_socket l fd = Some sock \<Longrightarrow> sock \<in> set l \<and> sk_fd sock = fd" for l
    by (induction l) (auto split: if_splits)
  then show "get_anp_socket fd w = Some sock \<Longrightarrow> sock \<in> set (anp_sockets_cache w) \<and> sk_fd sock = fd"
    by (simp add: get_anp_socket_def)
qed

lemma zero_tcb_simps [simp]: "rcv_buff_len zero_tcb = 0" "c_state zero_tcb = TCP_LISTEN"
  by (simp_all add: zero_tcb_def)

lemma connect_sys_ok:
  assumes r: "connect fd sp ad rnd w = Inr (r, w')" and ok: "sys_ok (w, cs)"
  shows "sys_ok (w', cs) \<and> advances w w'"
proof (cases "\<exists>sock. open_sock fd sock w")
  case False
  then have "evolves w w'"
    using r by (auto simp: connect_def with_socket_def is_anp_sockfd_def fd_index_def open_sock_def fail_def
        split: if_splits option.splits)
  then show ?thesis using evolves_sys_ok ok by blast
next
  case True
  then obtain sock where os: "open_sock fd sock w" by blast
  then have m: "sock \<in> set (anp_sockets_cache w)" using get_anp_socketD unfolding open_sock_def by blast
  show ?thesis
  proof (cases "oom w")
    case True
    then obtain w1 where w1: "free_anp_socket sock w = Inr w1" "w' = w1\<lparr>errno := ENOMEM\<rparr>"
      using r unfolding connect_def with_open_sock [OF os] by (auto simp: fail_def)
    have f: "sys_ok (w1, cs)" "advances w w1" using free_anp_socket_sys_ok [OF w1(1) ok m] by auto
    show ?thesis using evolves_sys_ok [OF _ f(1), of w'] advances_trans [OF f(2)] by (simp add: w1(2))
  next
    case False
    show ?thesis
    proof (cases "route_lookup (ntohl ad) w")
      case None
      then have "route_lookup (ntohl ad) (w\<lparr>tcb_next := a, anp_sockets_cache := b, available_port := d\<rparr>) = None" for a b d
        by (simp add: route_lookup_def)
      then have "w' = w\<lparr>tcb_next := tcb_next w + 1, anp_sockets_cache := set_conn_info fd (Some (tcb_next w)) (anp_sockets_cache w),
          available_port := available_port w + 1, tcbs := (tcbs w)(tcb_next w \<mapsto> zero_tcb\<lparr>local_port := available_port w + 1,
          remote_port := ntohs sp, remote_ip := ntohl ad\<rparr>), errno := ENETUNREACH\<rparr>"
        using r False unfolding connect_def with_open_sock [OF os] Let_def get_port_eq by (auto simp: fail_def)
      then show ?thesis
        by (intro fresh_conn_sys_ok [OF ok]) (auto simp: owners_def closes_def rcv_ok_def unused_def)
    next
      case (Some rt)
      let ?c = "new_conn (available_port w + 1) sp ad rnd rt"
      have w': "tcbs w' = (tcbs w)(tcb_next w \<mapsto> ?c\<lparr>snd_nxt := rnd + 1\<rparr>)" "tcb_next w' = tcb_next w + 1"
          "messages_array w' = messages_array w @ [tx_msg (tcb_next w) ?c [] TCP_SYN RETRIES_CONN_MAX]"
          "anp_sockets_cache w' = set_conn_info fd (Some (tcb_next w)) (anp_sockets_cache w)"
          "fd_in_use w' = fd_in_use w" "timers w' = timers w" "spawned w' = spawned w"
        using connect_ok [OF os False Some, of sp rnd] r by auto
      show ?thesis
        by (rule fresh_conn_sys_ok [OF ok w'(2,4,5,1)])
          (simp_all add: owners_def closes_def w' rcv_ok_def unused_def)
    qed
  qed
qed

section \<open>Every step\<close>

lemma sys_ok_calls:
  "sys_ok (w, cs) \<Longrightarrow> (\<And>fd p. Closing fd p \<in> set cs' \<Longrightarrow> Closing fd p \<in> set cs) \<Longrightarrow> sys_ok (w, cs')"
  unfolding sys_ok_pair calls_ok_def by blast

lemma close_waits:
  assumes "close fd w = Inr (Wait_tcb p, w')"
  shows "\<exists>sock. get_anp_socket fd w = Some sock \<and> sk_conn_info sock = Some p"
  using assms by (auto simp: close_def with_socket_def fail_def split: if_splits option.splits)

lemma close_sys_ok:
  assumes r: "close fd w = Inr (r, w')" and ok: "sys_ok (w, cs)"
  shows "sys_ok (w', (case r of Wait_tcb p \<Rightarrow> Closing fd p # cs | _ \<Rightarrow> cs)) \<and> advances w w'"
proof -
  have e: "evolves w w'" using evoD [OF evo_close r] by simp
  have o: "sys_ok (w', cs)" "advances w w'" using evolves_sys_ok [OF e ok] by auto
  have "sys_ok (w', Closing fd p # cs)" if rp: "r = Wait_tcb p" for p
  proof -
    obtain sock where s: "get_anp_socket fd w = Some sock" "sk_conn_info sock = Some p" using close_waits r rp by blast
    have so: "socks_ok w'" "anp_sockets_cache w' = anp_sockets_cache w" using o e by (auto simp: sys_ok_pair evolves_def)
    have m: "sock \<in> set (anp_sockets_cache w')" "sk_fd sock = fd" using get_anp_socketD [OF s(1)] so(2) by auto
    then have "p \<in> dom (tcbs w')" using so(1) s(2) unfolding socks_ok_def by blast
    then have "p < tcb_next w'" using o by (auto simp: sys_ok_pair tcbs_ok_def)
    moreover have "\<forall>s \<in> set (anp_sockets_cache w'). sk_conn_info s = Some p \<longrightarrow> sk_fd s = fd"
      using so(1) m s(2) unfolding socks_ok_def by blast
    ultimately show ?thesis using o unfolding sys_ok_pair calls_ok_def by auto
  qed
  then show ?thesis using o by (simp split: call_result.split)
qed

lemma netdev_rx_loop_evolves: "netdev_rx_loop rs w = Inr w' \<Longrightarrow> evolves w w'"
proof (induction rs arbitrary: w)
  case (Cons r rs)
  obtain sub w1 where a: "alloc_sub ANP_MTU_15_MAX_SIZE w = Inr (sub, w1)" "evolves w w1"
    using Cons.prems by (auto simp: alloc_sub_def split: if_splits)
  show ?case
  proof (cases r)
    case None
    then show ?thesis using Cons.prems a evolves_trans [OF a(2) evolves_other(2)] by auto
  next
    case (Some frame)
    then obtain w2 where w2: "process_packet (sub\<lparr>s_head := put_bytes (s_head sub) 0 (take 1522 frame)\<rparr>) w1 = Inr w2"
        "netdev_rx_loop rs w2 = Inr w'"
      using Cons.prems a by auto
    have "evolves w1 w2" using evoD [OF evo_process_packet w2(1)] by simp
    then show ?thesis using a(2) Cons.IH [OF w2(2)] evolves_trans by blast
  qed
qed simp

lemma callback_evolves:
  assumes cb: "cb \<in> set (spawned w)" and r: "run_callback env cb (w\<lparr>spawned := remove1 cb (spawned w)\<rparr>) = Inr (Some w')"
    and ok: "closes_ok w"
  shows "evolves w w'"
proof -
  let ?w = "w\<lparr>spawned := remove1 cb (spawned w)\<rparr>"
  have w: "evolves w ?w"
    using set_remove1_subset [of cb "spawned w"]
    by (auto simp: evolves_def owners_def closes_def rel_option_reflI)
  have "evolves ?w w'"
  proof (cases cb)
    case (Icmp_reply_handler info)
    then show ?thesis using r evoD [OF evo_icmp_reply_handler] by (auto simp: run_callback_def)
  next
    case Tcp_retransmit_handler
    then show ?thesis using r tcp_retransmit_handler_evolves by (simp add: run_callback_def)
  next
    case (Close_connection p)
    then have c: "close_connection p ?w = Inr w'" using r by (auto simp: run_callback_def)
    have "p \<in> closes w" using cb Close_connection by (simp add: closes_def)
    moreover have "p \<in> dom (tcbs w)" using c by (auto simp: close_connection_def dest!: lock_tcb_InrD)
    ultimately have "ending ?w p" using ok by (simp add: closes_ok_def ending_def)
    then show ?thesis using evoD [OF evo_close_connection c] by simp
  qed
  with w show ?thesis by (rule evolves_trans)
qed

lemma evolves_calls:
  assumes "evolves w w'" and "sys_ok (w, cs)" and "\<And>fd p. Closing fd p \<in> set cs' \<Longrightarrow> Closing fd p \<in> set cs"
  shows "sys_ok (w', cs') \<and> advances w w'"
  using evolves_sys_ok [OF assms(1,2)] sys_ok_calls [OF _ assms(3)] by blast

lemma remove1_in: "x \<in> set (remove1 y xs) \<Longrightarrow> x \<in> set xs"
  using set_remove1_subset by fastforce

lemma sys_step_ok:
  assumes "sys_step s t" and "sys_ok s"
  shows "sys_ok t \<and> advances (fst s) (fst t)"
  using assms
proof (induction rule: sys_step.induct)
  case (call_connect fd sp ad rnd w r w' cs)
  then have o: "sys_ok (w', cs)" "advances w w'" using connect_sys_ok by auto
  have "sys_ok (w', case r of Wait_tcb p \<Rightarrow> Connecting p # cs | _ \<Rightarrow> cs)"
    by (rule sys_ok_calls [OF o(1)]) (auto split: call_result.splits)
  with o(2) show ?case by simp
next
  case (wake_connect p cs w r w')
  then show ?case using evolves_calls [OF evoD [OF evo_connect_resume wake_connect(2)], of cs] by (auto dest: remove1_in)
next
  case (call_send fd buf w r w' cs)
  then show ?case
    using evolves_calls [OF evoD [OF evo_send call_send(1)], of cs "case r of Wait_send p n \<Rightarrow> Sending p buf n # cs | _ \<Rightarrow> cs"]
    by (auto split: call_result.splits)
next
  case (wake_send p buf n cs w r w')
  then show ?case
    using evolves_calls [OF evoD [OF evo_tcp_tx_resume wake_send(2)], of cs
      "(case r of Waiting k \<Rightarrow> [Sending p buf k] | Sent k \<Rightarrow> []) @ remove1 (Sending p buf n) cs"]
    by (auto split: tx_result.splits dest: remove1_in)
next
  case (call_recv fd n w r w' cs)
  then show ?case
    using evolves_calls [OF evoD [OF evo_recv call_recv(1)], of cs "case r of Wait_tcb p \<Rightarrow> Receiving p (word_of_nat n) # cs | _ \<Rightarrow> cs"]
    by (auto split: call_result.splits)
next
  case (wake_recv p n cs w bs w')
  then show ?case using evolves_calls [OF evoD [OF evo_read_bytes_resume wake_recv(2)], of cs] by (auto dest: remove1_in)
next
  case (wake_close fd p cs w r w')
  then have o: "sys_ok (w', cs)" "advances w w'" using close_resume_sys_ok by auto
  have "sys_ok (w', remove1 (Closing fd p) cs)" by (rule sys_ok_calls [OF o(1)]) (rule remove1_in)
  with o(2) show ?case by simp
next
  case (callback cb w env w' cs)
  then have "evolves w w'" by (intro callback_evolves) (simp_all add: sys_ok_pair)
  then show ?case using evolves_sys_ok callback.prems by simp
next
  case (memory w cs b)
  then show ?case using evolves_sys_ok [OF core_evolves, of "w\<lparr>oom := b\<rparr>" w cs] by (simp add: closes_def)
qed (auto dest: socket_sys_ok close_sys_ok evolves_sys_ok [OF netdev_rx_loop_evolves] evolves_sys_ok [OF timers_round_evolves])

lemma sys_init_ok:
  assumes "sys_init s"
  shows "sys_ok s"
  using assms unfolding sys_init_def init_anp_netstack_def loaded_def
  by (auto simp: client_netdev_init_ok route_init_ok sys_ok_pair socks_ok_def tcbs_ok_def msgs_ok_def owners_def
      closes_ok_def closes_def calls_ok_def)

interpretation anp: transition_system sys_init sys_step sys_ok
  by unfold_locales (use sys_init_ok sys_step_ok in blast)+

section \<open>Properties of every run\<close>

text \<open>C3. In every state that the stack can reach, whatever the application calls, whatever frames arrive and however
  the threads interleave: the sockets have different descriptors, each of them in the table's range and marked as
  taken; a socket's connection is a live control block that no other socket has; no connection is ever in
  \<^verbatim>\<open>CLOSE_WAIT\<close>, \<^verbatim>\<open>CLOSING\<close> or \<^verbatim>\<open>LAST_ACK\<close>; the fill level of a receive buffer never exceeds its size; and every queued
  message belongs to a control block that has been allocated.\<close>

theorem reachable_invariant:
  assumes "sys_init s" and "sys_step\<^sup>*\<^sup>* s (w, cs)"
  shows "distinct (map sk_fd (anp_sockets_cache w))
    \<and> (\<forall>s \<in> set (anp_sockets_cache w). FD_START_VAL \<le> sk_fd s \<and> sk_fd s < FD_START_VAL + int FD_COUNT
      \<and> fd_in_use w (nat (sk_fd s - FD_START_VAL))
      \<and> (\<forall>p. sk_conn_info s = Some p \<longrightarrow> (\<exists>c. tcbs w p = Some c)
          \<and> (\<forall>t \<in> set (anp_sockets_cache w). sk_conn_info t = Some p \<longrightarrow> t = s)))
    \<and> (\<forall>p c. tcbs w p = Some c \<longrightarrow> rcv_buff_len c \<le> TCP_RCV_MAX
      \<and> c_state c \<notin> {TCP_CLOSE_WAIT, TCP_CLOSING, TCP_LAST_ACK})
    \<and> (\<forall>e \<in> set (messages_array w). m_tcb e < tcb_next w)"
proof (intro conjI)
  have ok: "sys_ok (w, cs)" by (rule anp.reachable_invar [OF assms])
  then have so: "socks_ok w" by (simp add: sys_ok_pair)
  show "distinct (map sk_fd (anp_sockets_cache w))" using so by (simp add: socks_ok_def)
  show "\<forall>p c. tcbs w p = Some c \<longrightarrow> rcv_buff_len c \<le> TCP_RCV_MAX \<and> c_state c \<notin> {TCP_CLOSE_WAIT, TCP_CLOSING, TCP_LAST_ACK}"
    using ok by (simp add: sys_ok_pair tcbs_ok_def rcv_ok_def unused_def)
  show "\<forall>e \<in> set (messages_array w). m_tcb e < tcb_next w"
    using ok by (simp add: sys_ok_pair msgs_ok_def owners_def)
  have "t = s" if "s \<in> set (anp_sockets_cache w)" "t \<in> set (anp_sockets_cache w)" "sk_conn_info s = Some p" "sk_conn_info t = Some p" for s t p
    using that so sock_fd_unique [OF so that(2,1)] unfolding socks_ok_def by blast
  then show "\<forall>s \<in> set (anp_sockets_cache w). FD_START_VAL \<le> sk_fd s \<and> sk_fd s < FD_START_VAL + int FD_COUNT
      \<and> fd_in_use w (nat (sk_fd s - FD_START_VAL))
      \<and> (\<forall>p. sk_conn_info s = Some p \<longrightarrow> (\<exists>c. tcbs w p = Some c)
          \<and> (\<forall>t \<in> set (anp_sockets_cache w). sk_conn_info t = Some p \<longrightarrow> t = s))"
    using so unfolding socks_ok_def by blast
qed

text \<open>The state after start-up, and after the application has opened a socket.\<close>

definition started :: tcp_state where
  "started = (loaded (\<lambda>f. int (length f)))\<lparr>cdev_ext := Some sample_dev, cdev_lo := Some sample_lo,
     routes := [lo_route sample_lo, host_route sample_dev, gw_route sample_dev], spawned := [Tcp_retransmit_handler]\<rparr>"

definition one_socket :: tcp_state where
  "one_socket = started\<lparr>fd_in_use := (fd_in_use started)(0 := True), anp_sockets_cache :=
     [\<lparr>sk_fd = 1000000, sk_type = 1, sk_protocol = 0, sk_domain = 2, sk_conn_info = None\<rparr>]\<rparr>"

lemma sys_init_started: "sys_init (started, [])"
  unfolding sys_init_def init_anp_netstack_def
  by (rule exI [of _ "\<lambda>f. int (length f)"], rule exI [of _ started])
    (simp add: loaded_def client_netdev_init_ok route_init_ok started_def sample_dev_def sample_lo_def)

lemma socket_started: "socket 2 1 0 started = Inr (Ret 1000000, one_socket)"
  by (simp add: socket_def is_socket_supported_def get_next_fd_def scan_fd.simps one_socket_def started_def loaded_def)

lemma one_socket_reachable: "sys_step\<^sup>*\<^sup>* (started, []) (one_socket, [])"
  using call_socket [OF socket_started] by (rule r_into_rtranclp)

theorem reachable_invariant_witness:
  "distinct (map sk_fd (anp_sockets_cache one_socket)) \<and> fd_in_use one_socket 0"
  using reachable_invariant [OF sys_init_started one_socket_reachable] by (simp add: one_socket_def)


text \<open>A run for the examples: the application connects to 10.0.0.5, port 80.\<close>

lemma one_socket_connects:
  "\<exists>w'. connect 1000000 0x5000 (htonl 0x0A000005) 999 one_socket = Inr (Wait_tcb 0, w')
    \<and> tcbs w' 0 = Some ((new_conn 49155 0x5000 (htonl 0x0A000005) 999 (host_route sample_dev))\<lparr>snd_nxt := 1000\<rparr>) \<and> tcb_next w' = 1
    \<and> anp_sockets_cache w' = [\<lparr>sk_fd = 1000000, sk_type = 1, sk_protocol = 0, sk_domain = 2, sk_conn_info = Some 0\<rparr>]"
proof -
  have "route_lookup 0x0A000005 one_socket = Some (host_route sample_dev)"
    by (simp add: route_lookup_def one_socket_def started_def rt_matches_def lo_route_def host_route_def sample_lo_def sample_dev_def)
  moreover have "open_sock 1000000 \<lparr>sk_fd = 1000000, sk_type = 1, sk_protocol = 0, sk_domain = 2, sk_conn_info = None\<rparr> one_socket"
    by (simp add: open_sock_def get_anp_socket_def one_socket_def)
  moreover have "\<not> oom one_socket" "tcb_next one_socket = 0" "available_port one_socket = 49154"
    by (simp_all add: one_socket_def started_def loaded_def)
  ultimately show ?thesis
    using connect_ok [of 1000000 _ one_socket "htonl 0x0A000005" "host_route sample_dev" "0x5000" 999]
    by (force simp: set_conn_info_def one_socket_def)
qed


lemma find_tcb_total:
  "\<forall>s \<in> set socks. \<forall>p. sk_conn_info s = Some p \<longrightarrow> p \<in> dom (tcbs w) \<Longrightarrow> \<exists>r. find_tcb socks lp li rp ri w = Inr r"
  by (induction socks) (auto split: option.split)

definition serves :: "anp_socket \<Rightarrow> nat \<Rightarrow> u16 \<Rightarrow> u32 \<Rightarrow> u16 \<Rightarrow> u32 \<Rightarrow> 'a tcp_state_scheme \<Rightarrow> bool" where
  "serves s p lp li rp ri w \<longleftrightarrow> sk_conn_info s = Some p
     \<and> (\<exists>c. tcbs w p = Some c \<and> local_port c = lp \<and> local_ip c = li \<and> remote_port c = rp \<and> remote_ip c = ri)"

lemma find_tcb_Some: "find_tcb socks lp li rp ri w = Inr (Some p) \<Longrightarrow> \<exists>s \<in> set socks. serves s p lp li rp ri w"
  by (induction socks) (auto simp: serves_def the_tcb_def split: option.splits if_splits)

lemma find_tcb_None: "find_tcb socks lp li rp ri w = Inr None \<Longrightarrow> s \<in> set socks \<Longrightarrow> \<not> serves s p lp li rp ri w"
  by (induction socks) (auto simp: serves_def split: option.splits if_splits)

text \<open>C28. In every reachable state the lookup of the control block for a received segment is defined: it yields the
  connection of a socket whose four addresses match, and nothing only if there is none.\<close>

theorem get_tcb_defined:
  assumes "sys_init s" and "sys_step\<^sup>*\<^sup>* s (w, cs)"
  shows "\<exists>r. get_tcb lp li rp ri w = Inr r
    \<and> (case r of None \<Rightarrow> \<forall>s \<in> set (anp_sockets_cache w). \<forall>p. \<not> serves s p lp li rp ri w
       | Some p \<Rightarrow> \<exists>s \<in> set (anp_sockets_cache w). serves s p lp li rp ri w)"
proof -
  have "\<forall>s \<in> set (anp_sockets_cache w). \<forall>p. sk_conn_info s = Some p \<longrightarrow> p \<in> dom (tcbs w)"
    using anp.reachable_invar [OF assms] by (simp add: sys_ok_pair socks_ok_def)
  then obtain r where r: "find_tcb (anp_sockets_cache w) lp li rp ri w = Inr r" using find_tcb_total by blast
  then show ?thesis by (cases r) (auto simp: get_tcb_def dest: find_tcb_Some find_tcb_None)
qed

theorem get_tcb_defined_witness: "get_tcb 1 2 3 4 one_socket = Inr None"
proof -
  obtain r where "get_tcb 1 2 3 4 one_socket = Inr r"
      "case r of None \<Rightarrow> True | Some p \<Rightarrow> \<exists>s \<in> set (anp_sockets_cache one_socket). serves s p 1 2 3 4 one_socket"
    using get_tcb_defined [OF sys_init_started one_socket_reachable, of 1 2 3 4] by (auto split: option.splits)
  then show ?thesis by (cases r) (simp_all add: one_socket_def serves_def)
qed

end
