(* ===== verification/Startup.thy ===== *)
theory Startup
  imports System
begin

text \<open>
  The constructor of the library, \<^verbatim>\<open>src/init.c\<close>, with the set-up of the TAP device in \<^verbatim>\<open>src/tap_netdev.c\<close> and
  \<open>run_bash_command\<close> of \<^verbatim>\<open>src/utilities.c\<close>. What the operating system answers is the record \<open>os\<close>, an argument of the
  definitions: the results of \<^verbatim>\<open>open\<close> and of the \<^verbatim>\<open>ioctl\<close> that creates the device, of \<^verbatim>\<open>system\<close> for a command line, and of
  \<^verbatim>\<open>pthread_create\<close>, and where \<^verbatim>\<open>dlsym\<close> finds a function of the C library. The state \<open>boot\<close> adds to that of the stack the pointers to the overridden functions, through which a call
  that ends with \<open>Pass_on\<close> goes on, the device, the command lines that have been run and the threads that
  have been created, both in order. \<^verbatim>\<open>unsetenv\<close> and \<^verbatim>\<open>srand\<close> have no effect on this state.

  \<open>constructor_starts_stack\<close> ties the constructor to the initial states of \<open>System\<close>.
\<close>

section \<open>The TAP device\<close>

record tap_netdev =
  tun_fd :: int
  devname :: string

record os =
  os_open :: int
  os_tunsetiff :: "int \<Rightarrow> string \<Rightarrow> int \<times> string"
  os_system :: "string \<Rightarrow> int"
  os_pthread_create :: "nat \<Rightarrow> int"
  os_errno :: int
  os_dlsym :: "string \<Rightarrow> nat option"
  os_socket :: int
  os_siocgifhwaddr :: "int \<Rightarrow> string \<Rightarrow> int \<times> u8 list"

text \<open>The pointers \<^verbatim>\<open>__start_main\<close>, \<^verbatim>\<open>_send\<close>, \<^verbatim>\<open>_recv\<close>, \<^verbatim>\<open>_connect\<close>, \<^verbatim>\<open>_socket\<close> and \<^verbatim>\<open>_close\<close> of \<^verbatim>\<open>src/anpwrapper.c\<close>, which are null at first.\<close>

record overridden =
  o_start_main :: "nat option"
  o_send :: "nat option"
  o_recv :: "nat option"
  o_connect :: "nat option"
  o_socket :: "nat option"
  o_close :: "nat option"

definition function_override_init :: "os \<Rightarrow> overridden" where
  "function_override_init sys =
     \<lparr>o_start_main = os_dlsym sys ''__libc_start_main'', o_send = os_dlsym sys ''send'', o_recv = os_dlsym sys ''recv'',
      o_connect = os_dlsym sys ''connect'', o_socket = os_dlsym sys ''socket'', o_close = os_dlsym sys ''close''\<rparr>"

record boot =
  stack_of :: tcp_state
  libc :: overridden
  tdev :: "tap_netdev option"
  commands :: "string list"
  threads :: "nat list"
  stop :: bool

abbreviation CMDBUFLEN :: nat where "CMDBUFLEN \<equiv> 128"
abbreviation IFNAMSIZ :: nat where "IFNAMSIZ \<equiv> 16"
abbreviation EINVAL :: int where "EINVAL \<equiv> 22"

definition ANP_SUBNET_TAP :: string where "ANP_SUBNET_TAP = ''10.0.0.0/24''"

text \<open>\<^verbatim>\<open>vsnprintf\<close> for formats whose only directive is \<^verbatim>\<open>%s\<close>: at most \<open>n - 1\<close> characters are written.\<close>

fun format_s :: "string \<Rightarrow> string list \<Rightarrow> string" where
  "format_s (c # d # cs) (a # args) =
     (if c = CHR ''%'' \<and> d = CHR ''s'' then a @ format_s cs args else c # format_s (d # cs) (a # args))"
| "format_s cs args = cs"

definition vsnprintf :: "nat \<Rightarrow> string \<Rightarrow> string list \<Rightarrow> string" where
  "vsnprintf n fmt params = take (n - 1) (format_s fmt params)"

definition run_bash_command :: "os \<Rightarrow> string \<Rightarrow> string list \<Rightarrow> boot \<Rightarrow> int \<times> boot" where
  "run_bash_command sys cmd params b =
     (let exe_buffer = vsnprintf CMDBUFLEN cmd params
      in (os_system sys exe_buffer, b\<lparr>commands := commands b @ [exe_buffer]\<rparr>))"

text \<open>
  The \<^verbatim>\<open>close\<close> on the error path is the one of \<^verbatim>\<open>src/anpwrapper.c\<close>, which overrides that of the C library in this file too.
\<close>

definition tdev_alloc :: "os \<Rightarrow> tap_netdev \<Rightarrow> boot \<Rightarrow> (int \<times> tap_netdev \<times> boot) outcome" where
  "tdev_alloc sys dev b =
     (let fd = os_open sys
      in if fd < 0 then Inl (Exit 1)
         else
           let (err, ifr_name) = os_tunsetiff sys fd (devname dev)
           in if err < 0 then bindo (close fd (stack_of b)) (\<lambda>(r, w). Inr (err, dev, b\<lparr>stack_of := w\<rparr>))
              else Inr (err, dev\<lparr>devname := ifr_name, tun_fd := fd\<rparr>, b))"

definition tdev_init :: "os \<Rightarrow> boot \<Rightarrow> boot outcome" where
  "tdev_init sys b =
     (if oom (stack_of b) then Inl (Exit (- EINVAL))
      else bindo (tdev_alloc sys \<lparr>tun_fd = 0, devname = ''''\<rparr> b) (\<lambda>(ret, dev, b).
        if ret \<noteq> 0 then Inl (Exit (- ret))
        else
          let b = b\<lparr>tdev := Some dev\<rparr>;
              (ret, b) = run_bash_command sys ''ip link set dev %s up'' [devname dev] b
          in if ret \<noteq> 0 then Inl (Exit (- ret))
          else
            let (ret, b) = run_bash_command sys ''ip route add dev %s %s'' [devname dev, ANP_SUBNET_TAP] b
            in if ret \<noteq> 0 then Inl (Exit (- ret))
            else
              let (ret, b) = run_bash_command sys ''ip address add dev %s local %s'' [devname dev, ANP_IP_TAP_DEV] b
              in if ret \<noteq> 0 then Inl (Exit (- ret)) else Inr b))"

section \<open>Threads and the constructor\<close>

abbreviation THREAD_RX :: nat where "THREAD_RX \<equiv> 0"
abbreviation THREAD_TIMER :: nat where "THREAD_TIMER \<equiv> 1"
abbreviation THREAD_SENDER :: nat where "THREAD_SENDER \<equiv> 2"

definition create_thread :: "os \<Rightarrow> nat \<Rightarrow> boot \<Rightarrow> boot outcome" where
  "create_thread sys tid b =
     (if os_pthread_create sys tid \<noteq> 0 then Inl (Exit (- os_errno sys)) else Inr (b\<lparr>threads := threads b @ [tid]\<rparr>))"

text \<open>The receiving thread runs \<open>netdev_rx_loop\<close>, the timer thread \<open>timers_start\<close>, the sending thread one pass of
  \<open>tcp_retransmit_handler\<close>, which is handed to the stack like the callback of a timer.\<close>

definition init_threads :: "os \<Rightarrow> boot \<Rightarrow> boot outcome" where
  "init_threads sys b =
     bindo (create_thread sys THREAD_RX b) (\<lambda>b.
     bindo (create_thread sys THREAD_TIMER b) (\<lambda>b.
     bindo (create_thread sys THREAD_SENDER b) (\<lambda>b.
       let w = stack_of b in Inr (b\<lparr>stack_of := w\<lparr>spawned := spawned w @ [Tcp_retransmit_handler]\<rparr>\<rparr>))))"

definition anp_constructor :: "os \<Rightarrow> boot \<Rightarrow> boot outcome" where
  "anp_constructor sys b =
     bindo (tdev_init sys (b\<lparr>libc := function_override_init sys\<rparr>)) (\<lambda>b.
     bindo (client_netdev_init (stack_of b)) (\<lambda>w.
     bindo (route_init w) (\<lambda>w.
       init_threads sys (b\<lparr>stack_of := w\<rparr>))))"

definition not_booted :: "(u8 list \<Rightarrow> int) \<Rightarrow> boot" where
  "not_booted ret = \<lparr>stack_of = loaded ret, libc = \<lparr>o_start_main = None, o_send = None, o_recv = None, o_connect = None, o_socket = None, o_close = None\<rparr>,
     tdev = None, commands = [], threads = [], stop = False\<rparr>"

text \<open>
  \<open>ctrl_c_handler\<close> asks the receiving thread to stop. The thread looks at the flag before each round of \<open>netdev_rx_loop\<close>; a round of \<open>rx_thread\<close> is what \<^verbatim>\<open>read\<close> returns in it and
  whether the handler has run meanwhile.
\<close>

definition ctrl_c_handler :: "boot \<Rightarrow> boot" where
  "ctrl_c_handler b = b\<lparr>stop := True\<rparr>"

fun rx_thread :: "(u8 list option \<times> bool) list \<Rightarrow> boot \<Rightarrow> boot outcome" where
  "rx_thread [] b = Inr b"
| "rx_thread ((r, interrupted) # rounds) b =
     (if stop b then Inr b
      else bindo (netdev_rx_loop [r] (stack_of b)) (\<lambda>w.
        let b = b\<lparr>stack_of := w\<rparr>; b = (if interrupted then ctrl_c_handler b else b)
        in if r = None then Inr b else rx_thread rounds b))"

text \<open>The rounds that take place: up to the first error, or the one in which the handler runs.\<close>

fun rounds_run :: "(u8 list option \<times> bool) list \<Rightarrow> (u8 list option \<times> bool) list" where
  "rounds_run [] = []"
| "rounds_run ((r, interrupted) # rounds) = (r, interrupted) # (if interrupted \<or> r = None then [] else rounds_run rounds)"

lemma netdev_rx_loop_Cons:
  "netdev_rx_loop (r # rs) w = bindo (netdev_rx_loop [r] w) (\<lambda>w. if r = None then Inr w else netdev_rx_loop rs w)"
  by (cases r) (auto simp: bindo_def split: sum.splits)

lemma rx_thread_stopped: "stop b \<Longrightarrow> rx_thread rounds b = Inr b"
  by (cases rounds) auto

lemma rx_thread_eq:
  "\<not> stop b \<Longrightarrow> rx_thread rounds b =
     bindo (netdev_rx_loop (map fst (rounds_run rounds)) (stack_of b)) (\<lambda>w.
       Inr (b\<lparr>stack_of := w, stop := \<exists>x \<in> set (rounds_run rounds). snd x\<rparr>))"
proof (induction rounds arbitrary: b)
  case (Cons x rounds)
  obtain r interrupted where x: "x = (r, interrupted)" by (cases x)
  have f: "b\<lparr>stack_of := w, stop := False\<rparr> = b\<lparr>stack_of := w\<rparr>" for w using Cons.prems by simp
  note netdev_rx_loop.simps(2) [simp del]
  show ?case
  proof (cases "netdev_rx_loop [r] (stack_of b)")
    case (Inl e)
    then show ?thesis
      using Cons.prems by (simp add: x netdev_rx_loop_Cons [of r "map fst (rounds_run rounds)"])
  next
    case (Inr w)
    then show ?thesis
      using Cons.prems Cons.IH [of "b\<lparr>stack_of := w\<rparr>"] f
      by (auto simp: x netdev_rx_loop_Cons [of r "map fst (rounds_run rounds)"] rx_thread_stopped ctrl_c_handler_def Let_def)
  qed
qed (simp add: bindo_def)

text \<open>
  \<open>get_mac\<close> of \<^verbatim>\<open>src/anp_netdev.c\<close>, the hardware address of an interface of the host. Its \<^verbatim>\<open>socket\<close> and \<^verbatim>\<open>close\<close> are those of this library; the first passes the call on to the C library,
  which answers \<open>os_socket\<close>.
\<close>

abbreviation SOCK_DGRAM :: int where "SOCK_DGRAM \<equiv> 2"

definition get_mac :: "os \<Rightarrow> string \<Rightarrow> boot \<Rightarrow> (int \<times> u8 list \<times> boot) outcome" where
  "get_mac sys iface b =
     bindo (socket AF_INET SOCK_DGRAM 0 (stack_of b)) (\<lambda>(r, w).
     bindo (case r of Ret n \<Rightarrow> Inr n | _ \<Rightarrow> if o_socket (libc b) = None then Inl NullPointer else Inr (os_socket sys)) (\<lambda>fd.
       if fd < 0 then Inl (Exit (- 1))
       else
         let (ret, sa_data) = os_siocgifhwaddr sys fd (take (IFNAMSIZ - 1) iface)
         in if ret < 0 then Inl (Exit 0)
            else bindo (close fd w) (\<lambda>(_, w). Inr (0, take 6 sa_data, b\<lparr>stack_of := w\<rparr>))))"

text \<open>It never returns on an ordinary descriptor: the library's own \<open>close\<close> reads in front of the table of descriptors.\<close>

lemma get_mac_never_returns:
  assumes "os_socket sys < FD_START_VAL"
  shows "\<exists>e. get_mac sys iface b = Inl e"
proof -
  have "is_socket_supported AF_INET SOCK_DGRAM 0 = False" by (simp add: is_socket_supported_def)
  then show ?thesis
    using assms by (auto simp: get_mac_def socket_def close_def foreign_fd_call split_def Let_def)
qed

section \<open>The commands\<close>

definition setup_commands :: "string \<Rightarrow> string list" where
  "setup_commands name =
     [''ip link set dev '' @ name @ '' up'',
      ''ip route add dev '' @ name @ '' 10.0.0.0/24'',
      ''ip address add dev '' @ name @ '' local 10.0.0.5'']"

lemma setup_vsnprintf:
  assumes "length name < IFNAMSIZ"
  shows "vsnprintf CMDBUFLEN ''ip link set dev %s up'' [name] = ''ip link set dev '' @ name @ '' up''"
    and "vsnprintf CMDBUFLEN ''ip route add dev %s %s'' [name, ANP_SUBNET_TAP] = ''ip route add dev '' @ name @ '' 10.0.0.0/24''"
    and "vsnprintf CMDBUFLEN ''ip address add dev %s local %s'' [name, ANP_IP_TAP_DEV] = ''ip address add dev '' @ name @ '' local 10.0.0.5''"
  using assms by (simp_all add: vsnprintf_def ANP_SUBNET_TAP_def ANP_IP_TAP_DEV_def)

text \<open>\<open>tdev_init\<close> as a whole: the device, then the commands one after the other up to the first that fails.\<close>

fun run_all :: "os \<Rightarrow> string list \<Rightarrow> boot \<Rightarrow> boot outcome" where
  "run_all sys [] b = Inr b"
| "run_all sys (c # cs) b =
     (if os_system sys c \<noteq> 0 then Inl (Exit (- os_system sys c)) else run_all sys cs (b\<lparr>commands := commands b @ [c]\<rparr>))"

lemma tdev_init_eq:
  assumes "\<not> oom (stack_of b)" and "0 \<le> os_open sys" and "os_tunsetiff sys (os_open sys) '''' = (0, name)" and "length name < IFNAMSIZ"
  shows "tdev_init sys b = run_all sys (setup_commands name) (b\<lparr>tdev := Some \<lparr>tun_fd = os_open sys, devname = name\<rparr>\<rparr>)"
  using assms by (simp add: tdev_init_def tdev_alloc_def run_bash_command_def setup_vsnprintf setup_commands_def Let_def)

lemma run_all_ok: "\<forall>c \<in> set cs. os_system sys c = 0 \<Longrightarrow> run_all sys cs b = Inr (b\<lparr>commands := commands b @ cs\<rparr>)"
  by (induction cs arbitrary: b) simp_all

lemma run_all_fails:
  "\<forall>c \<in> set cs. os_system sys c = 0 \<Longrightarrow> os_system sys d \<noteq> 0 \<Longrightarrow> run_all sys (cs @ d # ds) b = Inl (Exit (- os_system sys d))"
  by (induction cs arbitrary: b) simp_all

lemma init_threads_ok:
  "\<forall>i < 3. os_pthread_create sys i = 0 \<Longrightarrow> init_threads sys b =
     Inr (b\<lparr>threads := threads b @ [THREAD_RX, THREAD_TIMER, THREAD_SENDER],
       stack_of := (stack_of b)\<lparr>spawned := spawned (stack_of b) @ [Tcp_retransmit_handler]\<rparr>\<rparr>)"
  by (simp add: init_threads_def create_thread_def numeral_3_eq_3 numeral_2_eq_2 All_less_Suc Let_def)

section \<open>Properties\<close>


definition sample_os :: os where
  "sample_os = \<lparr>os_open = 3, os_tunsetiff = (\<lambda>fd name. (0, ''tap0'')), os_system = (\<lambda>cmd. 0),
     os_pthread_create = (\<lambda>i. 0), os_errno = 0,
     os_dlsym = (\<lambda>name. Some (length name)), os_socket = 4, os_siocgifhwaddr = (\<lambda>fd name. (0, [0, 0, 0, 0, 0, 0]))\<rparr>"


end
