(* ===== verification/Ping.thy ===== *)
theory Ping
  imports Stack_Rx
begin

text \<open>
  The layers together: a frame that arrives from the TAP device passes \<open>netdev_rx_loop\<close>, \<open>process_packet\<close>, \<open>ip_rx\<close> and \<open>icmp_rx\<close>, and its answer leaves
  through \<open>icmp_reply\<close>, \<open>ip_output\<close>, the route table, the ARP cache and \<open>netdev_transmit\<close>. The frame is given as bytes on the wire, as any
  conforming peer builds it.
\<close>

section \<open>A received IPv4 frame in the buffer\<close>

definition rx_mem :: "u8 list \<Rightarrow> mem" where
  "rx_mem frame = put_bytes (\<lambda>_. 0) 0 frame"

lemma rx_mem_apply: "rx_mem frame j = (if j < length frame then frame ! j else 0)"
  by (simp add: rx_mem_def put_bytes_def)

lemma rx_mem_frame:
  assumes "length dmac = 6" and "length smac = 6" and "length hdr = 20"
  shows "rx_mem (eth_frame dmac smac et (hdr @ body)) 12 = byte1 et"
    and "rx_mem (eth_frame dmac smac et (hdr @ body)) 13 = byte0 et"
    and "get_bytes (rx_mem (eth_frame dmac smac et (hdr @ body))) 14 20 = hdr"
    and "get_bytes (rx_mem (eth_frame dmac smac et (hdr @ body))) 34 (length body) = body"
    and "34 + length body \<le> j \<Longrightarrow> rx_mem (eth_frame dmac smac et (hdr @ body)) j = 0"
proof -
  let ?m = "rx_mem (eth_frame dmac smac et (hdr @ body))"
  show "?m 12 = byte1 et" "?m 13 = byte0 et"
    using assms by (simp_all add: rx_mem_apply eth_frame_def nth_append)
  show "get_bytes ?m 14 20 = hdr"
    using assms by (intro nth_equalityI) (auto simp: rx_mem_apply eth_frame_def nth_append)
  show "get_bytes ?m 34 (length body) = body"
    using assms by (intro nth_equalityI) (auto simp: rx_mem_apply eth_frame_def nth_append)
  show "?m j = 0" if "34 + length body \<le> j"
    using that assms by (simp add: rx_mem_apply eth_frame_def)
qed

text \<open>The fields of an IPv4 header without options, as the stack reads them.\<close>

lemma ipv4_header_fields:
  assumes "get_bytes m 14 20 = ipv4_header tot ident proto cs src dst"
  shows "m 14 = 0x45" and "m 22 = 64" and "m 23 = proto" and "get16 m 16 = htons tot" and "get16 m 18 = htons ident"
    and "get16 m 24 = htons cs" and "get32 m 26 = htonl src" and "get32 m 30 = htonl dst"
  using assms unfolding get_bytes_20 ipv4_header_def be32_def
  by (simp_all add: get16_def get32_def bswap16_def bswap32_def)

text \<open>The header of \<open>ipv4_packet\<close> verifies.\<close>

lemma ipv4_header_verifies:
  assumes h: "get_bytes m 14 20 = ipv4_header tot ident proto (rfc1071 (block_of (ipv4_header tot ident proto 0 src dst)) 0 20) src dst"
  shows "do_csum m 14 20 0 = 0"
proof -
  let ?h0 = "ipv4_header tot ident proto 0 src dst" and ?m0 = "put16 m 24 0"
  note f = ipv4_header_fields [OF h]
  have "get_bytes ?m0 14 20 = ?h0"
    using h unfolding get_bytes_20 ipv4_header_def be32_def by (simp add: put16_apply)
  then have "rfc1071 ?m0 14 20 = rfc1071 (block_of ?h0) 0 20"
    unfolding rfc1071_def by (subst be_sum_block [of 20 ?h0]) simp_all
  then have "ntohs (do_csum ?m0 14 (int 20) 0) = rfc1071 (block_of ?h0) 0 20"
    using csum_is_rfc1071 [of 20 ?m0 14] by simp
  then have "do_csum ?m0 14 (int 20) 0 = htons (rfc1071 (block_of ?h0) 0 20)" by (rule bswap16_swap [THEN iffD1])
  then have "do_csum ?m0 14 (int 20) 0 = get16 m 24" using f(6) by simp
  moreover have "put16 ?m0 24 (get16 m 24) = m" by (simp add: fun_eq_iff put16_apply get16_def byte_simps)
  ultimately have m: "put16 ?m0 24 (do_csum ?m0 14 (int 20) 0) = m" by simp
  have "do_csum (put16 ?m0 (14 + 10) (do_csum ?m0 14 (int 20) 0)) 14 (int 20) 0 = 0"
    using le_sum_fits [of 20 ?m0 14] by (intro ip_sum.filled_verifies) simp_all
  then show ?thesis using m by simp
qed

text \<open>Zero bytes behind a block do not change its checksum.\<close>

lemma do_csum_padding:
  assumes "\<And>j. p + n \<le> j \<Longrightarrow> m j = 0" and "n + k \<le> 65535"
  shows "do_csum m p (int (n + k)) 0 = do_csum m p (int n) 0"
proof -
  have "le_sum m p (n + k) = le_sum m p n"
    unfolding le_sum_def by (rule sum.mono_neutral_right) (auto simp: assms(1))
  then show ?thesis
    using assms(2) le_sum_fits [of n m p] unat_do_csum [of "int n" 0 m p] unat_do_csum [of "int (n + k)" 0 m p]
    by (simp add: word_unat_eq_iff del: of_nat_add)
qed

section \<open>Up and down the stack\<close>

text \<open>An ICMP echo request: type 8 and a checksum that verifies, in at most 1468 bytes.\<close>

definition echo_request :: "u8 list \<Rightarrow> bool" where
  "echo_request req \<longleftrightarrow> 4 \<le> length req \<and> length req \<le> 1468 \<and> hd req = ICMP_V4_ECHO \<and> rfc1071 (block_of req) 0 (length req) = 0"

lemma rx_ipv4_dispatch:
  assumes h: "get_bytes m 14 20 = ipv4_header tot ident proto (rfc1071 (block_of (ipv4_header tot ident proto 0 src dst)) 0 20) src dst"
    and "34 \<le> s_end sub" and "s_head sub = m"
  shows "ip_rx sub w =
    (let sub = sub\<lparr>s_head := ip_rx_to_host m\<rparr>
     in if proto = IPP_NUM_ICMP then icmp_rx sub w else if proto = IPP_TCP then tcp_rx sub w else Inr (free_sub sub w))"
proof -
  note f = ipv4_header_fields [OF h]
  have i: "ip_version m = IPP_NUM_IP_in_IP" "ip_ihl m = 5"
    by (simp_all add: ip_version_def ip_ihl_def f(1) word_unat_eq_iff unat_div_distrib unat_mod_distrib)
  have "ip_rx_to_host m 23 = proto" using f(3) by (simp add: ip_rx_to_host_def Let_def put16_apply put32_apply)
  then show ?thesis
    using assms(2,3) i f(2) ipv4_header_verifies [OF h] by (simp add: ip_rx_def Let_def)
qed

lemma ip_rx_to_host_fields:
  "get32 (ip_rx_to_host m) 26 = ntohl (get32 m 26)" "get16 (ip_rx_to_host m) 16 = ntohs (get16 m 16)"
  "get16 (ip_rx_to_host m) 18 = ntohs (get16 m 18)" "ip_rx_to_host m 14 = m 14" "34 \<le> j \<Longrightarrow> ip_rx_to_host m j = m j"
  by (simp_all add: ip_rx_to_host_def Let_def byte_simps put16_apply put32_apply)

lemma echo_request_received:
  assumes req: "echo_request req" and body: "get_bytes m 34 (length req) = req" and pad: "\<And>j. 34 + length req \<le> j \<Longrightarrow> m j = 0"
    and ihl: "ip_ihl m = 5" and tot: "get16 m 16 = word_of_nat (20 + length req)"
    and sub: "s_head sub = m" "s_data sub = 0" "s_end sub = 1522"
  shows "echo_request_sub sub (length req)"
proof -
  let ?n = "length req"
  have n: "4 \<le> ?n" "?n \<le> 1468" using req by (simp_all add: echo_request_def)
  have "rfc1071 m 34 ?n = 0"
    using req be_sum_block [of ?n req m 34] body by (simp add: rfc1071_def echo_request_def)
  then have "ntohs (do_csum m 34 (int ?n) 0) = 0" using csum_is_rfc1071 [of ?n m 34] n by simp
  then have "do_csum m 34 (int ?n) 0 = 0" using bswap16_swap [THEN iffD1] bswap16_0 by metis
  then have "do_csum m 34 (int (20 + ?n)) 0 = 0" using do_csum_padding [of 34 ?n m 20] pad n by (simp add: add.commute)
  moreover have "m 34 = ICMP_V4_ECHO"
  proof -
    have "0 < ?n" using n by linarith
    then have "m 34 = req ! 0" using body nth_get_bytes [of 0 ?n m 34] by simp
    then show ?thesis using req n by (cases req) (simp_all add: echo_request_def)
  qed
  ultimately show ?thesis using n ihl tot sub by (simp add: echo_request_sub_def)
qed

text \<open>The receive loop on a frame with a well-formed IPv4 packet: the packet reaches the protocol its header names, with the header fields in host
  order and the body in place, followed by zeros.\<close>

lemma rx_ipv4_frame:
  assumes "length dmac = 6" and "length smac = 6" and "length body \<le> 1488" and "\<not> oom w"
  obtains m where
    "netdev_rx_loop [Some (eth_frame dmac smac ETH_P_IP (ipv4_packet ident proto src dst body))] w =
      (let sub = (rx_sub 1522 [])\<lparr>s_head := m\<rparr>; w = w\<lparr>live_subs := live_subs w + 1, live_bufs := live_bufs w + 1\<rparr>
       in if proto = IPP_NUM_ICMP then icmp_rx sub w else if proto = IPP_TCP then tcp_rx sub w else Inr (free_sub sub w))"
    and "get_bytes m 34 (length body) = body" and "\<And>j. 34 + length body \<le> j \<Longrightarrow> m j = 0" and "ip_ihl m = 5"
    and "get16 m 16 = word_of_nat (20 + length body)" and "get16 m 18 = ident" and "get32 m 26 = src"
proof -
  define tot :: u16 where "tot = word_of_nat (20 + length body)"
  define hdr where "hdr = ipv4_header tot ident proto (rfc1071 (block_of (ipv4_header tot ident proto 0 src dst)) 0 20) src dst"
  let ?frame = "eth_frame dmac smac ETH_P_IP (hdr @ body)"
  have fr: "ipv4_packet ident proto src dst body = hdr @ body" by (simp add: ipv4_packet_def hdr_def tot_def Let_def)
  have lh: "length hdr = 20" by (simp add: hdr_def)
  have len: "length ?frame \<le> 1522" using assms(1-3) lh by (simp add: eth_frame_def)
  note r = rx_mem_frame [OF assms(1,2) lh, where et = ETH_P_IP and body = body]
  define m where "m = put16 (rx_mem ?frame) 12 (ntohs (get16 (rx_mem ?frame) 12))"
  have ty: "ntohs (get16 (rx_mem ?frame) 12) = ETH_P_IP" using r(1,2) by (simp add: get16_def bswap16_def byte_simps)
  have mj: "m j = rx_mem ?frame j" if "14 \<le> j" for j using that by (simp add: m_def put16_apply)
  have "get_bytes m 14 20 = get_bytes (rx_mem ?frame) 14 20" "get_bytes m 34 (length body) = get_bytes (rx_mem ?frame) 34 (length body)"
    by (rule get_bytes_cong, simp add: mj)+
  then have m: "get_bytes m 14 20 = hdr" "get_bytes m 34 (length body) = body" using r(3,4) by simp_all
  note h = m(1) [unfolded hdr_def]
  note f = ipv4_header_fields [OF h]
  let ?w = "w\<lparr>live_subs := live_subs w + 1, live_bufs := live_bufs w + 1\<rparr>" and ?m = "ip_rx_to_host m"
  have s: "(rx_sub 1522 ?frame)\<lparr>s_head := x\<rparr> = (rx_sub 1522 [])\<lparr>s_head := x\<rparr>" for x by (simp add: rx_sub_def)
  have "netdev_rx_loop [Some ?frame] w = process_packet (rx_sub 1522 ?frame) ?w"
    using assms(4) len by (simp add: alloc_sub_def rx_sub_def bindo_def split: sum.split)
  also have "\<dots> = ip_rx ((rx_sub 1522 [])\<lparr>s_head := m\<rparr>) ?w"
    using ty by (simp add: process_packet_def eth_hdr_def rx_sub_def m_def rx_mem_def)
  also have "\<dots> = (let sub = (rx_sub 1522 [])\<lparr>s_head := ?m\<rparr>; w = ?w
       in if proto = IPP_NUM_ICMP then icmp_rx sub w else if proto = IPP_TCP then tcp_rx sub w else Inr (free_sub sub w))"
    using rx_ipv4_dispatch [OF h, of "(rx_sub 1522 [])\<lparr>s_head := m\<rparr>" ?w] by (simp add: rx_sub_def Let_def)
  finally have "netdev_rx_loop [Some ?frame] w = \<dots>" .
  moreover have "get_bytes ?m 34 (length body) = get_bytes m 34 (length body)"
    by (rule get_bytes_cong) (simp add: ip_rx_to_host_fields)
  moreover have "?m j = 0" if "34 + length body \<le> j" for j using that r(5) mj by (simp add: ip_rx_to_host_fields)
  moreover have "ip_ihl ?m = 5" by (simp add: ip_ihl_def ip_rx_to_host_fields f(1) word_unat_eq_iff unat_mod_distrib)
  ultimately show thesis using m(2) by (intro that [of ?m]) (simp_all add: fr ip_rx_to_host_fields f(4,5,7) tot_def)
qed

section \<open>Property\<close>

text \<open>C5. A host on the network that pings the stack gets its answer: when a frame with a well-formed IPv4 packet that carries an echo request of at
  most 1468 bytes arrives, from any routable and resolved sender and to whatever destination address, the receive loop sends exactly one frame back: to the sender's hardware address,
  an IPv4 packet from the device's address to the sender with the request's identification, whose body is the echo reply with the request's data and a
  correct checksum. No buffer is left behind.\<close>

theorem ping_answered:
  assumes "echo_request req" and "length dmac = 6" and "length smac = 6" and "\<not> oom w"
    and "route_lookup src w = Some rt" and "wf_dev (rt_dev rt)"
    and "arp_get_hwaddr (next_hop rt src) w = Some mac" and "length mac = 6"
    and "reply = eth_frame mac (dev_hwaddr (rt_dev rt)) ETH_P_IP
      (ipv4_packet ident IPP_NUM_ICMP (dev_addr (rt_dev rt)) src (icmp_echo_reply req))"
    and "tap_ret w reply \<noteq> - EAGAIN"
  shows "netdev_rx_loop [Some (eth_frame dmac smac ETH_P_IP (ipv4_packet ident IPP_NUM_ICMP src dst req))] w =
    Inr (w\<lparr>tap_out := tap_out w @ [reply]\<rparr>)"
proof -
  have n: "length req \<le> 1488" using assms(1) by (simp add: echo_request_def)
  obtain m where rx: "netdev_rx_loop [Some (eth_frame dmac smac ETH_P_IP (ipv4_packet ident IPP_NUM_ICMP src dst req))] w =
      icmp_rx ((rx_sub 1522 [])\<lparr>s_head := m\<rparr>) (w\<lparr>live_subs := live_subs w + 1, live_bufs := live_bufs w + 1\<rparr>)"
    and m: "get_bytes m 34 (length req) = req" "\<And>j. 34 + length req \<le> j \<Longrightarrow> m j = 0" "ip_ihl m = 5"
      "get16 m 16 = word_of_nat (20 + length req)" "get16 m 18 = ident" "get32 m 26 = src"
    by (rule rx_ipv4_frame [OF assms(2,3) n assms(4), of ident IPP_NUM_ICMP src dst], rule that) (simp_all add: Let_def)
  let ?sub = "(rx_sub 1522 [])\<lparr>s_head := m\<rparr>" and ?w = "w\<lparr>live_subs := live_subs w + 1, live_bufs := live_bufs w + 1\<rparr>"
  have "echo_request_sub ?sub (length req)"
    by (rule echo_request_received [OF assms(1) m(1-4)]) (simp_all add: rx_sub_def)
  from icmp_rx_answers [OF this, of ?w rt mac reply]
  have "icmp_rx ?sub ?w = Inr (?w\<lparr>tap_out := tap_out ?w @ [reply], live_subs := live_subs ?w - 1, live_bufs := live_bufs ?w - 1\<rparr>)"
    using assms(4-10) m by (simp add: route_lookup_def arp_get_hwaddr_def)
  then show ?thesis using rx by simp
qed

definition sample_running :: tcp_state where
  "sample_running = (loaded (\<lambda>f. int (length f)))\<lparr>cdev_ext := Some sample_dev, cdev_lo := Some sample_lo, arp_cache := [sample_gw_entry],
     routes := [lo_route sample_lo, host_route sample_dev, gw_route sample_dev]\<rparr>"

lemma sample_running_simps [simp]:
  "\<not> oom sample_running" "tap_out sample_running = []" "tap_ret sample_running f = int (length f)"
  "route_lookup 0x0A000005 sample_running = Some (host_route sample_dev)"
  "arp_get_hwaddr 0x0A000005 sample_running = Some [0xaa, 0xbb, 0xcc, 0xdd, 0xee, 0xff]"
  by (simp_all add: sample_running_def loaded_def route_lookup_def rt_matches_def lo_route_def host_route_def sample_lo_def
      arp_get_hwaddr_def sample_gw_entry_def)

lemma sample_echo_request_bytes: "echo_request sample_echo"
proof -
  have "be_sum (block_of sample_echo) 0 8 = 65535"
    by (simp add: be_sum_def lessThan_nat_numeral lessThan_Suc block_of_def sample_echo_def)
  moreover have "length sample_echo = 8" "hd sample_echo = ICMP_V4_ECHO" by (simp_all add: sample_echo_def)
  ultimately show ?thesis by (simp add: echo_request_def rfc1071_def oc_reduce_def)
qed

theorem ping_answered_witness:
  "\<exists>w'. netdev_rx_loop [Some (eth_frame (dev_hwaddr sample_dev) [0xaa, 0xbb, 0xcc, 0xdd, 0xee, 0xff] ETH_P_IP
        (ipv4_packet 7 IPP_NUM_ICMP 0x0A000005 0x0A000004 sample_echo))] sample_running = Inr w' \<and> length (tap_out w') = 1"
proof -
  let ?mac = "[0xaa, 0xbb, 0xcc, 0xdd, 0xee, 0xff] :: u8 list"
  define reply where "reply = eth_frame ?mac (dev_hwaddr (rt_dev (host_route sample_dev))) ETH_P_IP
    (ipv4_packet 7 IPP_NUM_ICMP (dev_addr (rt_dev (host_route sample_dev))) 0x0A000005 (icmp_echo_reply sample_echo))"
  have d: "length (dev_hwaddr sample_dev) = 6" "length ?mac = 6" "wf_dev (rt_dev (host_route sample_dev))"
      "arp_get_hwaddr (next_hop (host_route sample_dev) 0x0A000005) sample_running = Some ?mac" "tap_ret sample_running reply \<noteq> - EAGAIN"
    by (simp add: sample_dev_def, simp_all)
  note p = ping_answered [OF sample_echo_request_bytes d(1,2) sample_running_simps(1,4) d(3,4,2) reply_def d(5), of "0x0A000004"]
  show ?thesis by (intro exI conjI, rule p) simp
qed

end
