(* ===== verification/Resolution.thy ===== *)
theory Resolution
  imports Ping
begin

text \<open>
  A conversation that needs every component below TCP: a ping from a host whose hardware address is not known yet. The reply is held back, an ARP
  request goes out, the answer reaches the cache, the retry timer fires, and its callback sends the reply.
\<close>

section \<open>A reply that waits for its neighbour\<close>

text \<open>The reply as it is kept for the next attempt: the IP header has been filled in.\<close>

definition held_back :: "u32 \<Rightarrow> rtentry \<Rightarrow> icmp_reply_info \<Rightarrow> icmp_reply_info" where
  "held_back dst rt info = info\<lparr>ri_sub := ip_out_sub dst rt ((ri_sub info)\<lparr>s_len := ucast (ri_icmp_len info), s_data := 34\<rparr>),
     ri_retries := ri_retries info - 1\<rparr>"

lemma icmp_reply_held_back:
  assumes "\<not> oom w" and "route_lookup (ri_dest_addr info) w = Some rt" and "wf_dev (rt_dev rt)"
    and "arp_get_hwaddr (next_hop rt (ri_dest_addr info)) w = None" and "34 \<le> s_end (ri_sub info)" and "ri_retries info \<noteq> 0"
  shows "icmp_reply_handler info w = timer_oneshot ICMP_RETRY_WAIT_TIME (Icmp_reply_handler (held_back (ri_dest_addr info) rt info))
    (w\<lparr>tap_out := tap_out w @ [arp_request_frame (dev_addr (rt_dev rt)) (next_hop rt (ri_dest_addr info)) (rt_dev rt)]\<rparr>)"
  using assms by (simp add: icmp_reply_handler_def Let_def ip_output_hop arp_request_ok held_back_def)

text \<open>The next attempt, with the neighbour resolved. The identification has been turned around once more.\<close>

lemma ip_out_sub_body: "34 \<le> j \<Longrightarrow> s_head (ip_out_sub dst rt sub) j = s_head sub j"
  by (simp add: ip_out_sub_def ip_send_check_def put16_apply ip_fill_apply)

lemma ip_out_sub_ident: "get16 (s_head (ip_out_sub dst rt sub)) 18 = htons (get16 (s_head sub) 18)"
  by (simp add: ip_out_sub_def ip_send_check_def byte_simps) (simp add: get16_def ip_fill_apply bswap16_def)

lemma held_back_sent:
  assumes "route_lookup dst w = Some rt'" and "wf_dev (rt_dev rt')"
    and "arp_get_hwaddr (next_hop rt' dst) w = Some mac" and "length mac = 6"
    and "ri_dest_addr info = dst" and "unat (ri_icmp_len info) = n" and "n \<le> 65515" and "34 + n \<le> s_end (ri_sub info)"
    and "frame = eth_frame mac (dev_hwaddr (rt_dev rt')) ETH_P_IP
      (ipv4_packet (htons (get16 (s_head (ri_sub info)) 18)) (ucast (s_protocol (ri_sub info))) (dev_addr (rt_dev rt')) dst
        (get_bytes (s_head (ri_sub info)) 34 n))"
    and "tap_ret w frame \<noteq> - EAGAIN"
  shows "icmp_reply_handler (held_back dst rt info) w =
    Inr (w\<lparr>tap_out := tap_out w @ [frame], live_subs := live_subs w - 1, live_bufs := live_bufs w - 1\<rparr>)"
proof -
  let ?s0 = "(ri_sub info)\<lparr>s_len := ucast (ri_icmp_len info), s_data := 34\<rparr>"
  let ?s = "(ip_out_sub dst rt ?s0)\<lparr>s_len := ucast (ri_icmp_len info), s_data := 34\<rparr>"
  have "get_bytes (s_head ?s) 34 n = get_bytes (s_head (ri_sub info)) 34 n"
    by (rule get_bytes_cong) (simp add: ip_out_sub_body)
  moreover have "s_protocol ?s = s_protocol (ri_sub info)" "s_end ?s = s_end (ri_sub info)" by (simp_all add: ip_out_sub_def)
  moreover have "get16 (s_head ?s) 18 = htons (get16 (s_head (ri_sub info)) 18)" by (simp add: ip_out_sub_ident)
  ultimately obtain sub' where "ip_output dst ?s w = Inr (tap_ret w frame, sub', w\<lparr>tap_out := tap_out w @ [frame]\<rparr>)"
    using ip_output_frame [OF assms(1-4), of ?s frame] assms(6-9) by auto
  then show ?thesis using assms(5,10) by (simp add: icmp_reply_handler_def Let_def held_back_def free_sub_def)
qed

section \<open>The answer to the ARP request\<close>

lemma rx_arp_reply:
  assumes "length d = 6" and "length s = 6" and "length mac = 6" and "length dm = 6" and "\<not> oom w" and "cdev_ext w = Some dev"
  shows "netdev_rx_loop [Some (eth_frame d s ETH_P_ARP (arp_packet ARP_REPLY 6 4 mac ip dm di))] w =
    Inr (w\<lparr>arp_cache := learn \<lparr>ar_src_mac = mac, ar_src_ip = ip, ar_dst_mac = dm, ar_dst_ip = di\<rparr> (arp_cache w)\<rparr>)"
proof -
  let ?p = "arp_packet ARP_REPLY 6 4 mac ip dm di" and ?w = "w\<lparr>live_subs := live_subs w + 1, live_bufs := live_bufs w + 1\<rparr>"
  obtain d1 d2 d3 d4 d5 d6 where dd: "d = [d1, d2, d3, d4, d5, d6]" using assms(1) by (rule length_6E)
  obtain s1 s2 s3 s4 s5 s6 where ss: "s = [s1, s2, s3, s4, s5, s6]" using assms(2) by (rule length_6E)
  obtain m1 m2 m3 m4 m5 m6 where mm: "mac = [m1, m2, m3, m4, m5, m6]" using assms(3) by (rule length_6E)
  obtain e1 e2 e3 e4 e5 e6 where ee: "dm = [e1, e2, e3, e4, e5, e6]" using assms(4) by (rule length_6E)
  let ?f = "eth_frame d s ETH_P_ARP ?p"
  define m where "m = put16 (rx_mem ?f) 12 (ntohs (get16 (rx_mem ?f) 12))"
  have t: "ntohs (get16 (rx_mem ?f) 12) = ETH_P_ARP"
    by (simp add: rx_mem_apply dd ss eth_frame_def get16_def bswap16_def byte_simps)
  have b: "get16 m 14 = htons ARP_ETHERNET" "get16 m 16 = htons ARP_IPV4" "get16 m 20 = htons ARP_REPLY"
      "get_bytes m 22 6 = mac" "get_bytes m 32 6 = dm" "get32 m 28 = htonl ip" "get32 m 38 = htonl di"
    by (simp_all add: m_def put16_apply rx_mem_apply dd ss mm ee eth_frame_def arp_packet_def be32_def get_bytes_6 get16_def get32_def
        bswap32_def bswap16_def le16_def byte0_def byte1_def)
  have "netdev_rx_loop [Some ?f] w = process_packet (rx_sub 1522 ?f) ?w"
    using assms(5) by (simp add: alloc_sub_def rx_sub_def bindo_def dd ss mm ee eth_frame_def arp_packet_def be32_def split: sum.split)
  also have "\<dots> = arp_rx ((rx_sub 1522 ?f)\<lparr>s_head := m\<rparr>) ?w"
    using t by (simp add: process_packet_def eth_hdr_def rx_sub_def m_def rx_mem_def Let_def)
  also have "\<dots> = Inr (w\<lparr>arp_cache := learn \<lparr>ar_src_mac = mac, ar_src_ip = ip, ar_dst_mac = dm, ar_dst_ip = di\<rparr> (arp_cache w)\<rparr>)"
    using b assms(5,6) by (subst arp_rx_wf [where dev = dev]) (simp_all add: arp_wf_packet_def arp_sender_def free_sub_def Let_def)
  finally show ?thesis .
qed

section \<open>The conversation\<close>

lemma timers_run_others: "\<exists>tk ts sp. timers_run bs w = w\<lparr>tick := tk, timers := ts, spawned := sp\<rparr>"
proof (induction bs arbitrary: w)
  case Nil
  have "timers_run [] w = w\<lparr>tick := tick w, timers := timers w, spawned := spawned w\<rparr>" by simp
  then show ?case by blast
next
  case (Cons busy bs)
  obtain tk ts sp where "timers_round busy w = w\<lparr>tick := tk, timers := ts, spawned := sp\<rparr>"
    by (simp add: timers_round_def timers_tick_def split_def Let_def)
  moreover obtain tk' ts' sp' where "timers_run bs (timers_round busy w) = (timers_round busy w)\<lparr>tick := tk', timers := ts', spawned := sp'\<rparr>"
    using Cons.IH by blast
  ultimately show ?case by auto
qed

text \<open>The first step: the reply to the ping is held back, an ARP request goes out and a timer is set.\<close>

lemma ping_held_back:
  assumes "echo_request req" and "length dmac = 6" and "length smac = 6" and "\<not> oom w"
    and "route_lookup src w = Some rt" and "wf_dev (rt_dev rt)" and "arp_get_hwaddr (next_hop rt src) w = None"
  obtains info where
    "netdev_rx_loop [Some (eth_frame dmac smac ETH_P_IP (ipv4_packet ident IPP_NUM_ICMP src dst req))] w =
      Inr (w\<lparr>live_subs := live_subs w + 1, live_bufs := live_bufs w + 1,
        tap_out := tap_out w @ [arp_request_frame (dev_addr (rt_dev rt)) (next_hop rt src) (rt_dev rt)],
        timers := timers w @ [\<lparr>t_addr = t_next w, t_refcnt = 0, t_expires = tick w + ICMP_RETRY_WAIT_TIME, t_cancelled = False,
          t_handler = Icmp_reply_handler (held_back src rt info)\<rparr>], t_next := t_next w + 1\<rparr>)"
    and "ri_dest_addr info = src" and "unat (ri_icmp_len info) = length req" and "34 + length req \<le> s_end (ri_sub info)"
    and "get16 (s_head (ri_sub info)) 18 = ident" and "s_protocol (ri_sub info) = 1"
    and "get_bytes (s_head (ri_sub info)) 34 (length req) = icmp_echo_reply req"
proof -
  let ?n = "length req"
  have n: "?n \<le> 1488" "4 \<le> ?n" "?n \<le> 1468" using assms(1) by (simp_all add: echo_request_def)
  obtain m where rx: "netdev_rx_loop [Some (eth_frame dmac smac ETH_P_IP (ipv4_packet ident IPP_NUM_ICMP src dst req))] w =
      icmp_rx ((rx_sub 1522 [])\<lparr>s_head := m\<rparr>) (w\<lparr>live_subs := live_subs w + 1, live_bufs := live_bufs w + 1\<rparr>)"
    and m: "get_bytes m 34 ?n = req" "\<And>j. 34 + ?n \<le> j \<Longrightarrow> m j = 0" "ip_ihl m = 5"
      "get16 m 16 = word_of_nat (20 + ?n)" "get16 m 18 = ident" "get32 m 26 = src"
    by (rule rx_ipv4_frame [OF assms(2,3) n(1) assms(4), of ident IPP_NUM_ICMP src dst], rule that) (simp_all add: Let_def)
  let ?sub = "(rx_sub 1522 [])\<lparr>s_head := m\<rparr>" and ?w = "w\<lparr>live_subs := live_subs w + 1, live_bufs := live_bufs w + 1\<rparr>"
  define info where "info = \<lparr>ri_sub = icmp_reply_sub ?sub ?n, ri_dest_addr = src, ri_retries = ICMP_RETRY_COUNT, ri_icmp_len = word_of_nat ?n\<rparr>"
  have "echo_request_sub ?sub ?n"
    by (rule echo_request_received [OF assms(1) m(1-4)]) (simp_all add: rx_sub_def)
  then have "icmp_rx ?sub ?w = icmp_reply_handler info ?w" using icmp_rx_request [of ?sub ?n ?w] assms(4) m(6) by (simp add: info_def)
  also have "\<dots> = timer_oneshot ICMP_RETRY_WAIT_TIME (Icmp_reply_handler (held_back src rt info))
      (?w\<lparr>tap_out := tap_out w @ [arp_request_frame (dev_addr (rt_dev rt)) (next_hop rt src) (rt_dev rt)]\<rparr>)"
    using icmp_reply_held_back [of ?w info rt] assms(4-7)
    by (simp add: info_def icmp_reply_sub_def rx_sub_def route_lookup_def arp_get_hwaddr_def)
  finally show thesis
    using rx m n assms(4) icmp_reply_mem_bytes [of ?n m]
    by (intro that [of info]) (simp_all add: info_def icmp_reply_sub_def rx_sub_def timer_oneshot_def timer_insert_eq timer_get_tick_def
        icmp_reply_mem_def Let_def byte_simps)
qed

text \<open>C6. A ping from a host that is not in the ARP cache is answered as soon as the host answers the ARP request: the ping makes the stack send exactly an ARP request for the
  next hop; after the ARP reply has come in, eleven rounds of the timer thread start the retry once, and the retry sends the echo reply, to the hardware address that the ARP reply
  announced, and releases the buffer: nothing is left behind. The identification of this reply is the one of the request with its two bytes exchanged.\<close>

theorem ping_answered_late:
  assumes "echo_request req" and "length dmac = 6" and "length smac = 6" and "\<not> oom w"
    and "route_lookup src w = Some rt" and "wf_dev (rt_dev rt)" and "arp_get_hwaddr (next_hop rt src) w = None"
    and "cdev_ext w = Some dev" and "cache_wf (arp_cache w)" and "length mac = 6" and "length dm = 6"
    and "\<forall>info. Icmp_reply_handler info \<notin> t_handler ` set (timers w)" and "unat (tick w) + 110 < 4294967296"
    and "reply = eth_frame mac (dev_hwaddr (rt_dev rt)) ETH_P_IP
      (ipv4_packet (htons ident) IPP_NUM_ICMP (dev_addr (rt_dev rt)) src (icmp_echo_reply req))"
    and "tap_ret w reply \<noteq> - EAGAIN"
  shows "\<exists>retry w1 w2 w3 w4.
    netdev_rx_loop [Some (eth_frame dmac smac ETH_P_IP (ipv4_packet ident IPP_NUM_ICMP src dst req))] w = Inr w1
    \<and> tap_out w1 = tap_out w @ [arp_request_frame (dev_addr (rt_dev rt)) (next_hop rt src) (rt_dev rt)]
    \<and> netdev_rx_loop [Some (eth_frame dmac smac ETH_P_ARP (arp_packet ARP_REPLY 6 4 mac (next_hop rt src) dm di))] w1 = Inr w2
    \<and> w3 = timers_run (replicate 11 (\<lambda>_. False)) w2 \<and> count_list (spawned w3) retry = count_list (spawned w) retry + 1
    \<and> run_callback env retry w3 = Inr (Some w4) \<and> tap_out w4 = tap_out w1 @ [reply]
    \<and> live_subs w4 = live_subs w \<and> live_bufs w4 = live_bufs w"
proof -
  obtain info where p: "netdev_rx_loop [Some (eth_frame dmac smac ETH_P_IP (ipv4_packet ident IPP_NUM_ICMP src dst req))] w =
      Inr (w\<lparr>live_subs := live_subs w + 1, live_bufs := live_bufs w + 1,
        tap_out := tap_out w @ [arp_request_frame (dev_addr (rt_dev rt)) (next_hop rt src) (rt_dev rt)],
        timers := timers w @ [\<lparr>t_addr = t_next w, t_refcnt = 0, t_expires = tick w + ICMP_RETRY_WAIT_TIME, t_cancelled = False,
          t_handler = Icmp_reply_handler (held_back src rt info)\<rparr>], t_next := t_next w + 1\<rparr>)"
      (is "_ = Inr ?w1")
    and i: "ri_dest_addr info = src" "unat (ri_icmp_len info) = length req" "34 + length req \<le> s_end (ri_sub info)"
      "get16 (s_head (ri_sub info)) 18 = ident" "s_protocol (ri_sub info) = 1"
      "get_bytes (s_head (ri_sub info)) 34 (length req) = icmp_echo_reply req"
    by (rule ping_held_back [OF assms(1-7), of ident dst])
  let ?retry = "Icmp_reply_handler (held_back src rt info)" and ?rounds = "replicate 11 (\<lambda>_. False)"
  let ?t = "\<lparr>t_addr = t_next w, t_refcnt = 0, t_expires = tick w + ICMP_RETRY_WAIT_TIME, t_cancelled = False, t_handler = ?retry\<rparr>"
  define w2 where "w2 = ?w1\<lparr>arp_cache := learn \<lparr>ar_src_mac = mac, ar_src_ip = next_hop rt src, ar_dst_mac = dm, ar_dst_ip = di\<rparr> (arp_cache w)\<rparr>"
  have a: "netdev_rx_loop [Some (eth_frame dmac smac ETH_P_ARP (arp_packet ARP_REPLY 6 4 mac (next_hop rt src) dm di))] ?w1 = Inr w2"
    using rx_arp_reply [OF assms(2,3,10,11), of ?w1 dev] assms(4,8) by (simp add: w2_def)
  have "\<forall>t \<in> set (timers w). t_handler t \<noteq> ?retry" using assms(12) by (metis imageI)
  then have "timers_of ?retry (timers w2) = [?t]" by (simp add: w2_def timers_of_def filter_empty_conv)
  moreover have "unat (t_expires ?t) = unat (tick w) + 100" using assms(13) by (simp add: unat_word_ariths)
  ultimately have c: "count_list (spawned (timers_run ?rounds w2)) ?retry = count_list (spawned w) ?retry + 1"
    using timers_run_single [of ?retry w2 ?t ?rounds] assms(13) by (simp add: w2_def)
  obtain tk ts sp where o: "timers_run ?rounds w2 = w2\<lparr>tick := tk, timers := ts, spawned := sp\<rparr>" (is "_ = ?w3")
    using timers_run_others by blast
  have h: "arp_get_hwaddr (next_hop rt src) ?w3 = Some mac"
    using find_learn [OF assms(9)] by (simp add: w2_def arp_get_hwaddr_def)
  have n: "length req \<le> 65515" using assms(1) by (simp add: echo_request_def)
  have r: "route_lookup src ?w3 = Some rt" using assms(5) by (simp add: w2_def route_lookup_def)
  have f: "reply = eth_frame mac (dev_hwaddr (rt_dev rt)) ETH_P_IP
      (ipv4_packet (htons (get16 (s_head (ri_sub info)) 18)) (ucast (s_protocol (ri_sub info))) (dev_addr (rt_dev rt)) src
        (get_bytes (s_head (ri_sub info)) 34 (length req)))"
    unfolding i(4-6) assms(14) by simp
  have e: "tap_ret ?w3 reply \<noteq> - EAGAIN" using assms(15) by (simp add: w2_def)
  define w4 where "w4 = ?w3\<lparr>tap_out := tap_out ?w3 @ [reply], live_subs := live_subs ?w3 - 1, live_bufs := live_bufs ?w3 - 1\<rparr>"
  have "run_callback env ?retry (timers_run ?rounds w2) = Inr (Some w4)"
    unfolding o using held_back_sent [OF r assms(6) h assms(10) i(1,2) n i(3) f e, of rt] by (simp add: run_callback_def w4_def)
  moreover have "tap_out w4 = tap_out ?w1 @ [reply]" "live_subs w4 = live_subs w" "live_bufs w4 = live_bufs w"
    by (simp_all add: w4_def w2_def)
  moreover have "tap_out ?w1 = tap_out w @ [arp_request_frame (dev_addr (rt_dev rt)) (next_hop rt src) (rt_dev rt)]" by simp
  ultimately show ?thesis using p a c by blast
qed

theorem ping_answered_late_witness:
  "\<exists>w1. netdev_rx_loop [Some (eth_frame (dev_hwaddr sample_dev) [0xaa, 0xbb, 0xcc, 0xdd, 0xee, 0xff] ETH_P_IP
      (ipv4_packet 7 IPP_NUM_ICMP 0x0A000005 0x0A000004 sample_echo))] (sample_running\<lparr>arp_cache := []\<rparr>) = Inr w1
    \<and> tap_out w1 = [arp_request_frame 0x0A000004 0x0A000005 sample_dev]"
proof -
  let ?mac = "[0xaa, 0xbb, 0xcc, 0xdd, 0xee, 0xff] :: u8 list" and ?w = "sample_running\<lparr>arp_cache := []\<rparr>"
  define reply where "reply = eth_frame ?mac (dev_hwaddr (rt_dev (host_route sample_dev))) ETH_P_IP
    (ipv4_packet (htons 7) IPP_NUM_ICMP (dev_addr (rt_dev (host_route sample_dev))) 0x0A000005 (icmp_echo_reply sample_echo))"
  have d: "length (dev_hwaddr sample_dev) = 6" "length ?mac = 6" "wf_dev (rt_dev (host_route sample_dev))" "dev_addr sample_dev = 0x0A000004"
    by (simp add: sample_dev_def, simp, simp, simp add: sample_dev_def)
  have s: "\<not> oom ?w" "route_lookup 0x0A000005 ?w = Some (host_route sample_dev)"
      "arp_get_hwaddr (next_hop (host_route sample_dev) 0x0A000005) ?w = None" "cdev_ext ?w = Some sample_dev" "cache_wf (arp_cache ?w)"
      "\<forall>info. Icmp_reply_handler info \<notin> t_handler ` set (timers ?w)" "unat (tick ?w) + 110 < 4294967296" "tap_ret ?w reply \<noteq> - EAGAIN" "tap_out ?w = []"
    using sample_running_simps by (simp_all add: arp_get_hwaddr_def route_lookup_def cache_wf_def) (simp_all add: sample_running_def loaded_def)
  note p = ping_answered_late [OF sample_echo_request_bytes d(1,2) s(1,2) d(3) s(3,4,5) d(2,2) s(6,7) reply_def s(8), of "0x0A000004" 0 "[]"]
  then show ?thesis using s(9) d(4) by (elim exE conjE) (auto simp: next_hop_def host_route_def)
qed

end
