(* ===== verification/Retransmission.thy ===== *)
theory Retransmission
  imports Tcp_Send
begin

text \<open>
  When a pass of the retransmission thread ends (\<open>tcp_retransmit_handler\<close> of \<^verbatim>\<open>src/tcp.c\<close>). For every queued message the thread spins in
  \<^verbatim>\<open>while (ip_output(...) == -EAGAIN)\<close> until the receiving thread has learned the hardware address of the next hop. Here the receiving thread is
  the sequence \<open>env\<close> of the ARP caches that it leaves behind; it never forgets an address. The pass ends if and only if all next hops
  get resolved, whatever the state of the cache when it begins, and then every segment is on the wire, after one ARP request for each attempt that failed.
\<close>

section \<open>Messages and caches\<close>

text \<open>A queued message that belongs to a connection, has its segment in its buffer, a route and retries left: the segment goes to \<open>hop\<close> through \<open>rt\<close>.\<close>

definition bound_for :: "'a tcp_state_scheme \<Rightarrow> tcp_message \<Rightarrow> tcb \<Rightarrow> rtentry \<Rightarrow> bool" where
  "bound_for w e c rt \<longleftrightarrow> tcbs w (m_tcb e) = Some c \<and> m_tcp_ptr e = Some 34
     \<and> 34 + unat (m_tcp_len e) \<le> s_end (m_sub e) \<and> unat (m_tcp_len e) < 65516
     \<and> route_lookup (remote_ip c) w = Some rt \<and> wf_dev (rt_dev rt) \<and> m_retries e - 1 \<noteq> 0"

definition hop_known :: "'a tcp_state_scheme \<Rightarrow> arp_cache_entry list \<Rightarrow> tcp_message \<Rightarrow> bool" where
  "hop_known w cache e \<longleftrightarrow> (\<exists>c rt. bound_for w e c rt \<and> find_hwaddr cache (next_hop rt (remote_ip c)) \<noteq> None)"

definition macs_ok :: "arp_cache_entry list \<Rightarrow> bool" where
  "macs_ok es \<longleftrightarrow> list_all (\<lambda>e. length (ar_src_mac (ace_arp e)) = 6) es"

text \<open>A later cache knows every address that an earlier one knows.\<close>

definition learning :: "arp_cache_entry list list \<Rightarrow> bool" where
  "learning cs \<longleftrightarrow> sorted_wrt (\<lambda>a b. \<forall>ip. find_hwaddr a ip \<noteq> None \<longrightarrow> find_hwaddr b ip \<noteq> None) cs \<and> list_all macs_ok cs"

text \<open>The frames of one message: ARP requests for its next hop, then the segment.\<close>

definition sends :: "'a tcp_state_scheme \<Rightarrow> tcp_message \<Rightarrow> u8 list list \<Rightarrow> bool" where
  "sends w e out \<longleftrightarrow> (\<exists>c rt k mac ident. bound_for w e c rt
     \<and> out = replicate k (arp_request_frame (dev_addr (rt_dev rt)) (next_hop rt (remote_ip c)) (rt_dev rt))
         @ [eth_frame mac (dev_hwaddr (rt_dev rt)) ETH_P_IP
             (ipv4_packet ident (ucast (s_protocol (m_sub e))) (dev_addr (rt_dev rt)) (remote_ip c)
               (get_bytes (s_head (m_sub e)) 34 (unat (m_tcp_len e))))])"

lemma find_mac_length: "find_hwaddr es ip = Some mac \<Longrightarrow> macs_ok es \<Longrightarrow> length mac = 6"
  by (induction es) (auto simp: macs_ok_def split: if_splits)

text \<open>What \<open>arp_rx\<close> does to the cache keeps to this.\<close>

lemma learn_learning:
  assumes "cache_wf es" and "macs_ok es" and "length (ar_src_mac d) = 6"
  shows "learning [es, learn d es]"
proof -
  have "update_arp_entry d es = Some es' \<Longrightarrow> macs_ok es'" for es'
    using assms(2,3) by (induction es arbitrary: es') (auto simp: macs_ok_def split: if_splits)
  then have "macs_ok (learn d es)"
    using assms(2,3) by (auto simp: learn_def macs_ok_def split: option.splits)
  then show ?thesis using assms(1,2) by (simp add: learning_def find_learn)
qed

section \<open>One message\<close>

definition same_segment :: "subuff \<Rightarrow> subuff \<Rightarrow> bool" where
  "same_segment sub sub' \<longleftrightarrow> s_end sub' = s_end sub \<and> s_protocol sub' = s_protocol sub \<and> (\<forall>i \<ge> 34. s_head sub' i = s_head sub i)"

lemma same_segment_trans: "same_segment a b \<Longrightarrow> same_segment b c \<Longrightarrow> same_segment a c"
  by (simp add: same_segment_def)

lemma same_segment_bytes: "same_segment a b \<Longrightarrow> get_bytes (s_head b) 34 n = get_bytes (s_head a) 34 n"
  by (intro get_bytes_cong) (simp add: same_segment_def)

lemma bound_for_cache [simp]:
  "bound_for (w\<lparr>arp_cache := x, tap_out := y\<rparr>) e c rt = bound_for w e c rt"
  "bound_for (w\<lparr>arp_cache := x\<rparr>) e c rt = bound_for w e c rt"
  "bound_for (w\<lparr>tap_out := y\<rparr>) e c rt = bound_for w e c rt"
  by (simp_all add: bound_for_def route_lookup_def)

lemma try_unresolved:
  assumes b: "bound_for w e c rt" and s: "same_segment (m_sub e) sub" and o: "\<not> oom w"
    and u: "find_hwaddr (arp_cache w) (next_hop rt (remote_ip c)) = None"
  shows "\<exists>sub'. same_segment (m_sub e) sub'
    \<and> ip_output (remote_ip c) (sub\<lparr>s_data := 34, s_len := m_tcp_len e\<rparr>) w = Inr (- EAGAIN, sub',
        w\<lparr>tap_out := tap_out w @ [arp_request_frame (dev_addr (rt_dev rt)) (next_hop rt (remote_ip c)) (rt_dev rt)]\<rparr>)"
proof -
  let ?sub = "sub\<lparr>s_data := 34, s_len := m_tcp_len e\<rparr>"
  have "same_segment sub (ip_out_sub (remote_ip c) rt ?sub)"
    by (simp add: same_segment_def ip_out_sub_def ip_send_check_def put16_apply ip_fill_apply)
  then have "same_segment (m_sub e) (ip_out_sub (remote_ip c) rt ?sub)" using s by (rule same_segment_trans [rotated])
  moreover have "ip_output (remote_ip c) ?sub w = Inr (- EAGAIN, ip_out_sub (remote_ip c) rt ?sub,
      w\<lparr>tap_out := tap_out w @ [arp_request_frame (dev_addr (rt_dev rt)) (next_hop rt (remote_ip c)) (rt_dev rt)]\<rparr>)"
    using b s o u by (simp add: bound_for_def same_segment_def ip_output_hop arp_get_hwaddr_def arp_request_ok)
  ultimately show ?thesis by blast
qed

lemma try_resolved:
  assumes b: "bound_for w e c rt" and s: "same_segment (m_sub e) sub" and t: "\<forall>f. tap_ret w f \<noteq> - EAGAIN"
    and r: "find_hwaddr (arp_cache w) (next_hop rt (remote_ip c)) \<noteq> None" and m: "macs_ok (arp_cache w)"
  shows "\<exists>sub' ret f. same_segment (m_sub e) sub' \<and> sends w e [f] \<and> ret \<noteq> - EAGAIN
    \<and> ip_output (remote_ip c) (sub\<lparr>s_data := 34, s_len := m_tcp_len e\<rparr>) w = Inr (ret, sub', w\<lparr>tap_out := tap_out w @ [f]\<rparr>)"
proof -
  let ?sub = "sub\<lparr>s_data := 34, s_len := m_tcp_len e\<rparr>"
  obtain mac where mac: "find_hwaddr (arp_cache w) (next_hop rt (remote_ip c)) = Some mac" "length mac = 6"
    using r m find_mac_length by blast
  let ?f = "eth_frame mac (dev_hwaddr (rt_dev rt)) ETH_P_IP
    (ipv4_packet (get16 (s_head sub) 18) (ucast (s_protocol sub)) (dev_addr (rt_dev rt)) (remote_ip c)
      (get_bytes (s_head sub) 34 (unat (m_tcp_len e))))"
  let ?sub' = "(ip_out_sub (remote_ip c) rt ?sub)\<lparr>s_data := 0, s_len := s_len ?sub + 34,
    s_head := eth_fill (s_head (ip_out_sub (remote_ip c) rt ?sub)) 0 mac (dev_hwaddr (rt_dev rt)) ETH_P_IP\<rparr>"
  have e: "s_end sub = s_end (m_sub e)" "s_protocol sub = s_protocol (m_sub e)"
      "get_bytes (s_head sub) 34 (unat (m_tcp_len e)) = get_bytes (s_head (m_sub e)) 34 (unat (m_tcp_len e))"
    using s same_segment_bytes by (auto simp: same_segment_def)
  have "ip_output (remote_ip c) ?sub w = Inr (tap_ret w ?f, ?sub', w\<lparr>tap_out := tap_out w @ [?f]\<rparr>)"
    by (rule ip_output_frame) (use b mac e(1) in \<open>simp_all add: bound_for_def arp_get_hwaddr_def\<close>)
  moreover have "same_segment sub ?sub'"
    using b mac(2) by (simp add: same_segment_def ip_out_high bound_for_def) (simp add: ip_out_sub_def)
  then have "same_segment (m_sub e) ?sub'" using s by (rule same_segment_trans [rotated])
  moreover have "sends w e [?f]"
    unfolding sends_def using b e
    by (intro exI [of _ c] exI [of _ rt] exI [of _ 0] exI [of _ mac] exI [of _ "get16 (s_head sub) 18"]) simp
  ultimately show ?thesis using t by blast
qed

lemma bound_for_unique: "bound_for w e c rt \<Longrightarrow> bound_for w e c' rt' \<Longrightarrow> c' = c \<and> rt' = rt"
  by (auto simp: bound_for_def)

lemma sends_more:
  assumes "bound_for w e c rt" and "sends w e out"
  shows "sends w e (arp_request_frame (dev_addr (rt_dev rt)) (next_hop rt (remote_ip c)) (rt_dev rt) # out)"
proof -
  obtain k mac ident where out: "out = replicate k (arp_request_frame (dev_addr (rt_dev rt)) (next_hop rt (remote_ip c)) (rt_dev rt))
      @ [eth_frame mac (dev_hwaddr (rt_dev rt)) ETH_P_IP
          (ipv4_packet ident (ucast (s_protocol (m_sub e))) (dev_addr (rt_dev rt)) (remote_ip c)
            (get_bytes (s_head (m_sub e)) 34 (unat (m_tcp_len e))))]"
    using assms bound_for_unique [OF assms(1)] unfolding sends_def by blast
  show ?thesis
    unfolding sends_def using assms(1) out
    by (intro exI [of _ c] exI [of _ rt] exI [of _ "Suc k"] exI [of _ mac] exI [of _ ident]) simp
qed

lemma sends_cong: "(\<And>c rt. bound_for w' e c rt = bound_for w e c rt) \<Longrightarrow> sends w' e out = sends w e out"
  by (simp add: sends_def)

lemma resend_spins:
  assumes "bound_for w e c rt" and "same_segment (m_sub e) sub" and "\<not> oom w"
    and "\<forall>cs \<in> set (arp_cache w # env). find_hwaddr cs (next_hop rt (remote_ip c)) = None"
  shows "resend env (remote_ip c) e 34 sub w = Inr None"
  using assms
proof (induction env arbitrary: w sub)
  case Nil
  then show ?case using try_unresolved [OF Nil.prems(1-3)] by (auto simp: resend.simps [of "[]"])
next
  case (Cons cs env)
  obtain sub' where s: "same_segment (m_sub e) sub'"
      "ip_output (remote_ip c) (sub\<lparr>s_data := 34, s_len := m_tcp_len e\<rparr>) w = Inr (- EAGAIN, sub',
        w\<lparr>tap_out := tap_out w @ [arp_request_frame (dev_addr (rt_dev rt)) (next_hop rt (remote_ip c)) (rt_dev rt)]\<rparr>)"
    using try_unresolved [OF Cons.prems(1-3)] Cons.prems(4) by auto
  show ?case
    unfolding resend.simps [of "cs # env"] using s Cons.prems by (simp add: Cons.IH)
qed

lemma resend_ends:
  assumes "bound_for w e c rt" and "same_segment (m_sub e) sub" and "\<not> oom w" and "\<forall>f. tap_ret w f \<noteq> - EAGAIN"
    and "\<exists>cs \<in> set (arp_cache w # env). find_hwaddr cs (next_hop rt (remote_ip c)) \<noteq> None"
    and "list_all macs_ok (arp_cache w # env)"
  shows "\<exists>sub' out pre cache rest. arp_cache w # env = pre @ cache # rest \<and> sends w e out \<and> same_segment (m_sub e) sub'
    \<and> resend env (remote_ip c) e 34 sub w = Inr (Some (sub', rest, w\<lparr>arp_cache := cache, tap_out := tap_out w @ out\<rparr>))"
  using assms
proof (induction env arbitrary: w sub)
  case Nil
  then obtain sub' ret f where "same_segment (m_sub e) sub'" "sends w e [f]" "ret \<noteq> - EAGAIN"
      "ip_output (remote_ip c) (sub\<lparr>s_data := 34, s_len := m_tcp_len e\<rparr>) w = Inr (ret, sub', w\<lparr>tap_out := tap_out w @ [f]\<rparr>)"
    using try_resolved [OF Nil.prems(1,2,4)] by auto
  then show ?case by (intro exI [of _ sub'] exI [of _ "[f]"] exI [of _ "[]"] exI [of _ "arp_cache w"] exI [of _ "[]"])
      (simp add: resend.simps [of "[]"])
next
  case (Cons cs env)
  let ?arp = "arp_request_frame (dev_addr (rt_dev rt)) (next_hop rt (remote_ip c)) (rt_dev rt)"
  show ?case
  proof (cases "find_hwaddr (arp_cache w) (next_hop rt (remote_ip c)) = None")
    case True
    obtain sub1 where s1: "same_segment (m_sub e) sub1"
        "ip_output (remote_ip c) (sub\<lparr>s_data := 34, s_len := m_tcp_len e\<rparr>) w = Inr (- EAGAIN, sub1, w\<lparr>tap_out := tap_out w @ [?arp]\<rparr>)"
      using try_unresolved [OF Cons.prems(1-3) True] by blast
    let ?w = "w\<lparr>tap_out := tap_out w @ [?arp], arp_cache := cs\<rparr>"
    have "bound_for ?w e c rt" using Cons.prems(1) by (simp add: bound_for_def route_lookup_def)
    then obtain sub' out pre cache rest where r: "cs # env = pre @ cache # rest" "sends ?w e out" "same_segment (m_sub e) sub'"
        "resend env (remote_ip c) e 34 sub1 ?w = Inr (Some (sub', rest, ?w\<lparr>arp_cache := cache, tap_out := tap_out ?w @ out\<rparr>))"
      using Cons.IH [of ?w sub1] s1(1) Cons.prems(3-6) True by auto
    have "sends w e out" using r(2) by (subst (asm) sends_cong [of _ _ w]) (simp_all add: bound_for_def route_lookup_def)
    then have "sends w e (?arp # out)" by (rule sends_more [OF Cons.prems(1)])
    moreover have "resend (cs # env) (remote_ip c) e 34 sub w =
        Inr (Some (sub', rest, w\<lparr>arp_cache := cache, tap_out := tap_out w @ ?arp # out\<rparr>))"
      unfolding resend.simps [of "cs # env"] using s1(2) r(4) by simp
    ultimately show ?thesis using r(1,3)
      by (intro exI [of _ sub'] exI [of _ "?arp # out"] exI [of _ "arp_cache w # pre"] exI [of _ cache] exI [of _ rest]) simp
  next
    case False
    then obtain sub' ret f where "same_segment (m_sub e) sub'" "sends w e [f]" "ret \<noteq> - EAGAIN"
        "ip_output (remote_ip c) (sub\<lparr>s_data := 34, s_len := m_tcp_len e\<rparr>) w = Inr (ret, sub', w\<lparr>tap_out := tap_out w @ [f]\<rparr>)"
      using try_resolved [OF Cons.prems(1,2,4)] Cons.prems(6) by auto
    then show ?thesis
      by (intro exI [of _ sub'] exI [of _ "[f]"] exI [of _ "[]"] exI [of _ "arp_cache w"] exI [of _ "cs # env"])
        (simp add: resend.simps [of "cs # env"])
  qed
qed

section \<open>A pass\<close>

lemma learning_suffix: "learning (pre @ cs) \<Longrightarrow> learning cs"
  by (simp add: learning_def sorted_wrt_append)

lemma learning_last:
  assumes "learning cs" and "x \<in> set cs" and "find_hwaddr x ip \<noteq> None"
  shows "find_hwaddr (last cs) ip \<noteq> None"
proof (cases "x = last cs")
  case False
  have cs: "cs \<noteq> []" using assms(2) by auto
  then have x: "x \<in> set (butlast cs)"
    using assms(2) False by (metis append_butlast_last_id Un_iff empty_iff empty_set set_ConsD set_append)
  have "learning (butlast cs @ [last cs])" using assms(1) append_butlast_last_id [OF cs] by simp
  then have "find_hwaddr x ip \<noteq> None \<longrightarrow> find_hwaddr (last cs) ip \<noteq> None"
    using x unfolding learning_def sorted_wrt_append by simp
  then show ?thesis using assms(3) by blast
qed (use assms(3) in simp)

lemma hop_known_bound: "bound_for w e c rt \<Longrightarrow> hop_known w cache e \<longleftrightarrow> find_hwaddr cache (next_hop rt (remote_ip c)) \<noteq> None"
  using bound_for_unique unfolding hop_known_def by blast

text \<open>A message that stays in the queue.\<close>

definition sent_once_more :: "tcp_message \<Rightarrow> subuff \<Rightarrow> tcp_message" where
  "sent_once_more e sub = e\<lparr>m_sub := sub, m_retries := if m_retries e = RETRIES_INFINITE then m_retries e else m_retries e - 1\<rparr>"

text \<open>The state between two messages: a later cache, more frames, perhaps a released message.\<close>

definition pass_state :: "tcp_message \<Rightarrow> arp_cache_entry list \<Rightarrow> u8 list list \<Rightarrow> 'a tcp_state_scheme \<Rightarrow> 'a tcp_state_scheme" where
  "pass_state e cache out w = release_msgs (if once e then 1 else 0) (w\<lparr>arp_cache := cache, tap_out := tap_out w @ out\<rparr>)"

lemma pass_state_simps [simp]:
  "bound_for (pass_state e cache out w) = bound_for w" "sends (pass_state e cache out w) = sends w"
  "hop_known (pass_state e cache out w) = hop_known w" "oom (pass_state e cache out w) = oom w"
  "tap_ret (pass_state e cache out w) = tap_ret w" "arp_cache (pass_state e cache out w) = cache"
  "tap_out (pass_state e cache out w) = tap_out w @ out"
proof -
  show b: "bound_for (pass_state e cache out w) = bound_for w"
    by (simp add: fun_eq_iff bound_for_def pass_state_def route_lookup_def release_msgs_def)
  show "sends (pass_state e cache out w) = sends w" by (simp add: fun_eq_iff sends_def b)
  show "hop_known (pass_state e cache out w) = hop_known w" by (simp add: fun_eq_iff hop_known_def b)
qed (simp_all add: pass_state_def release_msgs_def)

text \<open>One message of the loop: it is sent, if its next hop gets known, and the loop goes on.\<close>

lemma retransmit_loop_step:
  assumes b: "bound_for w e c rt" and o: "\<not> oom w" and t: "\<forall>f. tap_ret w f \<noteq> - EAGAIN" and l: "learning (arp_cache w # env)"
    and k: "hop_known w (last (arp_cache w # env)) e"
  shows "\<exists>sub' out cache rest. learning (cache # rest) \<and> last (cache # rest) = last (arp_cache w # env) \<and> sends w e out
    \<and> resent e (sent_once_more e sub')
    \<and> retransmit_loop env (e # es) w =
        bindo (retransmit_loop rest es (pass_state e cache out w)) (\<lambda>r. Inr (map_option (\<lambda>(es', w).
          (if once e then es'
           else sent_once_more e sub' # es', w)) r))"
proof -
  have "\<exists>cs \<in> set (arp_cache w # env). find_hwaddr cs (next_hop rt (remote_ip c)) \<noteq> None"
    using k hop_known_bound [OF b] last_in_set [of "arp_cache w # env"] by blast
  then obtain sub' out pre cache rest where r: "arp_cache w # env = pre @ cache # rest" "sends w e out" "same_segment (m_sub e) sub'"
      "resend env (remote_ip c) e 34 (m_sub e) w = Inr (Some (sub', rest, w\<lparr>arp_cache := cache, tap_out := tap_out w @ out\<rparr>))"
    using resend_ends [OF b, of "m_sub e" env] o t l by (auto simp: same_segment_def learning_def)
  have "learning (cache # rest)" "last (cache # rest) = last (arp_cache w # env)"
    using l learning_suffix unfolding r(1) by auto
  moreover have "resent e (sent_once_more e sub')" using r(3) by (simp add: resent_def same_segment_def sent_once_more_def)
  moreover have "tcbs w (m_tcb e) = Some c" "m_tcp_ptr e = Some 34" "m_retries e - 1 \<noteq> 0" using b by (simp_all add: bound_for_def)
  then have "retransmit_loop env (e # es) w = bindo (retransmit_loop rest es (pass_state e cache out w)) (\<lambda>x. Inr (map_option (\<lambda>(es', w).
      (if once e then es' else sent_once_more e sub' # es', w)) x))"
    using r(4) by (cases "once e") (simp_all add: after_resend_eq pass_state_def release_msgs_def sent_once_more_def)
  ultimately show ?thesis using r(2) by blast
qed

lemma retransmit_loop_ends:
  assumes "\<forall>e \<in> set es. hop_known w (last (arp_cache w # env)) e" and "\<not> oom w" and "\<forall>f. tap_ret w f \<noteq> - EAGAIN"
    and "learning (arp_cache w # env)"
  shows "\<exists>es' outs w'. retransmit_loop env es w = Inr (Some (es', w')) \<and> list_all2 (sends w) es outs
    \<and> tap_out w' = tap_out w @ concat outs \<and> list_all2 resent (filter (\<lambda>e. \<not> once e) es) es' \<and> \<not> oom w'"
  using assms
proof (induction es arbitrary: w env)
  case Nil
  then show ?case by auto
next
  case (Cons e es)
  obtain c rt where b: "bound_for w e c rt" using Cons.prems(1) by (auto simp: hop_known_def)
  obtain sub' out cache rest where r: "learning (cache # rest)" "last (cache # rest) = last (arp_cache w # env)" "sends w e out"
      "resent e (sent_once_more e sub')"
      "retransmit_loop env (e # es) w =
        bindo (retransmit_loop rest es (pass_state e cache out w)) (\<lambda>r. Inr (map_option (\<lambda>(es', w).
          (if once e then es'
           else sent_once_more e sub' # es', w)) r))"
    using retransmit_loop_step [OF b Cons.prems(2-4)] Cons.prems(1) by fastforce
  obtain es' outs w' where "retransmit_loop rest es (pass_state e cache out w) = Inr (Some (es', w'))" "list_all2 (sends w) es outs"
      "tap_out w' = tap_out w @ out @ concat outs" "list_all2 resent (filter (\<lambda>e. \<not> once e) es) es'" "\<not> oom w'"
    using Cons.IH [of "pass_state e cache out w" rest] Cons.prems r(1,2) by auto
  then show ?case
    unfolding r(5) using r(3,4) by (intro exI [of _ "if once e then es' else sent_once_more e sub' # es'"] exI [of _ "out # outs"]) auto
qed

lemma retransmit_loop_spins:
  assumes "\<forall>e \<in> set es. \<exists>c rt. bound_for w e c rt" and "\<not> oom w" and "\<forall>f. tap_ret w f \<noteq> - EAGAIN"
    and "learning (arp_cache w # env)" and "\<exists>e \<in> set es. \<not> hop_known w (last (arp_cache w # env)) e"
  shows "retransmit_loop env es w = Inr None"
  using assms
proof (induction es arbitrary: w env)
  case (Cons e es)
  obtain c rt where b: "bound_for w e c rt" using Cons.prems(1) by auto
  show ?case
  proof (cases "hop_known w (last (arp_cache w # env)) e")
    case True
    obtain sub' out cache rest where r: "learning (cache # rest)" "last (cache # rest) = last (arp_cache w # env)"
        "retransmit_loop env (e # es) w =
          bindo (retransmit_loop rest es (pass_state e cache out w)) (\<lambda>r. Inr (map_option (\<lambda>(es', w).
            (if once e then es'
             else sent_once_more e sub' # es', w)) r))"
      using retransmit_loop_step [OF b Cons.prems(2-4) True] by blast
    then show ?thesis
      using Cons.IH [of "pass_state e cache out w" rest] Cons.prems True by auto
  next
    case False
    then have "find_hwaddr (last (arp_cache w # env)) (next_hop rt (remote_ip c)) = None" using hop_known_bound [OF b] by blast
    then have "\<forall>cs \<in> set (arp_cache w # env). find_hwaddr cs (next_hop rt (remote_ip c)) = None"
      using learning_last [OF Cons.prems(4)] by blast
    then have "resend env (remote_ip c) e 34 (m_sub e) w = Inr None"
      using resend_spins [OF b _ Cons.prems(2)] by (simp add: same_segment_def)
    then show ?thesis using b by (simp add: bound_for_def)
  qed
qed simp

text \<open>C9. A pass of the retransmission thread over messages that are intact ends if and only if the receiving thread, which forgets no address, learns the next hop of every
  queued message. Then each segment has gone out, unchanged and in order, behind as many ARP requests for its next hop as attempts had failed, and what stays in the queue is what is
  to be repeated; otherwise the thread spins.\<close>

theorem retransmit_pass_ends:
  assumes "\<forall>e \<in> set (messages_array w). \<exists>c rt. bound_for w e c rt" and "\<not> oom w" and "\<forall>f. tap_ret w f \<noteq> - EAGAIN"
    and "learning (arp_cache w # env)"
  shows "if \<forall>e \<in> set (messages_array w). hop_known w (last (arp_cache w # env)) e
    then \<exists>w' outs. tcp_retransmit_handler env w = Inr (Some w') \<and> list_all2 (sends w) (messages_array w) outs
      \<and> tap_out w' = tap_out w @ concat outs
      \<and> list_all2 resent (filter (\<lambda>e. \<not> once e) (messages_array w)) (messages_array w')
    else tcp_retransmit_handler env w = Inr None"
proof (cases "\<forall>e \<in> set (messages_array w). hop_known w (last (arp_cache w # env)) e")
  case True
  obtain es' outs w' where l: "retransmit_loop env (messages_array w) w = Inr (Some (es', w'))" "list_all2 (sends w) (messages_array w) outs"
      "tap_out w' = tap_out w @ concat outs" "list_all2 resent (filter (\<lambda>e. \<not> once e) (messages_array w)) es'" "\<not> oom w'"
    using retransmit_loop_ends [OF True assms(2-4)] by blast
  then have "\<exists>w''. tcp_retransmit_handler env w = Inr (Some w'') \<and> tap_out w'' = tap_out w' \<and> messages_array w'' = es'"
    by (simp add: tcp_retransmit_handler_def timer_oneshot_def timer_insert_eq timer_get_tick_def)
  with True l show ?thesis by (simp only: if_True) metis
next
  case False
  then have "retransmit_loop env (messages_array w) w = Inr None" by (intro retransmit_loop_spins assms) blast
  with False show ?thesis by (simp only: if_False) (simp add: tcp_retransmit_handler_def)
qed

text \<open>The next hop of the queued segment gets known at the third attempt; without that entry the pass does not end.\<close>

lemma sample_bound: "bound_for ((sample_tcp sample_tcb [sample_msg])\<lparr>arp_cache := x\<rparr>) sample_msg sample_tcb (host_route sample_dev)"
proof -
  have "route_lookup 0x0A000005 (sample_tcp sample_tcb [sample_msg]) = Some (host_route sample_dev)"
    by (simp add: sample_tcp_def route_lookup_def rt_matches_def lo_route_def host_route_def sample_lo_def)
  moreover have "m_tcb sample_msg = 0" "m_tcp_ptr sample_msg = Some 34" "s_end (m_sub sample_msg) = 56"
      "m_tcp_len sample_msg = 22" "m_retries sample_msg = RETRIES_INFINITE"
    by (simp_all add: sample_msg_def tx_msg_fields) (simp_all add: tx_msg_def tcp_sub_simps)
  ultimately show ?thesis by (simp add: bound_for_def route_lookup_def)
qed

theorem retransmit_pass_ends_witness:
  "(\<exists>w'. tcp_retransmit_handler [[], [sample_gw_entry]] ((sample_tcp sample_tcb [sample_msg])\<lparr>arp_cache := []\<rparr>) = Inr (Some w')
      \<and> length (messages_array w') = 1)
 \<and> tcp_retransmit_handler [[], []] ((sample_tcp sample_tcb [sample_msg])\<lparr>arp_cache := []\<rparr>) = Inr None"
proof -
  let ?w = "(sample_tcp sample_tcb [sample_msg])\<lparr>arp_cache := []\<rparr>"
  have b: "\<forall>e \<in> set (messages_array ?w). \<exists>c rt. bound_for ?w e c rt" using sample_bound [of "[]"] by auto
  have n: "next_hop (host_route sample_dev) (remote_ip sample_tcb) = 0x0A000005" by (simp add: next_hop_def host_route_def)
  have k: "hop_known ?w [sample_gw_entry] sample_msg" "\<not> hop_known ?w [] sample_msg"
    by (simp_all add: hop_known_bound [OF sample_bound] n sample_gw_entry_def)
  have l: "learning [[], [], [sample_gw_entry]]" "learning [[], [], []]"
    by (simp_all add: learning_def macs_ok_def sample_gw_entry_def)
  have "\<not> once sample_msg" by (simp add: once_def sample_msg_def tx_msg_fields)
  then show ?thesis
    using retransmit_pass_ends [OF b, of "[[], [sample_gw_entry]]"] retransmit_pass_ends [OF b, of "[[], []]"] k l
    by (auto dest: list_all2_lengthD)
qed

end
