(* ===== verification/Tcp_Transfer.thy ===== *)
theory Tcp_Transfer
  imports Tcp_Recv
begin

text \<open>
  Both ends of a connection: what \<open>tcp_tx\<close> queues on one side and \<open>tcp_rx\<close> and \<open>read_bytes\<close> make of it on the other, whatever the network does with the segments in between
  (\<^verbatim>\<open>src/tcp.c\<close>). The two sides are states of their own; they meet only in the bytes of the segments and in the agreement on the first sequence number, which
  the handshake has made.
\<close>

section \<open>From a queued message to a received segment\<close>

text \<open>\<open>sub\<close> holds the segment of the message \<open>e\<close>, in the form in which \<open>tcp_rx\<close> processes it, with the header fields converted to host order, and
  \<open>segment_len\<close> bytes of data.\<close>

definition arrives :: "tcp_message \<Rightarrow> subuff \<Rightarrow> u32 \<Rightarrow> bool" where
  "arrives e sub segment_len \<longleftrightarrow>
     segment_len = m_tcp_data_len e \<and> 54 + unat segment_len \<le> s_end sub
   \<and> (\<forall>i. 34 \<le> i \<and> i < 54 + unat segment_len \<longrightarrow> s_head sub i = tcp_hdr_to_host (s_head (m_sub e)) i)"

lemma tcp_hdr_to_host_apply:
  "get32 (tcp_hdr_to_host m) 38 = ntohl (get32 m 38)"
  "tcp_hdr_to_host m 47 = m 47"
  "50 \<le> i \<Longrightarrow> tcp_hdr_to_host m i = m i"
  by (simp_all add: tcp_hdr_to_host_def Let_def byte_simps)

lemma arrives_fields:
  assumes "arrives e sub n"
  shows "th_seq (s_head sub) = msg_seq e" and "th_flags (s_head sub) = s_head (m_sub e) 47"
    and "get_bytes (s_head sub) 54 (unat n) = msg_data e" and "length (msg_data e) = unat n" and "54 + unat n \<le> s_end sub"
proof -
  have b: "s_head sub i = tcp_hdr_to_host (s_head (m_sub e)) i" if "34 \<le> i" "i < 54 + unat n" for i
    using assms that by (simp add: arrives_def)
  have "th_seq (s_head sub) = get32 (tcp_hdr_to_host (s_head (m_sub e))) 38" by (simp add: get32_def b)
  then show "th_seq (s_head sub) = msg_seq e" by (simp add: tcp_hdr_to_host_apply msg_seq_def)
  show "th_flags (s_head sub) = s_head (m_sub e) 47" by (simp add: b tcp_hdr_to_host_apply)
  show "get_bytes (s_head sub) 54 (unat n) = msg_data e" "length (msg_data e) = unat n" "54 + unat n \<le> s_end sub"
    using assms by (auto simp: arrives_def msg_data_def tcp_hdr_to_host_apply intro!: get_bytes_cong)
qed

text \<open>What \<open>tcp_tx\<close> queues, as a list of segments.\<close>

lemma tcp_tx_segments:
  assumes "tcbs w p = Some c" and "\<not> send_locked c" and "\<not> oom w" and "length data < 2 ^ 32"
    and "tcp_tx p data (word_of_nat (length data)) TCP_ACK RETRIES_INFINITE w = Inr (r, w')"
    and "messages_array w' = messages_array w @ ms"
  obtains segs where "ms = seg_msgs p c segs RETRIES_INFINITE" and "\<forall>s \<in> set segs. length s \<le> 1460"
    and "concat segs = take (length (concat segs)) data" and "r = Sent n \<Longrightarrow> concat segs = data"
proof -
  have l: "length data = unat (word_of_nat (length data) :: u32)" using assms(4) by (simp add: unat_of_nat)
  obtain segs r1 w1 where s: "tcp_tx_loop p data (word_of_nat (length data)) 0 TCP_ACK RETRIES_INFINITE w = Inr (r1, w1)"
      "segmented p c data 0 RETRIES_INFINITE w segs r1 w1"
    using tcp_tx_loop_segmented [OF assms(1-3) l, of 0 RETRIES_INFINITE] by auto
  then have "r1 = r" "w1 = w'" using assms(5) by (simp_all add: tcp_tx_def)
  with s(2) show ?thesis
    using assms(6) unfolding segmented_def Let_def by (intro that [of segs]) auto
qed

lemma seg_msgs_flags:
  "\<forall>s \<in> set segs. length s \<le> 1460 \<Longrightarrow> e \<in> set (seg_msgs p c segs retries) \<Longrightarrow> s_head (m_sub e) 47 = TCP_ACK"
  by (induction segs arbitrary: c) (auto simp: tx_msg_def Let_def tcp_sub_fields)

text \<open>Every message of a run of consecutive ones is a piece of the joined stream.\<close>

lemma consecutive_piece:
  assumes "consecutive s0 ms" and "e \<in> set ms"
  shows "\<exists>off. off + length (msg_data e) \<le> length (concat (map msg_data ms)) \<and> msg_seq e = s0 + word_of_nat off
    \<and> msg_data e = take (length (msg_data e)) (drop off (concat (map msg_data ms)))"
  using assms
proof (induction ms arbitrary: s0)
  case (Cons d ms)
  show ?case
  proof (cases "e = d")
    case True
    then show ?thesis using Cons.prems(1) by (intro exI [of _ 0]) simp
  next
    case False
    then obtain off where "off + length (msg_data e) \<le> length (concat (map msg_data ms))"
        "msg_seq e = s0 + word_of_nat (length (msg_data d)) + word_of_nat off"
        "msg_data e = take (length (msg_data e)) (drop off (concat (map msg_data ms)))"
      using Cons.IH [of "s0 + word_of_nat (length (msg_data d))"] Cons.prems by auto
    then show ?thesis
      by (intro exI [of _ "length (msg_data d) + off"]) (simp add: add.assoc)
  qed
qed simp

lemma arrives_piece:
  assumes "consecutive s0 ms" and "\<forall>e \<in> set ms. s_head (m_sub e) 47 = TCP_ACK" and "e \<in> set ms" and "arrives e sub n"
  shows "piece (concat (map msg_data ms)) s0 sub n"
proof -
  note a = arrives_fields [OF assms(4)]
  obtain off where "off + length (msg_data e) \<le> length (concat (map msg_data ms))" "msg_seq e = s0 + word_of_nat off"
      "msg_data e = take (length (msg_data e)) (drop off (concat (map msg_data ms)))"
    using consecutive_piece [OF assms(1,3)] by blast
  moreover have "th_flags (s_head sub) = TCP_ACK" using a(2) assms(2,3) by simp
  ultimately show ?thesis unfolding piece_def using a by auto
qed

section \<open>Delivery in order\<close>

fun arrivals :: "rx_event list \<Rightarrow> (subuff \<times> u32) list" where
  "arrivals [] = []"
| "arrivals (Segment sub n # evs) = (sub, n) # arrivals evs"
| "arrivals (Read n # evs) = arrivals evs"

definition in_order :: "tcp_message list \<Rightarrow> rx_event list \<Rightarrow> bool" where
  "in_order ms evs \<longleftrightarrow> list_all2 (\<lambda>e (sub, n). arrives e sub n) ms (arrivals evs)"

lemma rx_in_order:
  assumes "tcbs w q = Some c" and "in_stream S s0 k got c" and "\<not> oom w" and "length S \<le> 65535"
    and "\<forall>ev \<in> set evs. peer_event S s0 q (messages_array w) ev"
    and "in_order ms evs" and "consecutive (s0 + word_of_nat k) ms" and "concat (map msg_data ms) = drop k S"
  shows "\<exists>more w' c'. rx_run q evs w = Inr (more, w') \<and> tcbs w' q = Some c' \<and> in_stream S s0 (length S) (got @ more) c'"
  using assms
proof (induction evs arbitrary: w c k got ms)
  case Nil
  then have "ms = []" by (simp add: in_order_def)
  then have "k = length S" using Nil.prems(2,8) by (simp add: in_stream_def)
  then show ?case using Nil.prems(1,2) by auto
next
  case (Cons ev evs)
  show ?case
  proof (cases ev)
    case (Segment sub n)
    obtain e ms' where ms: "ms = e # ms'" "arrives e sub n" "in_order ms' evs"
      using Cons.prems(6) Segment by (auto simp: in_order_def list_all2_Cons2)
    have ev: "piece S s0 sub n" "\<forall>e \<in> set (messages_array w). clean_ack q sub e"
      using Cons.prems(5) Segment by (simp_all add: peer_event_def)
    let ?a = "accepted c (s_head sub) n"
    have seq: "th_seq (s_head sub) = rcv_nxt c"
      using Cons.prems(2,7) ms(1) arrives_fields(1) [OF ms(2)] by (simp add: in_stream_def)
    have st: "k \<le> length S" "got @ rcv_contents c = take k S" using Cons.prems(2) by (simp_all add: in_stream_def)
    have "length got + length (rcv_contents c) = k" using arg_cong [OF st(2), of length] st(1) unfolding length_append length_take by simp
    then have k: "k + length (msg_data e) \<le> length S" "length (rcv_contents c) \<le> k"
      using st(1) arg_cong [OF Cons.prems(8), of length] unfolding ms(1) by simp_all
    then have a: "?a = msg_data e" using seq Cons.prems(4) arrives_fields(3) [OF ms(2)] by (simp add: accepted_def)
    obtain w1 c1 where w1: "rx_segment q sub n w = Inr w1" "tcbs w1 = (tcbs w)(q \<mapsto> c1)" "oom w1 = oom w"
        "set (messages_array w1) \<subseteq> set (messages_array w) \<union> {data_ack q c1 |c1. True}"
        "in_stream S s0 (k + length (msg_data e)) got c1"
      using segment_in_stream [OF Cons.prems(1-3) _ ev] Cons.prems(4) unfolding a by auto
    have p: "peer_event S s0 q (messages_array w1) ev'" if "ev' \<in> set evs" for ev'
      by (rule peer_event_mono [OF _ w1(4)]) (use that Cons.prems(5) in \<open>simp only: list.set_intros\<close>)
    have "msg_data e @ concat (map msg_data ms') = drop k S" using Cons.prems(8) ms(1) by simp
    then have d: "concat (map msg_data ms') = drop (k + length (msg_data e)) S"
      unfolding append_eq_conv_conj by (simp add: add.commute)
    have "consecutive (s0 + word_of_nat (k + length (msg_data e))) ms'" using Cons.prems(7) ms(1) by (simp add: add.assoc)
    then obtain more w' c' where "rx_run q evs w1 = Inr (more, w')" "tcbs w' q = Some c'" "in_stream S s0 (length S) (got @ more) c'"
      using Cons.IH [of w1 c1 "k + length (msg_data e)" got ms'] w1(2,3,5) Cons.prems(3,4) ms(3) d p by auto
    then show ?thesis using Segment w1(1) by auto
  next
    case (Read n)
    have o: "in_order ms evs" using Cons.prems(6) Read by (simp add: in_order_def)
    obtain r w1 c1 where w1: "read_bytes q n w = Inr (r, w1)" "tcbs w1 = (tcbs w)(q \<mapsto> c1)" "oom w1 = oom w"
        "messages_array w1 = messages_array w" "in_stream S s0 k (got @ (case r of Bytes bs \<Rightarrow> bs | Read_waiting \<Rightarrow> [])) c1"
      using read_in_stream [OF Cons.prems(2,1), of n] by blast
    then obtain more w' c' where "rx_run q evs w1 = Inr (more, w')" "tcbs w' q = Some c'"
        "in_stream S s0 (length S) ((got @ (case r of Bytes bs \<Rightarrow> bs | Read_waiting \<Rightarrow> [])) @ more) c'"
      using Cons.IH [of w1 c1 k "got @ (case r of Bytes bs \<Rightarrow> bs | Read_waiting \<Rightarrow> [])" ms] Cons.prems(3-8) o by auto
    then show ?thesis using Read w1(1) by auto
  qed
qed

section \<open>The transfer\<close>

text \<open>C2. What one end hands to \<open>tcp_tx\<close>, the other end reads. Whatever the network does to the queued segments, losing, repeating and reordering them, and however the reads of the
  application fall, the bytes read and those waiting in the receive buffer are a prefix of the data; and if every queued segment arrives once and in order, they are all of it, provided
  it fits into the receive buffer.\<close>

theorem data_transfer:
  assumes "tcbs ws p = Some cs" and "\<not> send_locked cs" and "\<not> oom ws" and "length data < 2 ^ 32"
    and "tcp_tx p data (word_of_nat (length data)) TCP_ACK RETRIES_INFINITE ws = Inr (r, ws')"
    and "messages_array ws' = messages_array ws @ ms"
    and "tcbs wr q = Some cr" and "c_state cr = TCP_ESTABLISHED" and "\<not> tcb_locked cr" and "\<not> send_locked cr"
    and "rcv_buff_len cr = 0" and "\<not> oom wr" and "rcv_nxt cr = snd_nxt cs"
    and "\<forall>e \<in> set (messages_array wr). m_tcb e \<noteq> q"
    and "\<forall>(sub, n) \<in> set (arrivals evs). \<exists>e \<in> set ms. arrives e sub n"
  shows "\<exists>got wr' cr' k. rx_run q evs wr = Inr (got, wr') \<and> tcbs wr' q = Some cr' \<and> got @ rcv_contents cr' = take k data
    \<and> (r = Sent (word_of_nat (length data)) \<and> in_order ms evs \<and> length data \<le> 65535 \<longrightarrow> got @ rcv_contents cr' = data)"
proof -
  obtain segs where segs: "ms = seg_msgs p cs segs RETRIES_INFINITE" "\<forall>s \<in> set segs. length s \<le> 1460"
      "concat segs = take (length (concat segs)) data" "r = Sent (word_of_nat (length data)) \<Longrightarrow> concat segs = data"
    using tcp_tx_segments [OF assms(1-6)] by blast
  let ?S = "concat segs"
  have ms: "map msg_data ms = segs" "consecutive (snd_nxt cs) ms" "\<forall>e \<in> set ms. s_head (m_sub e) 47 = TCP_ACK"
    using segs(1,2) seg_msgs_data seg_msgs_consecutive seg_msgs_flags by auto
  have i: "in_stream ?S (snd_nxt cs) 0 [] cr"
    using assms(8-11,13) by (simp add: in_stream_def rcv_ok_def rcv_contents_def)
  have ev: "peer_event ?S (snd_nxt cs) q (messages_array wr) ev" if "ev \<in> set evs" for ev
  proof (cases ev)
    case (Segment sub n)
    have "(sub, n) \<in> set (arrivals evs)" using that Segment by (induction evs rule: arrivals.induct) auto
    then obtain e where "e \<in> set ms" "arrives e sub n" using assms(15) by auto
    then have "piece ?S (snd_nxt cs) sub n" using arrives_piece [OF ms(2,3)] unfolding ms(1) by blast
    then show ?thesis using Segment assms(14) by (simp add: peer_event_def clean_ack_def)
  qed (simp add: peer_event_def)
  have len: "length ?S < 4294967296"
    using arg_cong [OF segs(3), of length] assms(4) unfolding length_take by simp
  show ?thesis
  proof (cases "r = Sent (word_of_nat (length data)) \<and> in_order ms evs \<and> length data \<le> 65535")
    case True
    then have "\<exists>more w' c'. rx_run q evs wr = Inr (more, w') \<and> tcbs w' q = Some c' \<and> in_stream ?S (snd_nxt cs) (length ?S) ([] @ more) c'"
      using rx_in_order [OF assms(7) i assms(12) _ _ _, of evs ms] ev segs(4) ms(1,2) by auto
    then obtain more w' c' where m: "rx_run q evs wr = Inr (more, w')" "tcbs w' q = Some c'" "in_stream ?S (snd_nxt cs) (length ?S) more c'"
      by auto
    then have "more @ rcv_contents c' = data" using segs(4) True by (simp add: in_stream_def)
    then show ?thesis using m(1,2) by (metis order_refl take_all)
  next
    case False
    obtain more w' k c' where m: "rx_run q evs wr = Inr (more, w')" "tcbs w' q = Some c'" "in_stream ?S (snd_nxt cs) k ([] @ more) c'"
      using rx_run_stream [OF assms(7) i assms(12) len] ev by blast
    then have "more @ rcv_contents c' = take k (take (length ?S) data)" using segs(3) by (simp add: in_stream_def)
    then show ?thesis using m(1,2) False by (metis take_take)
  qed
qed

text \<open>Two bytes, one segment, read one byte at a time.\<close>

definition sample_sent :: tcp_message where
  "sample_sent = tx_msg 0 sample_tcb [7, 8] TCP_ACK RETRIES_INFINITE"

definition sample_received :: subuff where
  "sample_received = (m_sub sample_sent)\<lparr>s_head := tcp_hdr_to_host (s_head (m_sub sample_sent))\<rparr>"

lemma sample_sent_tx:
  "tcp_tx 0 [7, 8] 2 TCP_ACK RETRIES_INFINITE (sample_tcp sample_tcb []) =
     Inr (Sent 2, tx_world 0 sample_tcb [7, 8] TCP_ACK 2 RETRIES_INFINITE (sample_tcp sample_tcb []))"
proof -
  have "seg_size sample_tcb 2 0 = 2" by (simp add: seg_size_def)
  then show ?thesis
    by (simp add: tcp_tx_def tcp_tx_loop.simps [of 0] tcp_tx_round_ok)
qed

lemma sample_arrives: "arrives sample_sent sample_received 2"
proof -
  have "unat (m_tcp_data_len sample_sent) = 2" by (simp add: sample_sent_def tx_msg_fields)
  then have "m_tcp_data_len sample_sent = 2" by (simp add: word_unat_eq_iff)
  moreover have "s_end (m_sub sample_sent) = 56" by (simp add: sample_sent_def tx_msg_def tcp_sub_simps)
  ultimately show ?thesis by (simp add: arrives_def sample_received_def)
qed

theorem data_transfer_witness:
  "\<exists>got w' c'. rx_run 0 [Read 1, Segment sample_received 2, Read 1] (sample_tcp (sample_tcb\<lparr>rcv_nxt := 1000\<rparr>) []) = Inr (got, w')
     \<and> tcbs w' 0 = Some c' \<and> got @ rcv_contents c' = [7, 8]"
proof -
  have "in_order [sample_sent] [Read 1, Segment sample_received 2, Read 1]" by (simp add: in_order_def sample_arrives)
  then show ?thesis
    using data_transfer [of "sample_tcp sample_tcb []" 0 sample_tcb "[7, 8]" "Sent 2"
        "tx_world 0 sample_tcb [7, 8] TCP_ACK 2 RETRIES_INFINITE (sample_tcp sample_tcb [])" "[sample_sent]"
        "sample_tcp (sample_tcb\<lparr>rcv_nxt := 1000\<rparr>) []" 0 "sample_tcb\<lparr>rcv_nxt := 1000\<rparr>"
        "[Read 1, Segment sample_received 2, Read 1]"] sample_sent_tx sample_arrives
    by (auto simp: sample_sent_def [symmetric])
qed

end
