(* ===== verification/Packed_Headers.thy ===== *)
theory Packed_Headers
  imports Tcp_Send
begin

text \<open>
  The packed structures of the headers that travel on the wire: \<^verbatim>\<open>struct eth_hdr\<close> (\<^verbatim>\<open>src/ethernet.h\<close>), \<^verbatim>\<open>struct arp_hdr\<close> and
  \<^verbatim>\<open>struct arp_ipv4\<close> (\<^verbatim>\<open>src/arp.h\<close>), \<^verbatim>\<open>struct iphdr\<close> (\<^verbatim>\<open>src/ip.h\<close>), \<^verbatim>\<open>struct icmp\<close> (\<^verbatim>\<open>src/icmp.h\<close>) and \<^verbatim>\<open>struct tcp_hdr\<close>
  (\<^verbatim>\<open>src/tcp.h\<close>), each as a record with the fields of the C declaration, and where \<^verbatim>\<open>__attribute__((packed))\<close> puts
  them. A multi-byte field holds what a load of the field gives on the host; the flexible array member at the end
  of a structure is the rest of the block.

  The other theories work on the bytes of a block at fixed offsets, as the compiled code does. Here those offsets are shown to
  be the ones of the declarations: a structure fills \<^verbatim>\<open>sizeof\<close> bytes without gaps or overlaps (locale \<open>packed_struct\<close>),
  and the field-by-field stores of \<open>ip_output\<close>, \<open>arp_reply\<close>, \<open>create_tcp_packet\<close> and \<open>netdev_transmit\<close> are the store of one whole header.
\<close>

section \<open>The structures\<close>

record eth_hdr_t =
  eh_dmac :: "u8 list"
  eh_smac :: "u8 list"
  eh_ethertype :: u16

record arp_hdr_t =
  ah_hwtype :: u16
  ah_protype :: u16
  ah_hwsize :: u8
  ah_prosize :: u8
  ah_opcode :: u16

record iphdr =
  ih_ihl :: u8
  ih_version :: u8
  ih_tos :: u8
  ih_len :: u16
  ih_id :: u16
  ih_frag_offset :: u16
  ih_ttl :: u8
  ih_proto :: u8
  ih_csum :: u16
  ih_saddr :: u32
  ih_daddr :: u32

record icmp =
  ic_type :: u8
  ic_code :: u8
  ic_checksum :: u16

record tcp_hdr =
  tp_src_port :: u16
  tp_dst_port :: u16
  tp_seq_num :: u32
  tp_ack_num :: u32
  tp_data_offset :: u8
  tp_flags :: u8
  tp_window_size :: u16
  tp_checksum :: u16
  tp_urgent_ptr :: u16

text \<open>What is in the range of the C type: arrays of six bytes, bit fields of four bits.\<close>

definition eth_hdr_wf :: "eth_hdr_t \<Rightarrow> bool" where
  "eth_hdr_wf h \<longleftrightarrow> length (eh_dmac h) = 6 \<and> length (eh_smac h) = 6"

definition arp_ipv4_wf :: "arp_ipv4 \<Rightarrow> bool" where
  "arp_ipv4_wf d \<longleftrightarrow> length (ar_src_mac d) = 6 \<and> length (ar_dst_mac d) = 6"

definition iphdr_wf :: "iphdr \<Rightarrow> bool" where
  "iphdr_wf h \<longleftrightarrow> ih_ihl h < 16 \<and> ih_version h < 16"

section \<open>The layouts\<close>

definition load_eth_hdr :: "mem \<Rightarrow> nat \<Rightarrow> eth_hdr_t" where
  "load_eth_hdr m p = \<lparr>eh_dmac = get_bytes m p 6, eh_smac = get_bytes m (p + 6) 6, eh_ethertype = get16 m (p + 12)\<rparr>"

definition store_eth_hdr :: "mem \<Rightarrow> nat \<Rightarrow> eth_hdr_t \<Rightarrow> mem" where
  "store_eth_hdr m p h = put16 (put_bytes (put_bytes m p (eh_dmac h)) (p + 6) (eh_smac h)) (p + 12) (eh_ethertype h)"

definition load_arp_hdr :: "mem \<Rightarrow> nat \<Rightarrow> arp_hdr_t" where
  "load_arp_hdr m p = \<lparr>ah_hwtype = get16 m p, ah_protype = get16 m (p + 2), ah_hwsize = m (p + 4),
     ah_prosize = m (p + 5), ah_opcode = get16 m (p + 6)\<rparr>"

definition store_arp_hdr :: "mem \<Rightarrow> nat \<Rightarrow> arp_hdr_t \<Rightarrow> mem" where
  "store_arp_hdr m p h =
     put16 ((put16 (put16 m p (ah_hwtype h)) (p + 2) (ah_protype h))(p + 4 := ah_hwsize h, p + 5 := ah_prosize h)) (p + 6) (ah_opcode h)"

definition load_arp_ipv4 :: "mem \<Rightarrow> nat \<Rightarrow> arp_ipv4" where
  "load_arp_ipv4 m p = \<lparr>ar_src_mac = get_bytes m p 6, ar_src_ip = get32 m (p + 6),
     ar_dst_mac = get_bytes m (p + 10) 6, ar_dst_ip = get32 m (p + 16)\<rparr>"

definition store_arp_ipv4 :: "mem \<Rightarrow> nat \<Rightarrow> arp_ipv4 \<Rightarrow> mem" where
  "store_arp_ipv4 m p d =
     put32 (put_bytes (put32 (put_bytes m p (ar_src_mac d)) (p + 6) (ar_src_ip d)) (p + 10) (ar_dst_mac d)) (p + 16) (ar_dst_ip d)"

definition load_iphdr :: "mem \<Rightarrow> nat \<Rightarrow> iphdr" where
  "load_iphdr m p = \<lparr>ih_ihl = m p mod 16, ih_version = m p div 16, ih_tos = m (p + 1), ih_len = get16 m (p + 2),
     ih_id = get16 m (p + 4), ih_frag_offset = get16 m (p + 6), ih_ttl = m (p + 8), ih_proto = m (p + 9),
     ih_csum = get16 m (p + 10), ih_saddr = get32 m (p + 12), ih_daddr = get32 m (p + 16)\<rparr>"

definition store_iphdr :: "mem \<Rightarrow> nat \<Rightarrow> iphdr \<Rightarrow> mem" where
  "store_iphdr m p h =
     (let m = m(p := ih_version h * 16 + ih_ihl h, p + 1 := ih_tos h);
          m = put16 (put16 (put16 m (p + 2) (ih_len h)) (p + 4) (ih_id h)) (p + 6) (ih_frag_offset h);
          m = m(p + 8 := ih_ttl h, p + 9 := ih_proto h)
      in put32 (put32 (put16 m (p + 10) (ih_csum h)) (p + 12) (ih_saddr h)) (p + 16) (ih_daddr h))"

definition load_icmp :: "mem \<Rightarrow> nat \<Rightarrow> icmp" where
  "load_icmp m p = \<lparr>ic_type = m p, ic_code = m (p + 1), ic_checksum = get16 m (p + 2)\<rparr>"

definition store_icmp :: "mem \<Rightarrow> nat \<Rightarrow> icmp \<Rightarrow> mem" where
  "store_icmp m p h = put16 (m(p := ic_type h, p + 1 := ic_code h)) (p + 2) (ic_checksum h)"

definition load_tcp_hdr :: "mem \<Rightarrow> nat \<Rightarrow> tcp_hdr" where
  "load_tcp_hdr m p = \<lparr>tp_src_port = get16 m p, tp_dst_port = get16 m (p + 2), tp_seq_num = get32 m (p + 4),
     tp_ack_num = get32 m (p + 8), tp_data_offset = m (p + 12), tp_flags = m (p + 13), tp_window_size = get16 m (p + 14),
     tp_checksum = get16 m (p + 16), tp_urgent_ptr = get16 m (p + 18)\<rparr>"

definition store_tcp_hdr :: "mem \<Rightarrow> nat \<Rightarrow> tcp_hdr \<Rightarrow> mem" where
  "store_tcp_hdr m p h =
     (let m = put16 (put16 m p (tp_src_port h)) (p + 2) (tp_dst_port h);
          m = put32 (put32 m (p + 4) (tp_seq_num h)) (p + 8) (tp_ack_num h);
          m = m(p + 12 := tp_data_offset h, p + 13 := tp_flags h)
      in put16 (put16 (put16 m (p + 14) (tp_window_size h)) (p + 16) (tp_checksum h)) (p + 18) (tp_urgent_ptr h))"

section \<open>Packed structures\<close>

text \<open>
  The contract of a packed structure of \<open>size\<close> bytes: a store is read back, storing what is there changes nothing, and
  a store determines exactly its own bytes, whatever they were.
\<close>

locale packed_struct =
  fixes size :: nat
    and wf :: "'h \<Rightarrow> bool"
    and load :: "mem \<Rightarrow> nat \<Rightarrow> 'h"
    and store :: "mem \<Rightarrow> nat \<Rightarrow> 'h \<Rightarrow> mem"
  assumes wf_load: "wf (load m p)"
    and load_store: "wf h \<Longrightarrow> load (store m p h) p = h"
    and store_load: "store m p (load m p) = m"
    and store_frame: "wf h \<Longrightarrow> j < p \<or> p + size \<le> j \<Longrightarrow> store m p h j = m j"
    and store_bytes: "wf h \<Longrightarrow> i < size \<Longrightarrow> store m p h (p + i) = store m' q h (q + i)"
    and load_bytes: "(\<And>i. i < size \<Longrightarrow> m (p + i) = m' (q + i)) \<Longrightarrow> load m p = load m' q"
begin

definition to_bytes :: "'h \<Rightarrow> u8 list" where
  "to_bytes h = get_bytes (store (\<lambda>_. 0) 0 h) 0 size"

lemma length_to_bytes: "length (to_bytes h) = size"
  by (simp add: to_bytes_def)

lemma store_put_bytes: "wf h \<Longrightarrow> store m p h = put_bytes m p (to_bytes h)"
proof
  fix j
  assume h: "wf h"
  show "store m p h j = put_bytes m p (to_bytes h) j"
  proof (cases "p \<le> j \<and> j < p + size")
    case True
    then show ?thesis
      using store_bytes [OF h, of "j - p" m p "\<lambda>_. 0" 0] by (auto simp: to_bytes_def put_bytes_def)
  next
    case False
    then show ?thesis using store_frame [OF h, of j p m] by (auto simp: to_bytes_def put_bytes_def)
  qed
qed

lemma load_to_bytes: "wf h \<Longrightarrow> load (put_bytes m p (to_bytes h)) p = h"
  using load_store [of h m p] store_put_bytes [of h m p] by simp

lemma to_bytes_load: "to_bytes (load m p) = get_bytes m p size"
proof -
  have "get_bytes (put_bytes m p (to_bytes (load m p))) p size = get_bytes m p size"
    using store_put_bytes [OF wf_load, of m p m p] store_load [of m p] by simp
  then show ?thesis using get_put_bytes_same [of m p "to_bytes (load m p)"] by (simp add: length_to_bytes)
qed

lemma load_store_other:
  assumes "wf h" and "p + size \<le> q \<or> q + size \<le> p"
  shows "load (store m q h) p = load m p"
  by (rule load_bytes) (use assms store_frame in auto)

theorem bij_to_bytes: "bij_betw to_bytes {h. wf h} {bs. length bs = size}"
proof (rule bij_betw_byWitness [where f' = "\<lambda>bs. load (put_bytes (\<lambda>_. 0) 0 bs) 0"])
  show "\<forall>h \<in> {h. wf h}. load (put_bytes (\<lambda>_. 0) 0 (to_bytes h)) 0 = h" by (simp add: load_to_bytes)
  show "\<forall>bs \<in> {bs. length bs = size}. to_bytes (load (put_bytes (\<lambda>_. 0) 0 bs) 0) = bs"
    using get_put_bytes_same [of "\<lambda>_. 0" 0] by (auto simp: to_bytes_load)
  show "to_bytes ` {h. wf h} \<subseteq> {bs. length bs = size}" by (auto simp: length_to_bytes)
  show "(\<lambda>bs. load (put_bytes (\<lambda>_. 0) 0 bs) 0) ` {bs. length bs = size} \<subseteq> {h. wf h}" by (auto simp: wf_load)
qed

end

section \<open>The headers are packed\<close>

lemma put_get_same [simp]:
  "put16 m i (get16 m i) = m"
  "put32 m i (get32 m i) = m"
  "put_bytes m i (get_bytes m i n) = m"
  by (auto simp: fun_eq_iff put16_apply put32_apply get16_def get32_def byte_simps put_bytes_def)

lemma get_bytes_put_other [byte_simps]:
  "i + n \<le> j \<or> j + 2 \<le> i \<Longrightarrow> get_bytes (put16 m j v) i n = get_bytes m i n"
  "i + n \<le> j \<or> j + 4 \<le> i \<Longrightarrow> get_bytes (put32 m j w) i n = get_bytes m i n"
  "i + n \<le> j \<or> j < i \<Longrightarrow> get_bytes (m(j := x)) i n = get_bytes m i n"
  by (auto intro!: get_bytes_cong simp: put16_apply put32_apply)

lemma get_put_bytes_above [byte_simps]:
  "j + length xs \<le> i \<Longrightarrow> get16 (put_bytes m j xs) i = get16 m i"
  "j + length xs \<le> i \<Longrightarrow> get32 (put_bytes m j xs) i = get32 m i"
  "j + length xs \<le> i \<Longrightarrow> put_bytes m j xs i = m i"
  by (simp_all add: put_bytes_def get16_def get32_def)

lemma get_put_bytes_len [simp]: "length xs = n \<Longrightarrow> get_bytes (put_bytes m i xs) i n = xs"
  using get_put_bytes_same by blast

lemma nibbles_inverse:
  fixes a b :: u8
  assumes "a < 16" and "b < 16"
  shows "(a * 16 + b) div 16 = a" and "(a * 16 + b) mod 16 = b"
proof -
  have n: "unat a < 16" "unat b < 16" using assms by (simp_all add: word_less_nat_alt)
  have "unat (a * 16 + b) = unat a * 16 + unat b" by (rule unat_nibbles [OF n])
  then show "(a * 16 + b) div 16 = a" "(a * 16 + b) mod 16 = b"
    using n by (simp_all add: word_unat_eq_iff unat_div_distrib unat_mod_distrib)
qed

lemma nibbles_join: "(x :: u8) div 16 * 16 + x mod 16 = x"
  by (rule div_mult_mod_eq)

lemma nibble_bounds: "(x :: u8) mod 16 < 16" "(x :: u8) div 16 < 16"
proof -
  have "unat x div 16 < 16" using unat_u8_less [of x] by linarith
  then show "x mod 16 < 16" "x div 16 < 16" by (simp_all add: word_less_nat_alt unat_mod_distrib unat_div_distrib)
qed

lemmas layout_simps = put16_apply put32_apply put_bytes_def get16_def get32_def get_bytes_def Let_def

text \<open>A field is the same in two blocks that agree on the bytes of the structure.\<close>

lemma shift_field:
  assumes "\<And>i. i < n \<Longrightarrow> m (p + i) = m' (q + i)"
  shows "k < n \<Longrightarrow> m (p + k) = m' (q + k)"
    and "k + 1 < n \<Longrightarrow> get16 m (p + k) = get16 m' (q + k)"
    and "k + 3 < n \<Longrightarrow> get32 m (p + k) = get32 m' (q + k)"
    and "k + l \<le> n \<Longrightarrow> get_bytes m (p + k) l = get_bytes m' (q + k) l"
  using assms assms [of k] assms [of "k + 1"] assms [of "k + 2"] assms [of "k + 3"]
  by (auto simp: get16_def get32_def add.assoc intro!: get_bytes_cong)

lemmas shift_first = shift_field [where k = 0, simplified]

interpretation eth_layout: packed_struct 14 eth_hdr_wf load_eth_hdr store_eth_hdr
proof
  fix h :: eth_hdr_t and m m' :: mem and p q i j :: nat
  show "eth_hdr_wf (load_eth_hdr m p)" by (simp add: eth_hdr_wf_def load_eth_hdr_def)
  show "store_eth_hdr m p (load_eth_hdr m p) = m" by (simp add: store_eth_hdr_def load_eth_hdr_def)
  show "load_eth_hdr m p = load_eth_hdr m' q" if "\<And>i. i < 14 \<Longrightarrow> m (p + i) = m' (q + i)"
    using shift_field [of 14 m p m' q] shift_first [of 14 m p m' q] that by (simp add: load_eth_hdr_def)
  assume h: "eth_hdr_wf h"
  then show "load_eth_hdr (store_eth_hdr m p h) p = h"
    by (simp add: store_eth_hdr_def load_eth_hdr_def eth_hdr_wf_def byte_simps)
  show "store_eth_hdr m p h j = m j" if "j < p \<or> p + 14 \<le> j"
    using that h by (auto simp: store_eth_hdr_def eth_hdr_wf_def layout_simps)
  show "store_eth_hdr m p h (p + i) = store_eth_hdr m' q h (q + i)" if "i < 14"
    using that h by (auto simp: store_eth_hdr_def eth_hdr_wf_def layout_simps)
qed

interpretation arp_layout: packed_struct 8 "\<lambda>_. True" load_arp_hdr store_arp_hdr
proof
  fix h :: arp_hdr_t and m m' :: mem and p q i j :: nat
  show "store_arp_hdr m p (load_arp_hdr m p) = m" by (simp add: store_arp_hdr_def load_arp_hdr_def)
  show "load_arp_hdr m p = load_arp_hdr m' q" if "\<And>i. i < 8 \<Longrightarrow> m (p + i) = m' (q + i)"
    using shift_field [of 8 m p m' q] shift_first [of 8 m p m' q] that by (simp add: load_arp_hdr_def del: add_2_eq_Suc' One_nat_def)
  show "load_arp_hdr (store_arp_hdr m p h) p = h"
    by (simp add: store_arp_hdr_def load_arp_hdr_def byte_simps)
  show "store_arp_hdr m p h j = m j" if "j < p \<or> p + 8 \<le> j"
    using that by (auto simp: store_arp_hdr_def layout_simps)
  show "store_arp_hdr m p h (p + i) = store_arp_hdr m' q h (q + i)" if "i < 8"
    using that by (auto simp: store_arp_hdr_def layout_simps)
qed simp_all

interpretation arp_data_layout: packed_struct 20 arp_ipv4_wf load_arp_ipv4 store_arp_ipv4
proof
  fix h :: arp_ipv4 and m m' :: mem and p q i j :: nat
  show "arp_ipv4_wf (load_arp_ipv4 m p)" by (simp add: arp_ipv4_wf_def load_arp_ipv4_def)
  show "store_arp_ipv4 m p (load_arp_ipv4 m p) = m" by (simp add: store_arp_ipv4_def load_arp_ipv4_def)
  show "load_arp_ipv4 m p = load_arp_ipv4 m' q" if "\<And>i. i < 20 \<Longrightarrow> m (p + i) = m' (q + i)"
    using shift_field [of 20 m p m' q] shift_first [of 20 m p m' q] that by (simp add: load_arp_ipv4_def del: add_2_eq_Suc' One_nat_def)
  assume h: "arp_ipv4_wf h"
  then show "load_arp_ipv4 (store_arp_ipv4 m p h) p = h"
    by (simp add: store_arp_ipv4_def load_arp_ipv4_def arp_ipv4_wf_def byte_simps)
  show "store_arp_ipv4 m p h j = m j" if "j < p \<or> p + 20 \<le> j"
    using that h by (auto simp: store_arp_ipv4_def arp_ipv4_wf_def layout_simps)
  show "store_arp_ipv4 m p h (p + i) = store_arp_ipv4 m' q h (q + i)" if "i < 20"
    using that h by (auto simp: store_arp_ipv4_def arp_ipv4_wf_def layout_simps)
qed

interpretation ip_layout: packed_struct 20 iphdr_wf load_iphdr store_iphdr
proof
  fix h :: iphdr and m m' :: mem and p q i j :: nat
  show "iphdr_wf (load_iphdr m p)" by (simp add: iphdr_wf_def load_iphdr_def nibble_bounds)
  show "store_iphdr m p (load_iphdr m p) = m" by (simp add: store_iphdr_def load_iphdr_def nibbles_join Let_def)
  show "load_iphdr m p = load_iphdr m' q" if "\<And>i. i < 20 \<Longrightarrow> m (p + i) = m' (q + i)"
    using shift_field [of 20 m p m' q] shift_first [of 20 m p m' q] that by (simp add: load_iphdr_def del: add_2_eq_Suc' One_nat_def)
  assume h: "iphdr_wf h"
  then show "load_iphdr (store_iphdr m p h) p = h"
    by (simp add: store_iphdr_def load_iphdr_def iphdr_wf_def byte_simps nibbles_inverse Let_def)
  show "store_iphdr m p h j = m j" if "j < p \<or> p + 20 \<le> j"
    using that h by (auto simp: store_iphdr_def iphdr_wf_def layout_simps)
  show "store_iphdr m p h (p + i) = store_iphdr m' q h (q + i)" if "i < 20"
    using that h by (auto simp: store_iphdr_def iphdr_wf_def layout_simps) presburger
qed

interpretation icmp_layout: packed_struct 4 "\<lambda>_. True" load_icmp store_icmp
proof
  fix h :: icmp and m m' :: mem and p q i j :: nat
  show "store_icmp m p (load_icmp m p) = m" by (simp add: store_icmp_def load_icmp_def)
  show "load_icmp m p = load_icmp m' q" if "\<And>i. i < 4 \<Longrightarrow> m (p + i) = m' (q + i)"
    using shift_field [of 4 m p m' q] shift_first [of 4 m p m' q] that by (simp add: load_icmp_def del: add_2_eq_Suc' One_nat_def)
  show "load_icmp (store_icmp m p h) p = h"
    by (simp add: store_icmp_def load_icmp_def byte_simps)
  show "store_icmp m p h j = m j" if "j < p \<or> p + 4 \<le> j"
    using that by (auto simp: store_icmp_def layout_simps)
  show "store_icmp m p h (p + i) = store_icmp m' q h (q + i)" if "i < 4"
    using that by (auto simp: store_icmp_def layout_simps)
qed simp_all

interpretation tcp_layout: packed_struct 20 "\<lambda>_. True" load_tcp_hdr store_tcp_hdr
proof
  fix h :: tcp_hdr and m m' :: mem and p q i j :: nat
  show "store_tcp_hdr m p (load_tcp_hdr m p) = m" by (simp add: store_tcp_hdr_def load_tcp_hdr_def Let_def)
  show "load_tcp_hdr m p = load_tcp_hdr m' q" if "\<And>i. i < 20 \<Longrightarrow> m (p + i) = m' (q + i)"
    using shift_field [of 20 m p m' q] shift_first [of 20 m p m' q] that by (simp add: load_tcp_hdr_def del: add_2_eq_Suc' One_nat_def)
  show "load_tcp_hdr (store_tcp_hdr m p h) p = h"
    by (simp add: store_tcp_hdr_def load_tcp_hdr_def byte_simps Let_def)
  show "store_tcp_hdr m p h j = m j" if "j < p \<or> p + 20 \<le> j"
    using that by (auto simp: store_tcp_hdr_def layout_simps)
  show "store_tcp_hdr m p h (p + i) = store_tcp_hdr m' q h (q + i)" if "i < 20"
    using that by (auto simp: store_tcp_hdr_def layout_simps) presburger
qed simp_all

section \<open>The stores of the senders\<close>

text \<open>
  Where a header starts in the block of a buffer: \<^verbatim>\<open>IP_HDR_FROM_SUB\<close>, and the functions \<open>arp_hdr\<close>, \<open>icmp_hdr\<close> and \<open>tcp_hdr_from_sub\<close>. The last two add
  the size of an IP header without options, whatever \<^verbatim>\<open>ihl\<close> says.
\<close>

definition IP_HDR_FROM_SUB :: "subuff \<Rightarrow> nat" where "IP_HDR_FROM_SUB sub = unat ETH_HDR_LEN"

definition arp_hdr :: "subuff \<Rightarrow> nat" where "arp_hdr sub = unat ETH_HDR_LEN"

definition icmp_hdr :: "subuff \<Rightarrow> nat" where "icmp_hdr sub = IP_HDR_FROM_SUB sub + unat IP_HDR_LEN"

definition tcp_hdr_from_sub :: "subuff \<Rightarrow> nat" where "tcp_hdr_from_sub sub = IP_HDR_FROM_SUB sub + unat IP_HDR_LEN"

text \<open>The offsets that the other theories use are those of the fields of the declared structures at these places.\<close>

lemma arp_fields:
  "load_arp_hdr (s_head sub) (arp_hdr sub) =
     \<lparr>ah_hwtype = get16 (s_head sub) 14, ah_protype = get16 (s_head sub) 16, ah_hwsize = s_head sub 18,
      ah_prosize = s_head sub 19, ah_opcode = get16 (s_head sub) 20\<rparr>"
  "load_arp_ipv4 (s_head sub) (arp_hdr sub + unat ARP_HDR_LEN) = arp_data (s_head sub)"
  by (simp_all add: load_arp_hdr_def arp_hdr_def load_arp_ipv4_def arp_data_def)

lemma ip_fields:
  "ip_version (s_head sub) = ih_version (load_iphdr (s_head sub) (IP_HDR_FROM_SUB sub))"
  "ip_ihl (s_head sub) = ih_ihl (load_iphdr (s_head sub) (IP_HDR_FROM_SUB sub))"
  "IP_PAYLOAD_LEN (s_head sub) =
     uint (ih_len (load_iphdr (s_head sub) (IP_HDR_FROM_SUB sub))) - uint (ih_ihl (load_iphdr (s_head sub) (IP_HDR_FROM_SUB sub))) * 4"
  by (simp_all add: ip_version_def ip_ihl_def load_iphdr_def IP_PAYLOAD_LEN_def IP_HDR_FROM_SUB_def)

lemma icmp_fields:
  "load_icmp (s_head sub) (icmp_hdr sub) = \<lparr>ic_type = s_head sub 34, ic_code = s_head sub 35, ic_checksum = get16 (s_head sub) 36\<rparr>"
  by (simp add: load_icmp_def icmp_hdr_def IP_HDR_FROM_SUB_def)

lemma tcp_fields:
  "load_tcp_hdr (s_head sub) (tcp_hdr_from_sub sub) =
     \<lparr>tp_src_port = th_src (s_head sub), tp_dst_port = th_dst (s_head sub), tp_seq_num = th_seq (s_head sub), tp_ack_num = th_ack (s_head sub),
      tp_data_offset = s_head sub 46, tp_flags = th_flags (s_head sub), tp_window_size = th_window (s_head sub),
      tp_checksum = get16 (s_head sub) 50, tp_urgent_ptr = get16 (s_head sub) 52\<rparr>"
  by (simp add: load_tcp_hdr_def tcp_hdr_from_sub_def IP_HDR_FROM_SUB_def)

lemma ip_fill_one_header:
  "ip_fill m slen proto src dst = store_iphdr m 14
     \<lparr>ih_ihl = 5, ih_version = 4, ih_tos = 0, ih_len = htons (ucast slen), ih_id = htons (ih_id (load_iphdr m 14)),
      ih_frag_offset = htons 0x4000, ih_ttl = 64, ih_proto = ucast proto, ih_csum = 0,
      ih_saddr = htonl src, ih_daddr = htonl dst\<rparr>"
proof -
  have "htons 0x4000 = 0x0040" by (simp add: bswap16_def le16_def byte0_def byte1_def)
  then show ?thesis
    by (auto simp: ip_fill_stores store_iphdr_def load_iphdr_def fun_eq_iff put16_apply put32_apply Let_def)
qed

lemma arp_reply_one_header:
  "arp_reply_mem m netdev = store_arp_ipv4
     (store_arp_hdr m 14 \<lparr>ah_hwtype = htons (get16 m 14), ah_protype = htons (get16 m 16), ah_hwsize = m 18, ah_prosize = m 19,
        ah_opcode = htons ARP_REPLY\<rparr>) 22
     \<lparr>ar_src_mac = take 6 (dev_hwaddr netdev), ar_src_ip = htonl (dev_addr netdev),
      ar_dst_mac = ar_src_mac (arp_data m), ar_dst_ip = htonl (ar_src_ip (arp_data m))\<rparr>"
  by (simp add: arp_reply_mem_def store_arp_ipv4_def store_arp_hdr_def arp_data_def Let_def byte_simps)
    (auto simp: fun_eq_iff put16_apply put32_apply put_bytes_def)

text \<open>The header of \<open>create_tcp_packet\<close>, with the value that goes into the checksum field.\<close>

definition tcp_header :: "tcb \<Rightarrow> u8 \<Rightarrow> u16 \<Rightarrow> tcp_hdr" where
  "tcp_header c flags csum =
     \<lparr>tp_src_port = htons (local_port c), tp_dst_port = htons (remote_port c), tp_seq_num = htonl (snd_nxt c),
      tp_ack_num = htonl (rcv_nxt c), tp_data_offset = TCP_MIN_DATA_OFFSET, tp_flags = flags,
      tp_window_size = 65535, tp_checksum = csum, tp_urgent_ptr = 0\<rparr>"

lemma put_bytes_Nil [simp]: "put_bytes m i [] = m"
  by (auto simp: put_bytes_def fun_eq_iff)

lemma tcp_fill_one_header:
  "tcp_fill m p c data flags slen =
     (let m0 = put_bytes (store_tcp_hdr m p (tcp_header c flags 0)) (p + 20) data
      in put_bytes (store_tcp_hdr m p (tcp_header c flags
           (do_tcp_csum m0 p (uint slen) (htons 6) (htonl (local_ip c)) (htonl (remote_ip c))))) (p + 20) data)"
proof -
  define unsummed where "unsummed =
     (let m = put16 m p (htons (local_port c));
          m = put16 m (p + 2) (htons (remote_port c));
          m = put32 m (p + 4) (snd_nxt c);
          m = put32 m (p + 8) (rcv_nxt c);
          m = m(p + 12 := TCP_MIN_DATA_OFFSET);
          m = m(p + 13 := flags);
          m = put16 m (p + 14) (htons 65535);
          m = put16 m (p + 18) 0;
          m = put32 m (p + 4) (htonl (snd_nxt c));
          m = put32 m (p + 8) (htonl (rcv_nxt c));
          m = put16 m (p + 14) 65535;
          m = put_bytes m (p + 20) data
      in put16 m (p + 16) 0)"
  have u: "unsummed = put_bytes (store_tcp_hdr m p (tcp_header c flags 0)) (p + 20) data"
    by (auto simp: unsummed_def store_tcp_hdr_def tcp_header_def Let_def fun_eq_iff put16_apply put32_apply put_bytes_def)
  have "tcp_fill m p c data flags slen = put16 unsummed (p + 16)
      (do_tcp_csum unsummed p (uint slen) (htons 6) (htonl (local_ip c)) (htonl (remote_ip c)))"
    by (cases data) (simp_all add: tcp_fill_def unsummed_def Let_def byte_simps)
  moreover have "put16 (put_bytes (store_tcp_hdr m p (tcp_header c flags 0)) (p + 20) data) (p + 16) v =
      put_bytes (store_tcp_hdr m p (tcp_header c flags v)) (p + 20) data" for v
    by (auto simp: store_tcp_hdr_def tcp_header_def Let_def fun_eq_iff put16_apply put32_apply put_bytes_def)
  ultimately show ?thesis by (simp only: u Let_def)
qed

section \<open>Properties\<close>


text \<open>C22. The field-by-field stores of the senders, conversions in place included, leave exactly one well-formed header behind, in network order: the IP
  header of \<open>ip_output\<close> keeps the identification of the buffer and is complete but for the checksum, an ARP reply exchanges the two ends of the request, and a TCP segment
  consists of the header, with the checksum over header and data, and the data.\<close>

theorem headers_stored:
  "ip_fill m slen proto src dst = store_iphdr m 14
     \<lparr>ih_ihl = 5, ih_version = 4, ih_tos = 0, ih_len = htons (ucast slen), ih_id = htons (ih_id (load_iphdr m 14)),
      ih_frag_offset = htons 0x4000, ih_ttl = 64, ih_proto = ucast proto, ih_csum = 0, ih_saddr = htonl src, ih_daddr = htonl dst\<rparr>
 \<and> arp_reply_mem m netdev = store_arp_ipv4
     (store_arp_hdr m 14 \<lparr>ah_hwtype = htons (get16 m 14), ah_protype = htons (get16 m 16), ah_hwsize = m 18, ah_prosize = m 19,
        ah_opcode = htons ARP_REPLY\<rparr>) 22
     \<lparr>ar_src_mac = take 6 (dev_hwaddr netdev), ar_src_ip = htonl (dev_addr netdev),
      ar_dst_mac = ar_src_mac (arp_data m), ar_dst_ip = htonl (ar_src_ip (arp_data m))\<rparr>
 \<and> tcp_fill m p c data flags slen =
     (let m0 = put_bytes (store_tcp_hdr m p (tcp_header c flags 0)) (p + 20) data
      in put_bytes (store_tcp_hdr m p (tcp_header c flags
           (do_tcp_csum m0 p (uint slen) (htons 6) (htonl (local_ip c)) (htonl (remote_ip c))))) (p + 20) data)"
  using ip_fill_one_header arp_reply_one_header tcp_fill_one_header by simp

end
