(* ===== verification/Locking.thy ===== *)
theory Locking
  imports Net_Prelude
begin

text \<open>
  The mutexes of the stack and the threads that take them. The other theories run an operation from its start to its return; here operations of several threads interleave at every
  \<^verbatim>\<open>pthread_mutex_lock\<close> and \<^verbatim>\<open>pthread_mutex_unlock\<close>. Of an operation only its calls of these two functions matter, in the order in which they are made along a path through the code; a
  \<^verbatim>\<open>pthread_cond_wait\<close> releases its mutex and takes it again, at the latest when the condition is signalled, and perhaps earlier.

  The mutexes are \<open>tcb_lock\<close> and \<open>send_lock\<close> of a control block, \<open>msg_arr_lock\<close> of \<^verbatim>\<open>src/tcp.c\<close>, \<open>fd_lock\<close> and \<open>port_lock\<close> of \<^verbatim>\<open>src/anpwrapper.c\<close> and \<open>lock\<close> of \<^verbatim>\<open>src/timer.c\<close>. The mutex of
  a single timer is only ever tried by the timer thread, and the read-write lock of the tick is held for one assignment; neither can make a thread wait for another.

  All operations but three take the mutexes in one order, and then every thread comes to its end, whatever the schedule (locale \<open>lock_order\<close>). The retransmission thread breaks the order when a message
  has run out of retries, and with it the stack can deadlock. The two other operations are paths that return with a mutex held.
\<close>

section \<open>Mutexes and threads\<close>

datatype mutex = Fd_lock | Port_lock | Tcb_lock nat | Send_lock nat | Msg_arr_lock | Timers_lock

datatype lock_op = Acq mutex | Rel mutex

text \<open>A thread: the mutexes it holds and what is left of its calls. A mutex that is held, by whomever, is not given again.\<close>

type_synonym thread = "mutex set \<times> lock_op list"

inductive lock_step :: "thread list \<Rightarrow> thread list \<Rightarrow> bool" where
  acquire: "\<lbrakk>i < length ts; ts ! i = (held, Acq l # ops); \<forall>t \<in> set ts. l \<notin> fst t\<rbrakk> \<Longrightarrow>
     lock_step ts (ts[i := (insert l held, ops)])"
| release: "\<lbrakk>i < length ts; ts ! i = (held, Rel l # ops)\<rbrakk> \<Longrightarrow> lock_step ts (ts[i := (held - {l}, ops)])"

definition finished :: "thread list \<Rightarrow> bool" where
  "finished ts \<longleftrightarrow> (\<forall>t \<in> set ts. snd t = [])"

text \<open>No thread can go on, though not all have finished.\<close>

definition deadlock :: "thread list \<Rightarrow> bool" where
  "deadlock ts \<longleftrightarrow> \<not> finished ts \<and> (\<nexists>ts'. lock_step ts ts')"

section \<open>The operations\<close>

definition add_msg_to_arr_locks :: "lock_op list" where
  "add_msg_to_arr_locks = [Acq Msg_arr_lock, Rel Msg_arr_lock]"

definition stop_retransmit_locks :: "lock_op list" where
  "stop_retransmit_locks = [Acq Msg_arr_lock, Rel Msg_arr_lock]"

definition timer_oneshot_locks :: "lock_op list" where
  "timer_oneshot_locks = [Acq Timers_lock, Rel Timers_lock]"

definition timers_tick_locks :: "lock_op list" where
  "timers_tick_locks = [Acq Timers_lock, Rel Timers_lock]"

text \<open>A round of the loop of \<open>tcp_tx\<close>, which may wait on \<open>send_cond\<close>; the last one does not.\<close>

definition tx_round_locks :: "nat \<Rightarrow> bool \<Rightarrow> lock_op list" where
  "tx_round_locks p waits = [Acq (Send_lock p)] @ add_msg_to_arr_locks
     @ (if waits then [Rel (Send_lock p), Acq (Send_lock p)] else []) @ [Rel (Send_lock p)]"

definition tcp_tx_locks :: "nat \<Rightarrow> bool list \<Rightarrow> lock_op list" where
  "tcp_tx_locks p rounds = concat (map (tx_round_locks p) rounds) @ tx_round_locks p False"

definition read_bytes_locks :: "nat \<Rightarrow> bool \<Rightarrow> lock_op list" where
  "read_bytes_locks p waits =
     [Acq (Tcb_lock p)] @ (if waits then [Rel (Tcb_lock p), Acq (Tcb_lock p)] else []) @ [Rel (Tcb_lock p)]"

definition close_connection_locks :: "nat \<Rightarrow> lock_op list" where
  "close_connection_locks p = [Acq (Tcb_lock p)] @ stop_retransmit_locks @ [Rel (Tcb_lock p)]"

definition free_tcb_locks :: "nat \<Rightarrow> lock_op list" where
  "free_tcb_locks p = [Acq (Send_lock p), Rel (Send_lock p)] @ stop_retransmit_locks"

text \<open>The end of \<open>tcp_rx\<close>, from the FIN bit on: \<open>Fin_wait_2\<close> is the FIN that the closing connection waits for, \<open>Fin_other\<close> one in any other
  state, after which the function returns without unlocking.\<close>

datatype fin_path = No_fin | Fin_wait_2 | Fin_other

definition rx_fin_locks :: "nat \<Rightarrow> fin_path \<Rightarrow> lock_op list" where
  "rx_fin_locks p path = (case path of
     No_fin \<Rightarrow> [Rel (Tcb_lock p)]
   | Fin_wait_2 \<Rightarrow> tcp_tx_locks p [] @ [Rel (Tcb_lock p)] @ timer_oneshot_locks
   | Fin_other \<Rightarrow> [])"

text \<open>The segment text: none, out of order, or stored, with an acknowledgement if the buffer took any of it.\<close>

datatype text_path = No_text fin_path | Out_of_order | Text bool fin_path

definition rx_text_locks :: "nat \<Rightarrow> text_path \<Rightarrow> lock_op list" where
  "rx_text_locks p path = (case path of
     No_text fin \<Rightarrow> rx_fin_locks p fin
   | Out_of_order \<Rightarrow> [Rel (Tcb_lock p)]
   | Text stored fin \<Rightarrow> (if stored then tcp_tx_locks p [] else []) @ rx_fin_locks p fin)"

text \<open>The paths through \<open>tcp_rx\<close> behind the lookup of the control block.\<close>

datatype rx_path =
    Rx_drop
  | Rx_syn_sent
  | Rx_syn_received text_path
  | Rx_established bool text_path
  | Rx_fin_wait_1 text_path

definition tcp_rx_locks :: "nat \<Rightarrow> rx_path \<Rightarrow> lock_op list" where
  "tcp_rx_locks p path = [Acq (Tcb_lock p), Acq (Send_lock p)] @ (case path of
     Rx_drop \<Rightarrow> [Rel (Tcb_lock p), Rel (Send_lock p)]
   | Rx_syn_sent \<Rightarrow> stop_retransmit_locks @ [Rel (Send_lock p)] @ tcp_tx_locks p [] @ [Rel (Tcb_lock p)]
   | Rx_syn_received text \<Rightarrow> stop_retransmit_locks @ [Rel (Send_lock p)] @ tcp_tx_locks p [] @ rx_text_locks p text
   | Rx_established new_ack text \<Rightarrow> (if new_ack then stop_retransmit_locks else []) @ [Rel (Send_lock p)] @ rx_text_locks p text
   | Rx_fin_wait_1 text \<Rightarrow> [Rel (Send_lock p)] @ rx_text_locks p text)"

text \<open>The retransmission thread: for every message, whether its retries have run out, and for which connection.\<close>

definition retransmit_locks :: "nat option list \<Rightarrow> lock_op list" where
  "retransmit_locks expired = [Acq Msg_arr_lock]
     @ concat (map (\<lambda>e. case e of None \<Rightarrow> [] | Some p \<Rightarrow> [Acq (Tcb_lock p), Rel (Tcb_lock p)]) expired)
     @ [Rel Msg_arr_lock] @ timer_oneshot_locks"

definition is_anp_sockfd_locks :: "lock_op list" where
  "is_anp_sockfd_locks = [Acq Fd_lock, Rel Fd_lock]"

definition get_next_fd_locks :: "lock_op list" where
  "get_next_fd_locks = [Acq Fd_lock, Rel Fd_lock]"

definition free_fd_entry_locks :: "lock_op list" where
  "free_fd_entry_locks = [Acq Fd_lock, Rel Fd_lock]"

definition get_port_locks :: "lock_op list" where
  "get_port_locks = [Acq Port_lock, Rel Port_lock]"

datatype connect_path = Bad_socket | No_memory | No_route | Syn_sent

definition connect_locks :: "nat \<Rightarrow> connect_path \<Rightarrow> lock_op list" where
  "connect_locks p path = is_anp_sockfd_locks @ (case path of
     Bad_socket \<Rightarrow> []
   | No_memory \<Rightarrow> free_fd_entry_locks
   | No_route \<Rightarrow> get_port_locks
   | Syn_sent \<Rightarrow> get_port_locks @ [Acq (Tcb_lock p)] @ tcp_tx_locks p []
       @ [Rel (Tcb_lock p), Acq (Tcb_lock p)] @ [Rel (Tcb_lock p)])"

text \<open>\<open>None\<close> is a call that finds no connection (or, for \<open>send\<close>, none that is established) and returns at once.\<close>

definition send_locks :: "nat \<Rightarrow> bool list option \<Rightarrow> lock_op list" where
  "send_locks p rounds = is_anp_sockfd_locks @ (case rounds of None \<Rightarrow> [] | Some ws \<Rightarrow> tcp_tx_locks p ws)"

definition recv_locks :: "nat \<Rightarrow> bool option \<Rightarrow> lock_op list" where
  "recv_locks p waits = is_anp_sockfd_locks @ (case waits of None \<Rightarrow> [] | Some b \<Rightarrow> read_bytes_locks p b)"

datatype close_path = No_connection | Not_established | Fin_sent

definition close_locks :: "nat \<Rightarrow> close_path \<Rightarrow> lock_op list" where
  "close_locks p path = is_anp_sockfd_locks @ (case path of
     No_connection \<Rightarrow> []
   | Not_established \<Rightarrow> [Acq (Tcb_lock p)]
   | Fin_sent \<Rightarrow> [Acq (Tcb_lock p)] @ tcp_tx_locks p [] @ [Rel (Tcb_lock p), Acq (Tcb_lock p)] @ [Rel (Tcb_lock p)])"

datatype operation =
    Socket
  | Connect nat connect_path
  | Send nat "bool list option"
  | Recv nat "bool option"
  | Close nat close_path
  | Tcp_rx nat rx_path
  | Close_conn nat
  | Free_tcb nat
  | Retransmit "nat option list"
  | Timer_oneshot
  | Timers_tick

fun locks :: "operation \<Rightarrow> lock_op list" where
  "locks Socket = get_next_fd_locks"
| "locks (Connect p path) = connect_locks p path"
| "locks (Send p rounds) = send_locks p rounds"
| "locks (Recv p waits) = recv_locks p waits"
| "locks (Close p path) = close_locks p path"
| "locks (Tcp_rx p path) = tcp_rx_locks p path"
| "locks (Close_conn p) = close_connection_locks p"
| "locks (Free_tcb p) = free_tcb_locks p"
| "locks (Retransmit expired) = retransmit_locks expired"
| "locks Timer_oneshot = timer_oneshot_locks"
| "locks Timers_tick = timers_tick_locks"

text \<open>A thread that is to perform some operations, one after the other.\<close>

definition thread_of :: "operation list \<Rightarrow> thread" where
  "thread_of ops = ({}, concat (map locks ops))"

text \<open>The operations that keep to the order of the mutexes and release them all.\<close>

fun fin_ok :: "text_path \<Rightarrow> bool" where
  "fin_ok (No_text fin) \<longleftrightarrow> fin \<noteq> Fin_other"
| "fin_ok Out_of_order \<longleftrightarrow> True"
| "fin_ok (Text stored fin) \<longleftrightarrow> fin \<noteq> Fin_other"

fun orderly :: "operation \<Rightarrow> bool" where
  "orderly (Close p path) \<longleftrightarrow> path \<noteq> Not_established"
| "orderly (Tcp_rx p (Rx_syn_received text)) \<longleftrightarrow> fin_ok text"
| "orderly (Tcp_rx p (Rx_established new_ack text)) \<longleftrightarrow> fin_ok text"
| "orderly (Tcp_rx p (Rx_fin_wait_1 text)) \<longleftrightarrow> fin_ok text"
| "orderly (Retransmit expired) \<longleftrightarrow> list_all (\<lambda>e. e = None) expired"
| "orderly _ \<longleftrightarrow> True"

section \<open>Taking mutexes in order\<close>

text \<open>With the mutexes \<open>held\<close>, the calls take only mutexes of a higher rank, release only what is held, and end with nothing held.\<close>

fun ordered :: "(mutex \<Rightarrow> nat) \<Rightarrow> mutex set \<Rightarrow> lock_op list \<Rightarrow> bool" where
  "ordered rank held [] \<longleftrightarrow> held = {}"
| "ordered rank held (Acq l # ops) \<longleftrightarrow> (\<forall>h \<in> held. rank h < rank l) \<and> ordered rank (insert l held) ops"
| "ordered rank held (Rel l # ops) \<longleftrightarrow> l \<in> held \<and> ordered rank (held - {l}) ops"

lemma ordered_append: "ordered rank held xs \<Longrightarrow> ordered rank {} ys \<Longrightarrow> ordered rank held (xs @ ys)"
  by (induction rank held xs rule: ordered.induct) auto

definition all_ordered :: "(mutex \<Rightarrow> nat) \<Rightarrow> thread list \<Rightarrow> bool" where
  "all_ordered rank ts \<longleftrightarrow> (\<forall>t \<in> set ts. ordered rank (fst t) (snd t))"

lemma all_ordered_step:
  assumes "lock_step ts ts'" and "all_ordered rank ts"
  shows "all_ordered rank ts'"
  using assms
proof (induction rule: lock_step.induct)
  case (acquire i ts held l ops)
  then have "ordered rank held (Acq l # ops)" unfolding all_ordered_def by (metis fst_conv nth_mem snd_conv)
  with acquire(4) show ?case unfolding all_ordered_def by (auto dest!: set_update_subset_insert [THEN subsetD])
next
  case (release i ts held l ops)
  then have "ordered rank held (Rel l # ops)" unfolding all_ordered_def by (metis fst_conv nth_mem snd_conv)
  with release(3) show ?case unfolding all_ordered_def by (auto dest!: set_update_subset_insert [THEN subsetD])
qed

text \<open>The number of calls that are left; every step makes one.\<close>

definition calls_left :: "thread list \<Rightarrow> nat" where
  "calls_left ts = sum_list (map (\<lambda>t. length (snd t)) ts)"

lemma calls_left_update:
  "i < length ts \<Longrightarrow> ts ! i = (held, x # ops) \<Longrightarrow> Suc (calls_left (ts[i := (held', ops)])) = calls_left ts"
  by (induction ts arbitrary: i) (auto simp: calls_left_def nth_Cons split: nat.splits)

lemma calls_left_step: "lock_step ts ts' \<Longrightarrow> Suc (calls_left ts') = calls_left ts"
  by (induction rule: lock_step.induct) (simp_all add: calls_left_update)

text \<open>Some thread can go on: of those that wait, the one that waits for the mutex of the highest rank, or the holder of that mutex.\<close>

lemma ordered_no_deadlock:
  assumes o: "all_ordered rank ts"
  shows "\<not> deadlock ts"
proof
  assume d: "deadlock ts"
  have next_op: "\<exists>l ops. snd t = Acq l # ops \<and> (\<exists>t' \<in> set ts. l \<in> fst t')" if t: "t \<in> set ts" and n: "snd t \<noteq> []" for t
  proof -
    obtain i where i: "i < length ts" "ts ! i = t" using t by (auto simp: in_set_conv_nth)
    obtain x ops where x: "snd t = x # ops" using n by (cases "snd t") auto
    have "\<nexists>ts'. lock_step ts ts'" using d by (simp add: deadlock_def)
    then show ?thesis
      using acquire [OF i(1), of "fst t"] release [OF i(1), of "fst t"] i(2) x by (cases x) (metis prod.collapse)+
  qed
  define wanted where "wanted = {l. \<exists>t \<in> set ts. \<exists>ops. snd t = Acq l # ops}"
  have "wanted \<subseteq> (\<lambda>t. case hd (snd t) of Acq l \<Rightarrow> l | Rel l \<Rightarrow> l) ` set ts" unfolding wanted_def by force
  then have fin: "finite wanted" by (rule finite_surj [OF finite_set])
  obtain t where "t \<in> set ts" "snd t \<noteq> []" using d by (auto simp: deadlock_def finished_def)
  then have "wanted \<noteq> {}" using next_op unfolding wanted_def by blast
  then have "Max (rank ` wanted) \<in> rank ` wanted" using fin by (intro Max_in) auto
  then obtain l where m: "l \<in> wanted" "rank l = Max (rank ` wanted)" by auto
  then have l: "l \<in> wanted" "\<forall>k \<in> wanted. rank k \<le> rank l" using fin by simp_all
  obtain t1 t2 where t: "t1 \<in> set ts" "t2 \<in> set ts" "l \<in> fst t2" using l(1) next_op unfolding wanted_def by force
  have o2: "ordered rank (fst t2) (snd t2)" using o t(2) by (simp add: all_ordered_def)
  then have "snd t2 \<noteq> []" using t(3) by auto
  then obtain k ops where k: "snd t2 = Acq k # ops" using next_op [OF t(2)] by blast
  then have "rank l < rank k" using o2 t(3) by simp
  moreover have "k \<in> wanted" using t(2) k unfolding wanted_def by blast
  ultimately show False using l(2) by fastforce
qed

text \<open>The contract of a set of operations that keep to an order of the mutexes: threads that perform them always come to an end.\<close>

locale lock_order =
  fixes rank :: "mutex \<Rightarrow> nat"
    and calls :: "'o \<Rightarrow> lock_op list"
    and good :: "'o \<Rightarrow> bool"
  assumes good_ordered: "good x \<Longrightarrow> ordered rank {} (calls x)"
begin

lemma threads_ordered:
  assumes "\<forall>xs \<in> set progs. \<forall>x \<in> set xs. good x"
  shows "all_ordered rank (map (\<lambda>xs. ({}, concat (map calls xs))) progs)"
proof -
  have "ordered rank {} (concat (map calls xs))" if "\<forall>x \<in> set xs. good x" for xs
    using that by (induction xs) (simp_all add: good_ordered ordered_append)
  with assms show ?thesis by (simp add: all_ordered_def)
qed

lemma reachable_ordered: "lock_step\<^sup>*\<^sup>* ts ts' \<Longrightarrow> all_ordered rank ts \<Longrightarrow> all_ordered rank ts'"
  by (induction rule: rtranclp_induct) (blast intro: all_ordered_step)+

lemma ordered_completes: "all_ordered rank ts \<Longrightarrow> \<exists>ts'. lock_step\<^sup>*\<^sup>* ts ts' \<and> finished ts'"
proof (induction "calls_left ts" arbitrary: ts rule: less_induct)
  case less
  show ?case
  proof (cases "finished ts")
    case False
    then obtain ts1 where s: "lock_step ts ts1" using ordered_no_deadlock [OF less.prems] by (auto simp: deadlock_def)
    then have "calls_left ts1 < calls_left ts" "all_ordered rank ts1"
      using calls_left_step [OF s] all_ordered_step [OF s less.prems] by simp_all
    then obtain ts' where "lock_step\<^sup>*\<^sup>* ts1 ts'" "finished ts'" using less.hyps by blast
    with s show ?thesis by (meson converse_rtranclp_into_rtranclp)
  qed blast
qed

lemma threads_complete:
  assumes "\<forall>xs \<in> set progs. \<forall>x \<in> set xs. good x"
    and "lock_step\<^sup>*\<^sup>* (map (\<lambda>xs. ({}, concat (map calls xs))) progs) ts"
  shows "\<not> deadlock ts \<and> (\<exists>ts'. lock_step\<^sup>*\<^sup>* ts ts' \<and> finished ts')"
  using reachable_ordered [OF assms(2) threads_ordered [OF assms(1)]] ordered_no_deadlock ordered_completes by blast

end

section \<open>The order of the stack\<close>

fun mutex_rank :: "mutex \<Rightarrow> nat" where
  "mutex_rank Fd_lock = 0"
| "mutex_rank Port_lock = 0"
| "mutex_rank (Tcb_lock p) = 1"
| "mutex_rank (Send_lock p) = 2"
| "mutex_rank Msg_arr_lock = 3"
| "mutex_rank Timers_lock = 4"

lemmas plain_locks =
  add_msg_to_arr_locks_def stop_retransmit_locks_def timer_oneshot_locks_def timers_tick_locks_def read_bytes_locks_def
  close_connection_locks_def free_tcb_locks_def is_anp_sockfd_locks_def get_next_fd_locks_def free_fd_entry_locks_def get_port_locks_def

lemma ordered_tx_round:
  assumes "\<forall>h \<in> held. mutex_rank h < 2" and "ordered mutex_rank held ys"
  shows "ordered mutex_rank held (tx_round_locks p waits @ ys)"
proof -
  have "Send_lock p \<notin> held" "Msg_arr_lock \<notin> held" using assms(1) by fastforce+
  then have "insert Msg_arr_lock (insert (Send_lock p) held) - {Msg_arr_lock} = insert (Send_lock p) held"
    "insert (Send_lock p) held - {Send_lock p} = held" by auto
  then show ?thesis using assms by (auto simp: tx_round_locks_def plain_locks)
qed

lemma ordered_tcp_tx:
  assumes "\<forall>h \<in> held. mutex_rank h < 2" and "ordered mutex_rank held ys"
  shows "ordered mutex_rank held (tcp_tx_locks p rounds @ ys)"
  unfolding tcp_tx_locks_def using assms by (induction rounds) (simp_all add: ordered_tx_round)

lemma ordered_tcp_tx_end: "ordered mutex_rank {} (tcp_tx_locks p rounds)"
  using ordered_tcp_tx [of "{}" "[]"] by simp

lemma ordered_fin: "fin \<noteq> Fin_other \<Longrightarrow> ordered mutex_rank {Tcb_lock p} (rx_fin_locks p fin)"
  by (cases fin) (simp_all add: rx_fin_locks_def ordered_tcp_tx plain_locks)

lemma ordered_text: "fin_ok seg \<Longrightarrow> ordered mutex_rank {Tcb_lock p} (rx_text_locks p seg)"
  by (cases seg rule: fin_ok.cases) (simp_all add: rx_text_locks_def ordered_fin ordered_tcp_tx)

lemma ordered_rx: "orderly (Tcp_rx p path) \<Longrightarrow> ordered mutex_rank {} (tcp_rx_locks p path)"
proof -
  assume o: "orderly (Tcp_rx p path)"
  have s: "insert Msg_arr_lock {Send_lock p, Tcb_lock p} - {Msg_arr_lock} = {Send_lock p, Tcb_lock p}"
    "{Send_lock p, Tcb_lock p} - {Send_lock p} = {Tcb_lock p}" "{Send_lock p, Tcb_lock p} - {Tcb_lock p} = {Send_lock p}" by auto
  show ?thesis
    using o by (cases path) (simp_all add: tcp_rx_locks_def plain_locks s ordered_tcp_tx ordered_text)
qed

lemma ordered_calls:
  "ordered mutex_rank {} (connect_locks p cpath)"
  "ordered mutex_rank {} (send_locks p rounds)"
  "ordered mutex_rank {} (recv_locks p waits)"
  "path \<noteq> Not_established \<Longrightarrow> ordered mutex_rank {} (close_locks p path)"
  by (cases cpath, simp_all add: connect_locks_def plain_locks ordered_tcp_tx)
    (cases rounds, simp_all add: send_locks_def plain_locks ordered_tcp_tx_end,
     cases waits, simp_all add: recv_locks_def plain_locks,
     cases path, simp_all add: close_locks_def plain_locks ordered_tcp_tx)

lemma ordered_retransmit: "list_all (\<lambda>e. e = None) expired \<Longrightarrow> ordered mutex_rank {} (retransmit_locks expired)"
proof -
  assume "list_all (\<lambda>e. e = None) expired"
  then have "concat (map (\<lambda>e. case e of None \<Rightarrow> [] | Some p \<Rightarrow> [Acq (Tcb_lock p), Rel (Tcb_lock p)]) expired) = []"
    by (auto simp: list_all_iff)
  then show ?thesis by (simp add: retransmit_locks_def plain_locks del: concat_eq_Nil_conv)
qed

lemma orderly_ordered: "orderly x \<Longrightarrow> ordered mutex_rank {} (locks x)"
  by (cases x) (auto simp: ordered_calls ordered_rx ordered_retransmit plain_locks)

interpretation stack_locks: lock_order mutex_rank locks orderly
  by unfold_locales (rule orderly_ordered)

section \<open>Schedules\<close>

text \<open>A thread runs alone through some calls, while the others hold the mutexes \<open>others\<close>.\<close>

fun holds_after :: "mutex set \<Rightarrow> lock_op list \<Rightarrow> mutex set" where
  "holds_after held [] = held"
| "holds_after held (Acq l # ops) = holds_after (insert l held) ops"
| "holds_after held (Rel l # ops) = holds_after (held - {l}) ops"

fun free_run :: "mutex set \<Rightarrow> mutex set \<Rightarrow> lock_op list \<Rightarrow> bool" where
  "free_run others held [] \<longleftrightarrow> True"
| "free_run others held (Acq l # ops) \<longleftrightarrow> l \<notin> others \<and> l \<notin> held \<and> free_run others (insert l held) ops"
| "free_run others held (Rel l # ops) \<longleftrightarrow> free_run others (held - {l}) ops"

lemma solo_run:
  assumes "free_run others held pre" and "i < length ts" and "ts ! i = (held, pre @ post)"
    and "\<forall>j < length ts. j \<noteq> i \<longrightarrow> fst (ts ! j) \<subseteq> others"
  shows "lock_step\<^sup>*\<^sup>* ts (ts[i := (holds_after held pre, post)])"
  using assms
proof (induction others held pre arbitrary: ts rule: free_run.induct)
  case (1 others held)
  then show ?case by (metis append_Nil holds_after.simps(1) list_update_id rtranclp.rtrancl_refl)
next
  case (2 others held l ops)
  let ?ts = "ts[i := (insert l held, ops @ post)]"
  have "\<forall>t \<in> set ts. l \<notin> fst t"
  proof
    fix t
    assume "t \<in> set ts"
    then obtain j where "j < length ts" "ts ! j = t" by (auto simp: in_set_conv_nth)
    then show "l \<notin> fst t" using "2.prems" by (cases "j = i") auto
  qed
  then have "lock_step ts ?ts" using "2.prems" by (intro acquire) auto
  moreover have "lock_step\<^sup>*\<^sup>* ?ts (?ts[i := (holds_after (insert l held) ops, post)])"
    using "2.prems" by (intro "2.IH") auto
  ultimately show ?case by (simp add: converse_rtranclp_into_rtranclp)
next
  case (3 others held l ops)
  let ?ts = "ts[i := (held - {l}, ops @ post)]"
  have "lock_step ts ?ts" using "3.prems" by (intro release) auto
  moreover have "lock_step\<^sup>*\<^sup>* ?ts (?ts[i := (holds_after (held - {l}) ops, post)])"
    using "3.prems" by (intro "3.IH") auto
  ultimately show ?case by (simp add: converse_rtranclp_into_rtranclp)
qed

text \<open>Two threads, each holding the mutex that the other takes next.\<close>

lemma two_deadlock:
  assumes "k \<in> held1" and "l \<in> held2"
  shows "deadlock [(held1, Acq l # ops1), (held2, Acq k # ops2)]"
proof -
  have "\<not> lock_step [(held1, Acq l # ops1), (held2, Acq k # ops2)] ts'" for ts'
  proof
    assume "lock_step [(held1, Acq l # ops1), (held2, Acq k # ops2)] ts'"
    then show False using assms
      by (cases rule: lock_step.cases) (auto simp: less_Suc_eq)
  qed
  then show ?thesis by (simp add: deadlock_def finished_def)
qed

text \<open>The retransmission thread goes through messages of other connections.\<close>

lemma expired_others:
  assumes "Some p \<notin> set expired"
  shows "free_run {Tcb_lock p, Send_lock p} {Msg_arr_lock}
      (concat (map (\<lambda>e. case e of None \<Rightarrow> [] | Some p \<Rightarrow> [Acq (Tcb_lock p), Rel (Tcb_lock p)]) expired))
    \<and> holds_after {Msg_arr_lock}
      (concat (map (\<lambda>e. case e of None \<Rightarrow> [] | Some p \<Rightarrow> [Acq (Tcb_lock p), Rel (Tcb_lock p)]) expired)) = {Msg_arr_lock}"
  using assms
proof (induction expired)
  case (Cons e es)
  have "insert (Tcb_lock q) {Msg_arr_lock} - {Tcb_lock q} = {Msg_arr_lock}" for q by auto
  with Cons show ?case by (cases e) auto
qed simp

text \<open>A thread that takes \<open>msg_arr_lock\<close> with \<open>tcb_lock\<close> of a connection in its hands, against the retransmission thread.\<close>

lemma expiry_against:
  assumes x: "locks x = pre @ Acq Msg_arr_lock # post" "free_run {} {} pre" "Tcb_lock p \<in> holds_after {} pre"
      "holds_after {} pre \<subseteq> {Tcb_lock p, Send_lock p}" and e: "Some p \<in> set expired"
  shows "\<exists>ts. lock_step\<^sup>*\<^sup>* [thread_of [Retransmit expired], thread_of [x]] ts \<and> deadlock ts"
proof -
  obtain es fs where es: "expired = es @ Some p # fs" "Some p \<notin> set es" using e by (meson split_list_first)
  let ?f = "\<lambda>e. case e of None \<Rightarrow> [] | Some p \<Rightarrow> [Acq (Tcb_lock p), Rel (Tcb_lock p)]"
  let ?H = "holds_after {} pre"
  let ?r = "Rel (Tcb_lock p) # concat (map ?f fs) @ [Rel Msg_arr_lock] @ timer_oneshot_locks"
  have r: "thread_of [Retransmit expired] = ({}, (Acq Msg_arr_lock # concat (map ?f es)) @ Acq (Tcb_lock p) # ?r)"
    by (simp add: thread_of_def retransmit_locks_def es(1))
  let ?t1 = "[thread_of [Retransmit expired], (?H, Acq Msg_arr_lock # post)]"
  have "lock_step\<^sup>*\<^sup>* [thread_of [Retransmit expired], thread_of [x]] ?t1"
    using solo_run [of "{}" "{}" pre 1 "[thread_of [Retransmit expired], thread_of [x]]" "Acq Msg_arr_lock # post"] x(1,2)
    by (simp add: thread_of_def less_Suc_eq)
  moreover have "lock_step\<^sup>*\<^sup>* ?t1 [({Msg_arr_lock}, Acq (Tcb_lock p) # ?r), (?H, Acq Msg_arr_lock # post)]"
    using solo_run [of "{Tcb_lock p, Send_lock p}" "{}" "Acq Msg_arr_lock # concat (map ?f es)" 0 ?t1 "Acq (Tcb_lock p) # ?r"]
      expired_others [OF es(2)] x(4) r by (simp add: less_Suc_eq)
  moreover have "deadlock [({Msg_arr_lock}, Acq (Tcb_lock p) # ?r), (?H, Acq Msg_arr_lock # post)]"
    using x(3) by (intro two_deadlock) simp_all
  ultimately show ?thesis by (meson rtranclp_trans)
qed

section \<open>Properties\<close>





end
