(* ===== verification/Test_Apps.thy ===== *)
theory Test_Apps
  imports Net_Prelude
begin

text \<open>
  The two test programs of \<^verbatim>\<open>server-client/\<close>: the pattern of \<^verbatim>\<open>common.c\<close>, \<open>run_test\<close> of \<^verbatim>\<open>tcp_client.c\<close> and of
  \<^verbatim>\<open>tcp_server.c\<close>, and the treatment of their options. The programs run on whatever socket calls they are
  linked with (the client with this library, the server with those of the operating system): the calls are the
  record \<open>sock_api\<close>, an argument of the definitions, over a state of any type. The loops around \<^verbatim>\<open>send\<close> and \<^verbatim>\<open>recv\<close> may
  run forever; \<open>None\<close> stands for that.
\<close>

section \<open>The pattern\<close>

abbreviation PATTERN_START :: u8 where "PATTERN_START \<equiv> 0xAA"
abbreviation PORT :: int where "PORT \<equiv> 43211"
abbreviation SMALL_BUF :: nat where "SMALL_BUF \<equiv> 4096"
abbreviation MEDIUM_BUF :: nat where "MEDIUM_BUF \<equiv> 131072"
abbreviation LARGE_BUF :: nat where "LARGE_BUF \<equiv> 1048576"

text \<open>The loops from index \<open>i\<close> on; the index of the C code is an \<^verbatim>\<open>unsigned int\<close>, of which the low byte is added.\<close>

function write_pattern_from :: "nat \<Rightarrow> u8 list \<Rightarrow> nat \<Rightarrow> u8 list" where
  "write_pattern_from i buf sz =
     (if i < sz then write_pattern_from (i + 1) (buf[i := PATTERN_START + word_of_nat i]) sz else buf)"
  by pat_completeness auto
termination
  by (relation "measure (\<lambda>(i, buf, sz). sz - i)") auto

declare write_pattern_from.simps [simp del]

definition write_pattern :: "u8 list \<Rightarrow> nat \<Rightarrow> u8 list" where
  "write_pattern buf sz = write_pattern_from 0 buf sz"

definition OK_matched :: string where "OK_matched = '' < OK, matched > ''"
definition DO_NOT_match :: string where "DO_NOT_match = '' < _DO_NOT match > ''"

function match_pattern_from :: "nat \<Rightarrow> u8 list \<Rightarrow> nat \<Rightarrow> string" where
  "match_pattern_from i buf sz =
     (if i < sz then
        if buf ! i \<noteq> PATTERN_START + word_of_nat i then DO_NOT_match else match_pattern_from (i + 1) buf sz
      else OK_matched)"
  by pat_completeness auto
termination
  by (relation "measure (\<lambda>(i, buf, sz). sz - i)") auto

declare match_pattern_from.simps [simp del]

definition match_pattern :: "u8 list \<Rightarrow> nat \<Rightarrow> string" where
  "match_pattern buf sz = match_pattern_from 0 buf sz"

section \<open>The socket calls and the loops around them\<close>

text \<open>\<open>api_recv fd n\<close> yields the return value and the bytes stored at the start of the caller's buffer.\<close>

record 's sock_api =
  api_socket :: "'s \<Rightarrow> int \<times> 's"
  api_connect :: "int \<Rightarrow> 's \<Rightarrow> int \<times> 's"
  api_send :: "int \<Rightarrow> u8 list \<Rightarrow> 's \<Rightarrow> int \<times> 's"
  api_recv :: "int \<Rightarrow> nat \<Rightarrow> 's \<Rightarrow> int \<times> u8 list \<times> 's"
  api_close :: "int \<Rightarrow> 's \<Rightarrow> int \<times> 's"
  api_errno :: "'s \<Rightarrow> int"

text \<open>The last return value and, for \<open>recv_loop\<close>, the buffer.\<close>

partial_function (option) send_loop ::
  "(u8 list \<Rightarrow> 's \<Rightarrow> int \<times> 's) \<Rightarrow> u8 list \<Rightarrow> nat \<Rightarrow> int \<Rightarrow> 's \<Rightarrow> (int \<times> 's) option" where
  "send_loop snd_call buf so_far ret w =
     (if so_far < length buf then
        case snd_call (drop so_far buf) w of (ret, w) \<Rightarrow>
          if ret < 0 then Some (ret, w) else send_loop snd_call buf (so_far + nat ret) ret w
      else Some (ret, w))"

definition put_at :: "u8 list \<Rightarrow> nat \<Rightarrow> u8 list \<Rightarrow> u8 list" where
  "put_at buf i bs = take i buf @ bs @ drop (i + length bs) buf"

partial_function (option) recv_loop ::
  "(nat \<Rightarrow> 's \<Rightarrow> int \<times> u8 list \<times> 's) \<Rightarrow> nat \<Rightarrow> u8 list \<Rightarrow> nat \<Rightarrow> int \<Rightarrow> 's \<Rightarrow> (int \<times> u8 list \<times> 's) option" where
  "recv_loop rcv sz buf so_far ret w =
     (if so_far < sz then
        case rcv (sz - so_far) w of (ret, bs, w) \<Rightarrow>
          if ret < 0 then Some (ret, buf, w) else recv_loop rcv sz (put_at buf so_far bs) (so_far + nat ret) ret w
      else Some (ret, buf, w))"

section \<open>The client\<close>

abbreviation ENOMEM_code :: int where "ENOMEM_code \<equiv> 12"

text \<open>\<open>run_test\<close> of the client: its return value and the verdict on the pattern, if it gets that far. \<open>tx_ok\<close> and \<open>rx_ok\<close>
  say whether the two allocations succeed.\<close>

definition client_run_test ::
  "'s sock_api \<Rightarrow> bool \<Rightarrow> bool \<Rightarrow> nat \<Rightarrow> 's \<Rightarrow> (int \<times> string option \<times> 's) option" where
  "client_run_test api tx_ok rx_ok sz w =
     (if \<not> tx_ok then Some (- ENOMEM_code, None, w)
      else if \<not> rx_ok then Some (- ENOMEM_code, None, w)
      else
        let (server_fd, w) = api_socket api w
        in if server_fd < 0 then Some (- api_errno api w, None, w)
        else let (ret, w) = api_connect api server_fd w
        in if ret \<noteq> 0 then Some (- api_errno api w, None, w)
        else
          let tx_buffer = write_pattern (replicate sz 0) sz
          in Option.bind (send_loop (api_send api server_fd) tx_buffer 0 ret w) (\<lambda>(ret, w).
             if ret < 0 then Some (ret, None, w)
             else Option.bind (recv_loop (api_recv api server_fd) sz (replicate sz 0) 0 ret w) (\<lambda>(ret, rx_buffer, w).
               if ret < 0 then Some (ret, None, w)
               else
                 let verdict = match_pattern rx_buffer sz;
                     (ret, w) = api_close api server_fd w
                 in Some (ret, Some verdict, w))))"

text \<open>The size of the test for a configuration number; any other number ends the program.\<close>

definition test_buffer_sz :: "int \<Rightarrow> nat outcome" where
  "test_buffer_sz config =
     (if config = 1 then Inr SMALL_BUF
      else if config = 2 then Inr MEDIUM_BUF
      else if config = 3 then Inr LARGE_BUF
      else Inl (Exit (- 1)))"

text \<open>The clock in microseconds, from the seconds and microseconds of \<^verbatim>\<open>gettimeofday\<close>.\<close>

definition epoch_time :: "int \<times> int \<Rightarrow> 64 word" where
  "epoch_time tv = word_of_int (fst tv) * 1000000 + word_of_int (snd tv)"

text \<open>\<open>thread_func\<close>, with the two readings of the clock: the verdict and the time that is printed, without the five seconds that the test sleeps.
  \<^verbatim>\<open>assert(ret == 0)\<close> aborts (exit code 134).\<close>

definition thread_func ::
  "'s sock_api \<Rightarrow> bool \<Rightarrow> bool \<Rightarrow> int \<Rightarrow> int \<times> int \<Rightarrow> int \<times> int \<Rightarrow> 's \<Rightarrow> (string option \<times> 64 word \<times> 's) outcome option" where
  "thread_func api tx_ok rx_ok config tv0 tv1 w =
     (case test_buffer_sz config of
        Inl e \<Rightarrow> Some (Inl e)
      | Inr sz \<Rightarrow>
          map_option (\<lambda>(ret, verdict, w).
              if ret = 0 then Inr (verdict, epoch_time tv1 - epoch_time tv0 - 5000000, w) else Inl (Exit 134))
            (client_run_test api tx_ok rx_ok sz w))"

section \<open>The server\<close>

text \<open>\<open>run_test\<close> of the server on an accepted connection: whether it gets to its end, and the verdict.\<close>

definition server_run_test ::
  "'s sock_api \<Rightarrow> bool \<Rightarrow> int \<Rightarrow> nat \<Rightarrow> 's \<Rightarrow> (bool \<times> string option \<times> 's) option" where
  "server_run_test api buf_ok client_fd sz w =
     (if \<not> buf_ok then Some (False, None, w)
      else Option.bind (recv_loop (api_recv api client_fd) sz (replicate sz 0) 0 (- 1) w) (\<lambda>(ret, test_buffer, w).
        if ret < 0 \<and> 0 < sz then Some (False, None, w)
        else
          let verdict = match_pattern test_buffer sz
          in Option.bind (send_loop (api_send api client_fd) test_buffer 0 ret w) (\<lambda>(ret, w).
             if ret < 0 \<and> 0 < sz then Some (False, Some verdict, w)
             else
               let (ret, bs, w) = api_recv api client_fd sz w;
                   (ret, w) = api_close api client_fd w
               in Some (ret = 0, Some verdict, w))))"

section \<open>The pattern survives\<close>

definition pattern :: "nat \<Rightarrow> u8 list" where
  "pattern n = map (\<lambda>i. PATTERN_START + word_of_nat i) [0..<n]"

lemma length_pattern [simp]: "length (pattern n) = n"
  by (simp add: pattern_def)

lemma nth_pattern [simp]: "i < n \<Longrightarrow> pattern n ! i = PATTERN_START + word_of_nat i"
  by (simp add: pattern_def)

lemma write_pattern_from_nth:
  "sz \<le> length buf \<Longrightarrow> length (write_pattern_from i buf sz) = length buf
   \<and> (\<forall>j < length buf. write_pattern_from i buf sz ! j = (if i \<le> j \<and> j < sz then PATTERN_START + word_of_nat j else buf ! j))"
proof (induction i buf sz rule: write_pattern_from.induct)
  case (1 i buf sz)
  show ?case
    using 1 by (subst (1 2) write_pattern_from.simps) (auto simp: nth_list_update le_less_Suc_eq Suc_le_eq)
qed

lemma write_pattern_eq: "length buf = n \<Longrightarrow> write_pattern buf n = pattern n"
  using write_pattern_from_nth [of n buf 0] by (auto simp: write_pattern_def intro: nth_equalityI)

lemma match_pattern_from_iff:
  "match_pattern_from i buf sz = OK_matched \<longleftrightarrow> (\<forall>j. i \<le> j \<and> j < sz \<longrightarrow> buf ! j = PATTERN_START + word_of_nat j)"
proof (induction i buf sz rule: match_pattern_from.induct)
  case (1 i buf sz)
  have ne: "DO_NOT_match \<noteq> OK_matched" by (simp add: OK_matched_def DO_NOT_match_def)
  show ?case
  proof (cases "i < sz")
    case True
    then have "(\<forall>j. i \<le> j \<and> j < sz \<longrightarrow> buf ! j = PATTERN_START + word_of_nat j) \<longleftrightarrow>
        buf ! i = PATTERN_START + word_of_nat i \<and> (\<forall>j. i + 1 \<le> j \<and> j < sz \<longrightarrow> buf ! j = PATTERN_START + word_of_nat j)"
      by (metis add.commute le_eq_less_or_eq less_eq_Suc_le plus_1_eq_Suc)
    then show ?thesis using 1 True ne by (subst match_pattern_from.simps) simp
  next
    case False
    then show ?thesis by (subst match_pattern_from.simps) auto
  qed
qed

lemma match_pattern_iff: "length buf = n \<Longrightarrow> match_pattern buf n = OK_matched \<longleftrightarrow> buf = pattern n"
  unfolding match_pattern_def match_pattern_from_iff by (metis length_pattern nth_equalityI nth_pattern zero_le)

section \<open>What the loops achieve\<close>

text \<open>
  What the programs rely on: \<open>send\<close> takes a non-empty part of the data and appends it to what has been sent
  (\<open>out\<close>); \<open>recv\<close> yields a non-empty part of the bytes that have arrived (\<open>pend\<close>), if there are any, in order. With \<open>echo\<close>,
  what is sent comes back.
\<close>

definition send_ok ::
  "bool \<Rightarrow> (u8 list \<Rightarrow> 's \<Rightarrow> int \<times> 's) \<Rightarrow> ('s \<Rightarrow> u8 list) \<Rightarrow> ('s \<Rightarrow> u8 list) \<Rightarrow> bool" where
  "send_ok echo snd_call pend out \<longleftrightarrow> (\<forall>buf w. buf \<noteq> [] \<longrightarrow> (\<exists>k w'. snd_call buf w = (int k, w') \<and> 0 < k \<and> k \<le> length buf
     \<and> out w' = out w @ take k buf \<and> pend w' = pend w @ (if echo then take k buf else [])))"

definition recv_ok :: "(nat \<Rightarrow> 's \<Rightarrow> int \<times> u8 list \<times> 's) \<Rightarrow> ('s \<Rightarrow> u8 list) \<Rightarrow> ('s \<Rightarrow> u8 list) \<Rightarrow> bool" where
  "recv_ok rcv pend out \<longleftrightarrow> (\<forall>n w. 0 < n \<and> pend w \<noteq> [] \<longrightarrow> (\<exists>k w'. rcv n w = (int k, take k (pend w), w') \<and> 0 < k \<and> k \<le> n
     \<and> k \<le> length (pend w) \<and> pend w' = drop k (pend w) \<and> out w' = out w))"

lemma send_loop_all:
  assumes ok: "send_ok echo snd_call pend out" and "so_far \<le> length buf" and "0 \<le> ret"
  shows "\<exists>r w'. send_loop snd_call buf so_far ret w = Some (r, w') \<and> 0 \<le> r \<and> out w' = out w @ drop so_far buf
    \<and> pend w' = pend w @ (if echo then drop so_far buf else [])"
  using assms(2,3)
proof (induction "length buf - so_far" arbitrary: so_far ret w rule: less_induct)
  case less
  show ?case
  proof (cases "so_far < length buf")
    case False
    then show ?thesis using less.prems by (subst send_loop.simps) simp
  next
    case True
    then obtain k w1 where k: "snd_call (drop so_far buf) w = (int k, w1)" "0 < k" "k \<le> length buf - so_far"
        "out w1 = out w @ take k (drop so_far buf)" "pend w1 = pend w @ (if echo then take k (drop so_far buf) else [])"
      using ok [unfolded send_ok_def, rule_format, of "drop so_far buf" w] by auto
    have l: "length buf - (so_far + k) < length buf - so_far" "so_far + k \<le> length buf" using k(2,3) True by auto
    obtain r w' where "send_loop snd_call buf (so_far + k) (int k) w1 = Some (r, w')" "0 \<le> r" "out w' = out w1 @ drop (so_far + k) buf"
        "pend w' = pend w1 @ (if echo then drop (so_far + k) buf else [])"
      using less.hyps [OF l, of "int k" w1] by auto
    moreover have "take k (drop so_far buf) @ drop (so_far + k) buf = drop so_far buf"
      by (metis add.commute append_take_drop_id drop_drop)
    ultimately show ?thesis using True k by (subst send_loop.simps) simp
  qed
qed

lemma recv_loop_all:
  assumes ok: "recv_ok rcv pend out" and "so_far \<le> sz" and "length buf = sz" and "sz - so_far \<le> length (pend w)"
    and "0 \<le> ret \<or> so_far < sz"
  shows "\<exists>r w'. recv_loop rcv sz buf so_far ret w = Some (r, take so_far buf @ take (sz - so_far) (pend w), w') \<and> 0 \<le> r
    \<and> pend w' = drop (sz - so_far) (pend w) \<and> out w' = out w"
  using assms(2-)
proof (induction "sz - so_far" arbitrary: so_far buf ret w rule: less_induct)
  case less
  show ?case
  proof (cases "so_far < sz")
    case False
    then show ?thesis using less.prems by (subst recv_loop.simps) simp
  next
    case True
    then obtain k w1 where k: "rcv (sz - so_far) w = (int k, take k (pend w), w1)" "0 < k" "k \<le> sz - so_far" "k \<le> length (pend w)"
        "pend w1 = drop k (pend w)" "out w1 = out w"
      using ok [unfolded recv_ok_def, rule_format, of "sz - so_far" w] less.prems(3) by fastforce
    let ?buf = "put_at buf so_far (take k (pend w))"
    have b: "length ?buf = sz" "take (so_far + k) ?buf = take so_far buf @ take k (pend w)"
      using less.prems(1,2) k(3,4) by (simp_all add: put_at_def)
    have l: "sz - (so_far + k) < sz - so_far" "so_far + k \<le> sz" "sz - (so_far + k) \<le> length (pend w1)"
      using k(2-5) True less.prems(3) by auto
    obtain r w' where "recv_loop rcv sz ?buf (so_far + k) (int k) w1 = Some (r, take (so_far + k) ?buf @ take (sz - (so_far + k)) (pend w1), w')"
        "0 \<le> r" "pend w' = drop (sz - (so_far + k)) (pend w1)" "out w' = out w1"
      using less.hyps [OF l(1,2) b(1) l(3), of "int k"] by auto
    moreover have "take k (pend w) @ take (sz - (so_far + k)) (drop k (pend w)) = take (sz - so_far) (pend w)"
      using k(3) by (metis diff_diff_left le_add_diff_inverse take_add)
    ultimately show ?thesis using True k b by (subst recv_loop.simps) (simp add: add.commute)
  qed
qed

section \<open>Options\<close>

record options =
  o_config :: int
  o_port :: int
  o_addr :: u32
  o_sin_port :: u16
  o_wait :: bool
  o_threads :: int

text \<open>The variables of \<open>main\<close> before the options are read: the client's default address is the loopback address, the server's
  \<^verbatim>\<open>INADDR_ANY\<close>.\<close>

definition client_defaults :: options where
  "client_defaults = \<lparr>o_config = 1, o_port = PORT, o_addr = htonl 0x7F000001, o_sin_port = htons (word_of_int PORT),
     o_wait = False, o_threads = 1\<rparr>"

definition server_defaults :: options where
  "server_defaults = \<lparr>o_config = 1, o_port = PORT, o_addr = htonl 0, o_sin_port = htons (word_of_int PORT),
     o_wait = False, o_threads = 1\<rparr>"

text \<open>
  \<open>get_addr\<close> of \<^verbatim>\<open>common.c\<close>: \<open>getaddrinfo\<close> yields its return value and the address and port of the first result, which are copied over
  the caller's structure. Then one round of the \<^verbatim>\<open>getopt\<close> loop; \<open>strtol\<close> is the conversion \<^verbatim>\<open>strtol(optarg, NULL, 0)\<close>.
\<close>

definition get_addr :: "(string \<Rightarrow> int \<times> u32 \<times> u16) \<Rightarrow> string \<Rightarrow> int + (u32 \<times> u16)" where
  "get_addr getaddrinfo dst = (let (ret, res) = getaddrinfo dst in if ret \<noteq> 0 then Inl ret else Inr res)"

definition client_option ::
  "(string \<Rightarrow> int) \<Rightarrow> (string \<Rightarrow> int \<times> u32 \<times> u16) \<Rightarrow> char \<times> string \<Rightarrow> options \<Rightarrow> options outcome" where
  "client_option strtol getaddrinfo opt opts =
     (let (c, optarg) = opt
      in if c = CHR ''h'' then Inl (Exit 0)
         else if c = CHR ''c'' then Inr (opts\<lparr>o_config := strtol optarg\<rparr>)
         else if c = CHR ''a'' then
           (case get_addr getaddrinfo optarg of
              Inl ret \<Rightarrow> Inl (Exit ret)
            | Inr (addr, sin_port) \<Rightarrow>
                let opts = opts\<lparr>o_addr := addr, o_sin_port := sin_port\<rparr>
                in Inr (opts\<lparr>o_sin_port := htons (word_of_int (o_port opts))\<rparr>))
         else if c = CHR ''p'' then
           let opts = opts\<lparr>o_port := strtol optarg\<rparr>
           in Inr (opts\<lparr>o_sin_port := htons (word_of_int (o_port opts))\<rparr>)
         else if c = CHR ''w'' then Inr (opts\<lparr>o_wait := True\<rparr>)
         else if c = CHR ''P'' then Inr (opts\<lparr>o_threads := strtol optarg\<rparr>)
         else Inl (Exit (- 1)))"

definition server_option ::
  "(string \<Rightarrow> int) \<Rightarrow> (string \<Rightarrow> int \<times> u32 \<times> u16) \<Rightarrow> char \<times> string \<Rightarrow> options \<Rightarrow> options outcome" where
  "server_option strtol getaddrinfo opt opts =
     (let (c, optarg) = opt
      in if c = CHR ''h'' then Inl (Exit 0)
         else if c = CHR ''c'' then Inr (opts\<lparr>o_config := strtol optarg\<rparr>)
         else if c = CHR ''a'' then
           (case get_addr getaddrinfo optarg of
              Inl ret \<Rightarrow> Inl (Exit ret)
            | Inr (addr, sin_port) \<Rightarrow>
                let opts = opts\<lparr>o_addr := addr, o_sin_port := sin_port\<rparr>
                in Inr (opts\<lparr>o_sin_port := htons (word_of_int (o_port opts))\<rparr>))
         else if c = CHR ''p'' then
           let opts = opts\<lparr>o_port := strtol optarg\<rparr>
           in Inr (opts\<lparr>o_sin_port := htons (word_of_int (o_port opts))\<rparr>)
         else if c = CHR ''P'' then Inr (opts\<lparr>o_threads := strtol optarg\<rparr>)
         else Inl (Exit (- 1)))"

fun read_options :: "(char \<times> string \<Rightarrow> options \<Rightarrow> options outcome) \<Rightarrow> (char \<times> string) list \<Rightarrow> options \<Rightarrow> options outcome" where
  "read_options step [] opts = Inr opts"
| "read_options step (opt # rest) opts = bindo (step opt opts) (read_options step rest)"

text \<open>\<open>main\<close> of the client up to the creation of the threads: each of them runs \<open>thread_func\<close> on the same configuration and address.\<close>

definition client_main ::
  "(string \<Rightarrow> int) \<Rightarrow> (string \<Rightarrow> int \<times> u32 \<times> u16) \<Rightarrow> (char \<times> string) list \<Rightarrow> (int \<times> u32 \<times> u16) list outcome" where
  "client_main strtol getaddrinfo argv =
     bindo (read_options (client_option strtol getaddrinfo) argv client_defaults) (\<lambda>opts.
       Inr (replicate (nat (o_threads opts)) (o_config opts, o_addr opts, o_sin_port opts)))"

section \<open>The server's main program\<close>

record 's server_api = "'s sock_api" +
  api_setsockopt :: "int \<Rightarrow> 's \<Rightarrow> 's"
  api_bind :: "int \<Rightarrow> u32 \<Rightarrow> u16 \<Rightarrow> 's \<Rightarrow> int \<times> 's"
  api_listen :: "int \<Rightarrow> int \<Rightarrow> 's \<Rightarrow> int \<times> 's"
  api_accept :: "int \<Rightarrow> 's \<Rightarrow> int \<times> u32 \<times> 's"

record thread_args =
  ta_client_fd :: int
  ta_test_buffer_sz :: nat
  ta_client_addr :: u32

text \<open>The loop that accepts \<open>n\<close> more connections; each of them gets a thread that runs \<open>run_test\<close> on its arguments. The allocation of the
  arguments is not checked, so that a failure (\<open>mem\<close> is false for the number of the connection) is a store through \<^verbatim>\<open>NULL\<close>.\<close>

fun accept_loop ::
  "'s server_api \<Rightarrow> (nat \<Rightarrow> bool) \<Rightarrow> int \<Rightarrow> int \<Rightarrow> nat \<Rightarrow> thread_args list \<Rightarrow> 's \<Rightarrow> (thread_args list \<times> 's) outcome" where
  "accept_loop api mem listen_fd config 0 threads w = Inr (threads, w)"
| "accept_loop api mem listen_fd config (Suc n) threads w =
     bindo (test_buffer_sz config) (\<lambda>sz.
       if \<not> mem (length threads) then Inl NullPointer
       else
         let (fd, addr, w) = api_accept api listen_fd w
         in if fd < 0 then Inl (Exit (- api_errno api w))
            else accept_loop api mem listen_fd config n
              (threads @ [\<lparr>ta_client_fd = fd, ta_test_buffer_sz = sz, ta_client_addr = addr\<rparr>]) w)"

text \<open>\<open>main\<close> up to the point where all threads have been created: the listening descriptor and the threads, in order.\<close>

definition server_main ::
  "'s server_api \<Rightarrow> (nat \<Rightarrow> bool) \<Rightarrow> (string \<Rightarrow> int) \<Rightarrow> (string \<Rightarrow> int \<times> u32 \<times> u16) \<Rightarrow> (char \<times> string) list \<Rightarrow> 's \<Rightarrow>
   (int \<times> thread_args list \<times> 's) outcome" where
  "server_main api mem strtol getaddrinfo argv w =
     bindo (read_options (server_option strtol getaddrinfo) argv server_defaults) (\<lambda>opts.
       let (listen_fd, w) = api_socket api w
       in if listen_fd = - 1 then Inl (Exit (- api_errno api w))
       else
         let w = api_setsockopt api listen_fd w;
             (ret, w) = api_bind api listen_fd (o_addr opts) (o_sin_port opts) w
         in if ret \<noteq> 0 then Inl (Exit (- api_errno api w))
         else
           let (ret, w) = api_listen api listen_fd (o_threads opts) w
           in if ret \<noteq> 0 then Inl (Exit (- api_errno api w))
           else bindo (accept_loop api mem listen_fd (o_config opts) (nat (o_threads opts)) [] w) (\<lambda>(threads, w).
             Inr (listen_fd, threads, w)))"

text \<open>\<open>accept\<close> delivers connections, and \<open>acc\<close> is the record of their descriptors.\<close>

definition accept_ok :: "('s \<Rightarrow> int \<times> u32 \<times> 's) \<Rightarrow> ('s \<Rightarrow> int list) \<Rightarrow> bool" where
  "accept_ok call acc \<longleftrightarrow> (\<forall>w. \<exists>fd addr w'. call w = (fd, addr, w') \<and> 0 \<le> fd \<and> acc w' = acc w @ [fd])"

lemma accept_loop_all:
  assumes "accept_ok (api_accept api lfd) acc" and "test_buffer_sz config = Inr sz" and "\<forall>i. mem i"
  shows "\<exists>new w'. accept_loop api mem lfd config n threads w = Inr (threads @ new, w') \<and> length new = n
    \<and> (\<forall>t \<in> set new. ta_test_buffer_sz t = sz) \<and> acc w' = acc w @ map ta_client_fd new"
proof (induction n arbitrary: threads w)
  case 0
  show ?case by (auto intro: exI [of _ "[]"])
next
  case (Suc n)
  obtain fd addr w1 where a: "api_accept api lfd w = (fd, addr, w1)" "0 \<le> fd" "acc w1 = acc w @ [fd]"
    using assms(1) unfolding accept_ok_def by blast
  let ?t = "\<lparr>ta_client_fd = fd, ta_test_buffer_sz = sz, ta_client_addr = addr\<rparr>"
  obtain new w' where "accept_loop api mem lfd config n (threads @ [?t]) w1 = Inr ((threads @ [?t]) @ new, w')"
      "length new = n" "\<forall>t \<in> set new. ta_test_buffer_sz t = sz" "acc w' = acc w1 @ map ta_client_fd new"
    using Suc.IH by blast
  then show ?case using a assms(2) assms(3) [rule_format, of "length threads"] by (intro exI [of _ "?t # new"] exI [of _ w']) simp
qed

lemma accept_loop_bad_config: "test_buffer_sz config = Inl e \<Longrightarrow> 0 < n \<Longrightarrow> accept_loop api mem lfd config n threads w = Inl e"
  by (cases n) simp_all

section \<open>Properties\<close>

text \<open>The test data survives the comparison exactly: a buffer of the test's size passes \<open>match_pattern\<close> if and
  only if it is what \<open>write_pattern\<close> writes into any buffer of that size.\<close>

theorem pattern_roundtrip:
  assumes "length buf = n" and "length tx = n"
  shows "match_pattern buf n = OK_matched \<longleftrightarrow> buf = write_pattern tx n"
  using match_pattern_iff [OF assms(1)] write_pattern_eq [OF assms(2)] by simp

theorem pattern_roundtrip_witness:
  "match_pattern [0xAA, 0xAB, 0xAD] 3 = OK_matched \<longleftrightarrow> [0xAA, 0xAB, 0xAD] = write_pattern [0, 0, 0] 3"
  using pattern_roundtrip [of "[0xAA, 0xAB, 0xAD]" 3 "[0, 0, 0]"] by simp

text \<open>C36. The client's test: against a peer that sends back what it gets, over calls that may each move any non-empty part of
  the data, \<open>run_test\<close> comes to an end, finds the pattern intact and returns 0.\<close>

theorem client_run_test_succeeds:
  assumes "api_socket api w = (fd, w1)" and "0 \<le> fd" and "api_connect api fd w1 = (0, w2)" and "pend w2 = []"
    and "send_ok True (api_send api fd) pend out" and "recv_ok (api_recv api fd) pend out"
    and "\<forall>w. fst (api_close api fd w) = 0"
  shows "\<exists>w'. client_run_test api True True sz w = Some (0, Some OK_matched, w')"
proof -
  have p: "write_pattern (replicate sz 0) sz = pattern sz" by (rule write_pattern_eq) simp
  obtain r w3 where s: "send_loop (api_send api fd) (pattern sz) 0 0 w2 = Some (r, w3)" "0 \<le> r" "pend w3 = pattern sz"
    using send_loop_all [OF assms(5), of 0 "pattern sz" 0 w2] assms(4) by auto
  obtain r' w4 where t: "recv_loop (api_recv api fd) sz (replicate sz 0) 0 r w3 = Some (r', pattern sz, w4)" "0 \<le> r'"
    using recv_loop_all [OF assms(6), of 0 sz "replicate sz 0" w3 r] s by auto
  have m: "match_pattern (pattern sz) sz = OK_matched" by (simp add: match_pattern_iff)
  obtain w5 where "api_close api fd w4 = (0, w5)" using assms(7) by (metis prod.collapse)
  then show ?thesis
    using assms(1-3) s t m by (simp add: client_run_test_def p)
qed

text \<open>An echo over calls that move at most two bytes at a time.\<close>

definition sample_api :: "(u8 list \<times> u8 list) sock_api" where
  "sample_api = \<lparr>api_socket = (\<lambda>w. (3, w)), api_connect = (\<lambda>fd w. (0, w)),
     api_send = (\<lambda>fd buf (pend, out). (int (min 2 (length buf)), pend @ take 2 buf, out @ take 2 buf)),
     api_recv = (\<lambda>fd n (pend, out). (int (min 2 (min n (length pend))), take (min 2 n) pend, drop (min 2 n) pend, out)),
     api_close = (\<lambda>fd w. (0, w)), api_errno = (\<lambda>w. 0)\<rparr>"

lemma sample_api_ok: "send_ok True (api_send sample_api fd) fst snd" "recv_ok (api_recv sample_api fd) fst snd"
proof -
  show "send_ok True (api_send sample_api fd) fst snd"
    unfolding send_ok_def
  proof (intro allI impI)
    fix buf :: "u8 list" and w :: "u8 list \<times> u8 list"
    assume "buf \<noteq> []"
    then show "\<exists>k w'. api_send sample_api fd buf w = (int k, w') \<and> 0 < k \<and> k \<le> length buf
        \<and> snd w' = snd w @ take k buf \<and> fst w' = fst w @ (if True then take k buf else [])"
      by (cases w) (auto simp: sample_api_def min_def intro!: exI [of _ "min 2 (length buf)"])
  qed
  show "recv_ok (api_recv sample_api fd) fst snd"
    unfolding recv_ok_def
  proof (intro allI impI)
    fix n :: nat and w :: "u8 list \<times> u8 list"
    assume n: "0 < n \<and> fst w \<noteq> []"
    let ?k = "min 2 (min n (length (fst w)))"
    have "take ?k (fst w) = take (min 2 n) (fst w)" "drop ?k (fst w) = drop (min 2 n) (fst w)" by (auto simp: min_def)
    then show "\<exists>k w'. api_recv sample_api fd n w = (int k, take k (fst w), w') \<and> 0 < k \<and> k \<le> n
        \<and> k \<le> length (fst w) \<and> fst w' = drop k (fst w) \<and> snd w' = snd w"
      using n by (cases w) (auto simp: sample_api_def intro!: exI [of _ ?k])
  qed
qed

theorem client_run_test_succeeds_witness:
  "\<exists>w'. client_run_test sample_api True True SMALL_BUF ([], []) = Some (0, Some OK_matched, w')"
  by (rule client_run_test_succeeds [of sample_api "([], [])" 3 "([], [])" "([], [])" fst snd])
    (simp_all add: sample_api_ok, simp_all add: sample_api_def)

text \<open>The time that a thread prints is the duration of the test less the pause.\<close>

lemma elapsed_time:
  assumes "5000000 \<le> (s1 * 1000000 + u1) - (s0 * 1000000 + u0)" and "(s1 * 1000000 + u1) - (s0 * 1000000 + u0) < 2 ^ 63"
  shows "uint (epoch_time (s1, u1) - epoch_time (s0, u0) - 5000000) = (s1 * 1000000 + u1) - (s0 * 1000000 + u0) - 5000000"
proof -
  let ?d = "(s1 * 1000000 + u1) - (s0 * 1000000 + u0) - 5000000"
  have "epoch_time (s1, u1) - epoch_time (s0, u0) - 5000000 = word_of_int ?d" by (simp add: epoch_time_def)
  moreover have "uint (word_of_int ?d :: 64 word) = ?d"
    using assms by (simp only: uint_word_of_int_eq take_bit_int_eq_self_iff) simp
  ultimately show ?thesis by (simp only:)
qed

text \<open>C37. The server's test: on a connection on which at least the expected number of bytes arrives, \<open>run_test\<close> sends back
  exactly those bytes, in order, whatever parts the calls move, and its verdict is the comparison of those
  bytes with the pattern.\<close>

theorem server_run_test_echoes:
  assumes "send_ok False (api_send api fd) pend out" and "recv_ok (api_recv api fd) pend out" and "0 < sz" and "sz \<le> length (pend w)"
    and "\<forall>w n. out (snd (snd (api_recv api fd n w))) = out w" and "\<forall>w. fst (api_close api fd w) = 0 \<and> out (snd (api_close api fd w)) = out w"
  shows "\<exists>verdict w'. server_run_test api True fd sz w = Some (True, Some verdict, w') \<and> out w' = out w @ take sz (pend w)
    \<and> (verdict = OK_matched \<longleftrightarrow> take sz (pend w) = pattern sz)"
proof -
  obtain r w1 where r: "recv_loop (api_recv api fd) sz (replicate sz 0) 0 (- 1) w = Some (r, take sz (pend w), w1)" "0 \<le> r" "out w1 = out w"
    using recv_loop_all [OF assms(2), of 0 sz "replicate sz 0" w "- 1"] assms(3,4) by auto
  obtain r' w2 where s: "send_loop (api_send api fd) (take sz (pend w)) 0 r w1 = Some (r', w2)" "0 \<le> r'" "out w2 = out w1 @ take sz (pend w)"
    using send_loop_all [OF assms(1), of 0 "take sz (pend w)" r w1] r(2) by auto
  obtain ra bs w3 where a: "api_recv api fd sz w2 = (ra, bs, w3)" by (cases "api_recv api fd sz w2") auto
  obtain w4 where c: "api_close api fd w3 = (0, w4)" using assms(6) by (metis prod.collapse)
  have "out w4 = out w @ take sz (pend w)"
    using assms(5) [rule_format, of sz w2] assms(6) [rule_format, of w3] a c s r by simp
  moreover have "server_run_test api True fd sz w = Some (True, Some (match_pattern (take sz (pend w)) sz), w4)"
    using r s a c by (simp add: server_run_test_def)
  ultimately show ?thesis using match_pattern_iff [of "take sz (pend w)" sz] assms(4) by auto
qed

definition sample_server_api :: "(u8 list \<times> u8 list) sock_api" where
  "sample_server_api = sample_api\<lparr>api_send := (\<lambda>fd buf (pend, out). (int (min 2 (length buf)), pend, out @ take 2 buf))\<rparr>"

theorem server_run_test_echoes_witness:
  "\<exists>verdict w'. server_run_test sample_server_api True 4 3 ([7, 8, 9, 1], []) = Some (True, Some verdict, w') \<and> snd w' = [7, 8, 9]"
proof -
  have "api_send sample_server_api 4 buf w = (int (min 2 (length buf)), fst w, snd w @ take (min 2 (length buf)) buf)" for buf w
    by (cases w) (simp add: sample_server_api_def min_def)
  then have s: "send_ok False (api_send sample_server_api 4) fst snd"
    unfolding send_ok_def by (auto simp: Suc_le_eq intro!: exI [of _ "min 2 (length _)"])
  have r: "recv_ok (api_recv sample_server_api 4) fst snd"
    using sample_api_ok(2) [of 4] by (simp add: sample_server_api_def)
  show ?thesis
    using server_run_test_echoes [OF s r, of 3 "([7, 8, 9, 1], [])"]
    by (auto simp: sample_server_api_def sample_api_def split: prod.split)
qed

text \<open>The port given last.\<close>

definition last_port :: "(string \<Rightarrow> int) \<Rightarrow> (char \<times> string) list \<Rightarrow> int \<Rightarrow> int" where
  "last_port strtol argv port = foldl (\<lambda>p (c, optarg). if c = CHR ''p'' then strtol optarg else p) port argv"

definition port_set :: "options \<Rightarrow> bool" where
  "port_set opts \<longleftrightarrow> o_sin_port opts = htons (word_of_int (o_port opts))"

lemma client_option_port:
  "client_option strtol getaddrinfo (c, arg) opts = Inr opts' \<Longrightarrow> port_set opts \<Longrightarrow>
   port_set opts' \<and> o_port opts' = (if c = CHR ''p'' then strtol arg else o_port opts)"
  by (auto simp: client_option_def Let_def port_set_def split: prod.splits if_splits sum.splits)

lemma server_option_port:
  "server_option strtol getaddrinfo (c, arg) opts = Inr opts' \<Longrightarrow> port_set opts \<Longrightarrow>
   port_set opts' \<and> o_port opts' = (if c = CHR ''p'' then strtol arg else o_port opts)"
  by (auto simp: server_option_def Let_def port_set_def split: prod.splits if_splits sum.splits)

lemma read_options_port:
  assumes "\<And>c arg opts opts'. step (c, arg) opts = Inr opts' \<Longrightarrow> port_set opts \<Longrightarrow>
      port_set opts' \<and> o_port opts' = (if c = CHR ''p'' then strtol arg else o_port opts)"
  shows "read_options step argv opts = Inr opts' \<Longrightarrow> port_set opts \<Longrightarrow> port_set opts' \<and> o_port opts' = last_port strtol argv (o_port opts)"
proof (induction argv arbitrary: opts)
  case Nil
  then show ?case by (simp add: last_port_def)
next
  case (Cons ca argv)
  obtain c arg where ca: "ca = (c, arg)" by (cases ca)
  with Cons.prems(1) obtain opts1 where o1: "step (c, arg) opts = Inr opts1" "read_options step argv opts1 = Inr opts'" by auto
  with assms [OF o1(1) Cons.prems(2)] Cons.IH show ?case by (auto simp: ca last_port_def)
qed

lemma read_options_ports:
  "read_options (client_option strtol getaddrinfo) argv opts = Inr opts' \<Longrightarrow> port_set opts \<Longrightarrow> port_set opts' \<and> o_port opts' = last_port strtol argv (o_port opts)"
  "read_options (server_option strtol getaddrinfo) argv opts = Inr opts' \<Longrightarrow> port_set opts \<Longrightarrow> port_set opts' \<and> o_port opts' = last_port strtol argv (o_port opts)"
  by (rule read_options_port, rule client_option_port, assumption+) (rule read_options_port, rule server_option_port, assumption+)

text \<open>Whatever options are given, in whatever order and however often, and whatever port the address lookup leaves behind: the
  port that every thread of the client connects to, and the port that the server binds to, is the last one given (or 43211), in network order.\<close>

theorem options_port:
  "(\<forall>args config addr port. client_main strtol getaddrinfo argv = Inr args \<and> (config, addr, port) \<in> set args \<longrightarrow>
      port = htons (word_of_int (last_port strtol argv PORT)))
   \<and> (\<forall>opts. read_options (server_option strtol getaddrinfo) argv server_defaults = Inr opts \<longrightarrow>
      o_sin_port opts = htons (word_of_int (last_port strtol argv PORT)))"
proof -
  have d: "port_set client_defaults" "port_set server_defaults" "o_port client_defaults = PORT" "o_port server_defaults = PORT"
    by (simp_all add: client_defaults_def server_defaults_def port_set_def)
  show ?thesis
    using read_options_ports(1) [OF _ d(1)] read_options_ports(2) [OF _ d(2)] d(3,4)
    by (auto simp: client_main_def port_set_def)
qed

theorem options_port_witness:
  "client_main (\<lambda>s. 80) (\<lambda>s. (0, 0x0500000A, 0)) [(CHR ''p'', ''80''), (CHR ''a'', ''10.0.0.5'')] = Inr [(1, 0x0500000A, htons 80)]"
proof -
  let ?run = "client_main (\<lambda>s. 80) (\<lambda>s. (0, 0x0500000A, 0)) [(CHR ''p'', ''80''), (CHR ''a'', ''10.0.0.5'')]"
  obtain port where r: "?run = Inr [(1, 0x0500000A, port)]"
    by (simp add: client_main_def client_option_def client_defaults_def get_addr_def)
  then have "port = htons (word_of_int (last_port (\<lambda>s. 80) [(CHR ''p'', ''80''), (CHR ''a'', ''10.0.0.5'')] PORT))"
    using options_port [of "\<lambda>s. 80" "\<lambda>s. (0, 0x0500000A, 0)" "[(CHR ''p'', ''80''), (CHR ''a'', ''10.0.0.5'')]"] by auto
  then show ?thesis using r by (simp add: last_port_def)
qed

text \<open>The server's main program: with the options read and the socket bound and listening, it accepts exactly the number of connections asked for, and
  creates one thread for each, in the order of arrival, with its descriptor and the buffer size of the configuration; with a configuration number
  other than 1, 2, 3 it ends with status -1 before it accepts any.\<close>

theorem server_main_dispatches:
  assumes "read_options (server_option strtol getaddrinfo) argv server_defaults = Inr opts"
    and "api_socket api w = (lfd, w1)" and "lfd \<noteq> - 1"
    and "api_bind api lfd (o_addr opts) (o_sin_port opts) (api_setsockopt api lfd w1) = (0, w2)"
    and "api_listen api lfd (o_threads opts) w2 = (0, w3)"
    and "accept_ok (api_accept api lfd) acc" and "\<forall>i. mem i"
  shows "(\<forall>sz. test_buffer_sz (o_config opts) = Inr sz \<longrightarrow>
      (\<exists>threads w'. server_main api mem strtol getaddrinfo argv w = Inr (lfd, threads, w') \<and> length threads = nat (o_threads opts)
        \<and> (\<forall>t \<in> set threads. ta_test_buffer_sz t = sz) \<and> acc w' = acc w3 @ map ta_client_fd threads))
    \<and> (o_config opts \<notin> {1, 2, 3} \<and> 0 < o_threads opts \<longrightarrow> server_main api mem strtol getaddrinfo argv w = Inl (Exit (- 1)))"
proof (intro conjI allI impI)
  have m: "server_main api mem strtol getaddrinfo argv w =
      bindo (accept_loop api mem lfd (o_config opts) (nat (o_threads opts)) [] w3) (\<lambda>(threads, w). Inr (lfd, threads, w))"
    using assms(1-5) by (simp add: server_main_def)
  show "\<exists>threads w'. server_main api mem strtol getaddrinfo argv w = Inr (lfd, threads, w') \<and> length threads = nat (o_threads opts)
        \<and> (\<forall>t \<in> set threads. ta_test_buffer_sz t = sz) \<and> acc w' = acc w3 @ map ta_client_fd threads"
    if "test_buffer_sz (o_config opts) = Inr sz" for sz
    using accept_loop_all [OF assms(6) that assms(7), of "nat (o_threads opts)" "[]" w3] m by auto
  show "server_main api mem strtol getaddrinfo argv w = Inl (Exit (- 1))" if c: "o_config opts \<notin> {1, 2, 3} \<and> 0 < o_threads opts"
  proof -
    have "test_buffer_sz (o_config opts) = Inl (Exit (- 1))" using c by (simp add: test_buffer_sz_def)
    then show ?thesis using accept_loop_bad_config c m by (simp add: accept_loop_bad_config)
  qed
qed

text \<open>A system that hands out descriptors from 4 on.\<close>

definition sample_listen_api :: "int list server_api" where
  "sample_listen_api = \<lparr>api_socket = (\<lambda>w. (3, w)), api_connect = (\<lambda>fd w. (0, w)),
     api_send = (\<lambda>fd buf w. (0, w)), api_recv = (\<lambda>fd n w. (0, [], w)), api_close = (\<lambda>fd w. (0, w)), api_errno = (\<lambda>w. 0),
     api_setsockopt = (\<lambda>fd w. w), api_bind = (\<lambda>fd a p w. (0, w)), api_listen = (\<lambda>fd n w. (0, w)),
     api_accept = (\<lambda>fd w. (int (length w) + 4, 0x0400000A, w @ [int (length w) + 4]))\<rparr>"

theorem server_main_dispatches_witness:
  "\<exists>threads w'. server_main sample_listen_api (\<lambda>i. True) (\<lambda>s. 2) (\<lambda>s. (- 2, 0, 0)) [(CHR ''P'', ''2''), (CHR ''c'', ''2'')] [] = Inr (3, threads, w')
     \<and> length threads = 2 \<and> map ta_test_buffer_sz threads = [MEDIUM_BUF, MEDIUM_BUF]"
proof -
  let ?opts = "server_defaults\<lparr>o_threads := 2, o_config := 2\<rparr>"
  have "read_options (server_option (\<lambda>s. 2) (\<lambda>s. (- 2, 0, 0))) [(CHR ''P'', ''2''), (CHR ''c'', ''2'')] server_defaults = Inr ?opts"
    by (simp add: server_option_def)
  from server_main_dispatches [OF this, of sample_listen_api "[]" 3 "[]" "[]" "[]" "\<lambda>w. w" "\<lambda>i. True"]
  obtain threads w' where "server_main sample_listen_api (\<lambda>i. True) (\<lambda>s. 2) (\<lambda>s. (- 2, 0, 0)) [(CHR ''P'', ''2''), (CHR ''c'', ''2'')] [] = Inr (3, threads, w')"
      "length threads = 2" "\<forall>t \<in> set threads. ta_test_buffer_sz t = MEDIUM_BUF"
    by (auto simp: sample_listen_api_def accept_ok_def test_buffer_sz_def)
  then show ?thesis by (auto simp: numeral_2_eq_2 length_Suc_conv)
qed

end
